(* ===== verification/Prelude.thy ===== *)
theory Prelude
  imports Main "HOL-Library.Sublist" "HOL-Library.Char_ord"
begin

text \<open>
  What every component of the model shares: the instants and error values of the Go code,
  the environment the process runs in (clock, fresh identifiers, UUID parsing), the
  functions of Go's \<open>strings\<close> package the source calls, and the lemmas on lists the
  table operations are proved with. No definition here models code of the repository by
  itself; the components build on it.
\<close>

named_theorems go_simps \<open>unfolding rules of the Go-level helpers\<close>
named_theorems table_simps \<open>rewriting of list-based tables\<close>

section \<open>Instants and errors\<close>

text \<open>
  An instant (\<open>time.Time\<close>) is a number of microseconds since the Unix epoch, the
  precision of a PostgreSQL timestamp. \<open>zero_time\<close> is Go's zero value, 1 January of
  year 1, the one for which \<open>IsZero\<close> holds.
\<close>

type_synonym time = int

definition usec :: time where [simp]: "usec = 1000000"

definition zero_time :: time where
  "zero_time = - 62135596800 * 1000000"

definition minutes :: "int \<Rightarrow> time" where
  [go_simps]: "minutes n = n * 60 * 1000000"

text \<open>
  Error values. \<open>Wrap m e\<close> is \<open>fmt.Errorf(m + ": %w", e)\<close>: \<open>errors.Is\<close> looks
  through it. \<open>Msg m\<close> is an error made from a text. \<open>PgxNoRows\<close> and \<open>ErrNoRows\<close>
  are \<open>pgx.ErrNoRows\<close> and \<open>sql.ErrNoRows\<close>, two different values in pgx v4, which the
  code converts by hand where it means to. Messages the source writes in Russian are
  given in English.
\<close>

datatype go_err =
    ErrNoRows
  | PgxNoRows
  | ErrNotFound
  | ErrDeadlineExpired
  | DbError string
  | Msg string
  | Wrap string go_err

fun errors_Is :: "go_err \<Rightarrow> go_err \<Rightarrow> bool" where
  "errors_Is (Wrap m e) t = (Wrap m e = t \<or> errors_Is e t)"
| "errors_Is e t = (e = t)"

section \<open>The environment\<close>

text \<open>
  Code that is not part of the repository and the outside world are parameters.
  \<open>now\<close> is the clock, read once per operation by \<open>time.Now()\<close> and SQL's \<open>NOW()\<close>
  alike. \<open>fresh n\<close> is the \<open>n\<close>-th identifier handed out by \<open>uuid.New()\<close> or
  \<open>gen_random_uuid()\<close>. \<open>uuid_Parse\<close> tells whether google/uuid's \<open>Parse\<close> accepts a
  text, and \<open>pg_uuid\<close> is PostgreSQL's cast \<open>::uuid\<close>: the canonical text of the UUID,
  or \<open>None\<close> where the server reports invalid input. \<open>pg_timestamp\<close> is the conversion of
  a text argument to a timestamp, \<open>None\<close> where it is rejected. \<open>wall_clock\<close> is what a clock in the
  zone of the process shows at an instant: the driver sends a \<open>time.Time\<close> for a column without a zone
  by its clock, so one that was not made UTC first arrives so. \<open>row_order\<close> ranks rows by their identifier
  where the order the server returns them in is left open by the query.
\<close>

record env =
  now :: time
  fresh :: "nat \<Rightarrow> string"
  uuid_Parse :: "string \<Rightarrow> bool"
  pg_uuid :: "string \<Rightarrow> string option"
  pg_timestamp :: "string \<Rightarrow> time option"
  wall_clock :: "time \<Rightarrow> time"
  row_order :: "string \<Rightarrow> nat"

text \<open>
  What the code relies on: casting a canonical text gives it back, fresh identifiers are
  canonical and never repeat, and the empty text is no UUID.
\<close>

definition uuid_laws :: "env \<Rightarrow> bool" where
  "uuid_laws E \<longleftrightarrow>
     (\<forall>s c. pg_uuid E s = Some c \<longrightarrow> pg_uuid E c = Some c) \<and>
     (\<forall>n. pg_uuid E (fresh E n) = Some (fresh E n)) \<and>
     inj (fresh E) \<and> pg_uuid E [] = None"

lemma uuid_lawsD:
  assumes "uuid_laws E"
  shows "pg_uuid E s = Some c \<Longrightarrow> pg_uuid E c = Some c"
    and "pg_uuid E (fresh E n) = Some (fresh E n)"
    and "fresh E m = fresh E n \<longleftrightarrow> m = n"
    and "pg_uuid E [] = None"
  using assms by (auto simp: uuid_laws_def inj_def)

section \<open>Strings\<close>

text \<open>
  Go strings are byte sequences, here lists of \<open>char\<close>. \<open>strings_Split c\<close> is
  \<open>strings.Split\<close> for a one-byte separator, \<open>strings_SplitN2 c\<close> is
  \<open>strings.SplitN(s, c, 2)\<close>, \<open>strings_Join\<close> is \<open>strings.Join\<close>.
\<close>

fun strings_Split :: "char \<Rightarrow> string \<Rightarrow> string list" where
  "strings_Split c [] = [[]]"
| "strings_Split c (x # xs) =
     (if x = c then [] # strings_Split c xs
      else (case strings_Split c xs of
              [] \<Rightarrow> [[x]]
            | w # ws \<Rightarrow> (x # w) # ws))"

definition strings_SplitN2 :: "char \<Rightarrow> string \<Rightarrow> string list" where
  "strings_SplitN2 c s =
     (if c \<in> set s
      then [takeWhile (\<lambda>x. x \<noteq> c) s, tl (dropWhile (\<lambda>x. x \<noteq> c) s)]
      else [s])"

fun strings_Join :: "string \<Rightarrow> string list \<Rightarrow> string" where
  "strings_Join sep [] = []"
| "strings_Join sep [w] = w"
| "strings_Join sep (w # ws) = w @ sep @ strings_Join sep ws"

definition strings_HasPrefix :: "string \<Rightarrow> string \<Rightarrow> bool" where
  "strings_HasPrefix s p \<longleftrightarrow> prefix p s"

text \<open>
  \<open>strings.ToUpper\<close>. Beyond ASCII only the two runes whose upper case is an ASCII letter
  (U+0131 and U+017F) are mapped: the code compares the result with ASCII words, and no
  other rune can make such a comparison succeed.
\<close>

definition ascii_upper :: "char \<Rightarrow> char" where
  "ascii_upper c =
     (if CHR ''a'' \<le> c \<and> c \<le> CHR ''z'' then char_of ((of_char c :: nat) - 32) else c)"

fun strings_ToUpper :: "string \<Rightarrow> string" where
  "strings_ToUpper [] = []"
| "strings_ToUpper [c] = [ascii_upper c]"
| "strings_ToUpper (c # d # s) =
     (if c = CHR 0xC5 \<and> d = CHR 0xBF then CHR ''S'' # strings_ToUpper s
      else if c = CHR 0xC4 \<and> d = CHR 0xB1 then CHR ''I'' # strings_ToUpper s
      else ascii_upper c # strings_ToUpper (d # s))"

text \<open>
  \<open>strings.TrimSpace(s) != ""\<close>: the text holds a rune that is not white space. The runes
  of \<open>unicode.IsSpace\<close> are the six ASCII ones and the UTF-8 sequences listed below.
\<close>

definition ascii_space :: "char \<Rightarrow> bool" where
  "ascii_space c \<longleftrightarrow> c \<in> {CHR 0x09, CHR 0x0A, CHR 0x0B, CHR 0x0C, CHR 0x0D, CHR '' ''}"

definition space2 :: "char \<Rightarrow> char \<Rightarrow> bool" where
  "space2 a b \<longleftrightarrow> a = CHR 0xC2 \<and> (b = CHR 0x85 \<or> b = CHR 0xA0)"

definition space3 :: "char \<Rightarrow> char \<Rightarrow> char \<Rightarrow> bool" where
  "space3 a b c \<longleftrightarrow>
     (a = CHR 0xE1 \<and> b = CHR 0x9A \<and> c = CHR 0x80) \<or>
     (a = CHR 0xE2 \<and> b = CHR 0x80 \<and>
        (CHR 0x80 \<le> c \<and> c \<le> CHR 0x8A \<or> c \<in> {CHR 0xA8, CHR 0xA9, CHR 0xAF})) \<or>
     (a = CHR 0xE2 \<and> b = CHR 0x81 \<and> c = CHR 0x9F) \<or>
     (a = CHR 0xE3 \<and> b = CHR 0x80 \<and> c = CHR 0x80)"

fun blank :: "string \<Rightarrow> bool" where
  "blank [] = True"
| "blank [a] = ascii_space a"
| "blank [a, b] = (if ascii_space a then blank [b] else space2 a b)"
| "blank (a # b # c # s) =
     (if ascii_space a then blank (b # c # s)
      else if space2 a b then blank (c # s)
      else space3 a b c \<and> blank s)"

definition nonblank :: "string \<Rightarrow> bool" where
  "nonblank s \<longleftrightarrow> \<not> blank s"

text \<open>Decimal rendering, \<open>fmt.Sprintf("%d")\<close> of a non-negative integer.\<close>

definition digit_of :: "nat \<Rightarrow> char" where
  "digit_of v = char_of (48 + v :: nat)"

fun show_nat :: "nat \<Rightarrow> string" where
  "show_nat n = (if n < 10 then [digit_of n] else show_nat (n div 10) @ [digit_of (n mod 10)])"

declare show_nat.simps [simp del]

text \<open>\<open>strings.ReplaceAll(s, "$%d", "?")\<close>, the one replacement the source makes.\<close>

fun replace_placeholders :: "string \<Rightarrow> string" where
  "replace_placeholders (a # b # c # s) =
     (if a = CHR ''$'' \<and> b = CHR ''%'' \<and> c = CHR ''d'' then CHR ''?'' # replace_placeholders s
      else a # replace_placeholders (b # c # s))"
| "replace_placeholders s = s"

lemma strings_Split_not_Nil [simp]: "strings_Split c s \<noteq> []"
  by (cases s) (auto split: list.splits)

lemma strings_Split_no_sep: "c \<notin> set s \<Longrightarrow> strings_Split c s = [s]"
  by (induction s) auto

lemma strings_Split_append:
  "c \<notin> set s \<Longrightarrow> strings_Split c (s @ c # t) = s # strings_Split c t"
  by (induction s) auto

lemma strings_Split_prefix:
  assumes "strings_Split c t = w # ws" and "c \<notin> set s"
  shows "strings_Split c (s @ t) = (s @ w) # ws"
  using assms by (induction s) auto

lemma strings_SplitN2_head:
  assumes "c \<notin> set s"
  shows "hd (strings_SplitN2 c (s @ c # t)) = s" and "hd (strings_SplitN2 c s) = s"
proof -
  have "takeWhile (\<lambda>x. x \<noteq> c) (s @ c # t) = s"
    using assms by (induction s) auto
  then show "hd (strings_SplitN2 c (s @ c # t)) = s"
    by (simp add: strings_SplitN2_def)
  show "hd (strings_SplitN2 c s) = s"
    using assms by (simp add: strings_SplitN2_def)
qed

section \<open>Lists as tables\<close>

text \<open>
  A table is a list of rows, newest last. \<open>find_row P t\<close> is the row a query by key
  returns, \<open>update_where P f t\<close> an \<open>UPDATE ... WHERE\<close>, \<open>filter\<close> keeps what a
  \<open>DELETE ... WHERE\<close> leaves.
\<close>

definition update_where :: "('r \<Rightarrow> bool) \<Rightarrow> ('r \<Rightarrow> 'r) \<Rightarrow> 'r list \<Rightarrow> 'r list" where
  "update_where P f t = map (\<lambda>r. if P r then f r else r) t"

definition find_row :: "('r \<Rightarrow> bool) \<Rightarrow> 'r list \<Rightarrow> 'r option" where
  "find_row P t = List.find P t"

lemma update_where_simps [simp, table_simps]:
  "update_where P f [] = []"
  "update_where P f (r # t) = (if P r then f r else r) # update_where P f t"
  "length (update_where P f t) = length t"
  "update_where P f (t @ u) = update_where P f t @ update_where P f u"
  by (auto simp: update_where_def)

lemma subseq_subset: "subseq xs ys \<Longrightarrow> set xs \<subseteq> set ys"
  by (induction rule: list_emb.induct) auto

lemma list_all2_map_eq:
  "list_all2 P xs ys \<Longrightarrow> (\<And>x y. P x y \<Longrightarrow> f y = f x) \<Longrightarrow> map f ys = map f xs"
  by (induction rule: list_all2_induct) auto

lemma map_update_where:
  "(\<And>r. P r \<Longrightarrow> g (f r) = g r) \<Longrightarrow> map g (update_where P f t) = map g t"
  by (induction t) auto

lemma update_where_id: "(\<And>r. r \<in> set t \<Longrightarrow> \<not> P r) \<Longrightarrow> update_where P f t = t"
  by (induction t) auto

lemma update_where_cong:
  "(\<And>r. r \<in> set t \<Longrightarrow> (if P r then f r else r) = (if Q r then g r else r))
     \<Longrightarrow> update_where P f t = update_where Q g t"
  by (simp add: update_where_def)

lemma set_update_where:
  "set (update_where P f t) = f ` {r \<in> set t. P r} \<union> {r \<in> set t. \<not> P r}"
  by (induction t) auto

lemma update_where_preserves:
  assumes "\<forall>r \<in> set t. I r" and "\<And>r. r \<in> set t \<Longrightarrow> P r \<Longrightarrow> I r \<Longrightarrow> I (f r)"
  shows "\<forall>r \<in> set (update_where P f t). I r"
  using assms by (auto simp: set_update_where)

lemma filter_update_where:
  assumes "\<And>r. P r \<Longrightarrow> Q (f r) = Q r"
  shows "filter Q (update_where P f t) = update_where P f (filter Q t)"
  using assms by (induction t) auto

lemma find_row_simps [simp, table_simps]:
  "find_row P [] = None"
  "find_row P (r # t) = (if P r then Some r else find_row P t)"
  by (auto simp: find_row_def)

lemma find_row_Some: "find_row P t = Some r \<Longrightarrow> P r \<and> r \<in> set t"
  by (induction t) (auto split: if_splits)

lemma find_row_None: "find_row P t = None \<longleftrightarrow> (\<forall>r \<in> set t. \<not> P r)"
  by (induction t) auto

lemma find_row_append:
  "find_row P (t @ u) = (case find_row P t of None \<Rightarrow> find_row P u | Some r \<Rightarrow> Some r)"
  by (induction t) auto

lemma find_row_unique:
  assumes "distinct (map k t)" and "r \<in> set t" and "k r = x"
  shows "find_row (\<lambda>q. k q = x) t = Some r"
  using assms by (induction t) (auto simp: image_iff)

lemma find_row_only:
  assumes "r \<in> set t" and "P r" and "\<And>q. q \<in> set t \<Longrightarrow> P q \<Longrightarrow> q = r"
  shows "find_row P t = Some r"
proof (cases "find_row P t")
  case None
  then show ?thesis using assms(1,2) by (simp add: find_row_None)
next
  case (Some q)
  then have "q = r" using assms(3) find_row_Some [OF Some] by blast
  with Some show ?thesis by simp
qed

lemma find_row_update_where:
  assumes "\<And>r. P r \<Longrightarrow> Q (f r) = Q r"
  shows "find_row Q (update_where P f t)
         = map_option (\<lambda>r. if P r then f r else r) (find_row Q t)"
  using assms by (induction t) auto

lemma find_row_update_hit:
  assumes "\<And>r. P (f r) = P r"
  shows "find_row P (update_where P f t) = map_option f (find_row P t)"
  using assms by (induction t) auto

lemma find_row_filter:
  assumes "\<And>r. Q r \<Longrightarrow> P r"
  shows "find_row Q (filter P t) = find_row Q t"
  using assms by (induction t) auto

lemma distinct_map_filter [intro, table_simps]:
  "distinct (map k t) \<Longrightarrow> distinct (map k (filter P t))"
  by (induction t) (auto simp: image_iff)

lemma filter_key_singleton:
  "distinct (map k t) \<Longrightarrow> r \<in> set t \<Longrightarrow> filter (\<lambda>q. k q = k r) t = [r]"
proof (induction t)
  case Nil
  then show ?case by simp
next
  case (Cons q t)
  show ?case
  proof (cases "q = r")
    case True
    with Cons.prems have "\<forall>p \<in> set t. k p \<noteq> k r" by (force simp: image_iff)
    then have "filter (\<lambda>p. k p = k r) t = []" by simp
    with True show ?thesis by simp
  next
    case False
    with Cons.prems have "r \<in> set t" and "k q \<noteq> k r" by (auto simp: image_iff)
    with Cons show ?thesis by simp
  qed
qed

text \<open>Rows of one key: at most one, so an update of that key's row is an update by key.\<close>

lemma keyed_update:
  assumes "distinct (map k t)" and "find_row (\<lambda>r. k r = x) t = Some row"
  shows "update_where (\<lambda>r. k r = x \<and> P r) f t = (if P row then update_where (\<lambda>r. k r = x) f t else t)"
    and "length (filter (\<lambda>r. k r = x \<and> P r) t) = (if P row then 1 else 0)"
    and "find_row (\<lambda>r. k r = x \<and> P r) t = (if P row then Some row else None)"
proof -
  have row: "row \<in> set t" "k row = x" using assms(2) by (auto dest: find_row_Some)
  have only: "r = row" if "r \<in> set t" "k r = x" for r
    using find_row_unique [OF assms(1) that] assms(2) by simp
  show "update_where (\<lambda>r. k r = x \<and> P r) f t = (if P row then update_where (\<lambda>r. k r = x) f t else t)"
  proof (cases "P row")
    case True
    have "update_where (\<lambda>r. k r = x \<and> P r) f t = update_where (\<lambda>r. k r = x) f t"
    proof (rule update_where_cong)
      fix r assume "r \<in> set t"
      then show "(if k r = x \<and> P r then f r else r) = (if k r = x then f r else r)"
        using only [of r] True by auto
    qed
    with True show ?thesis by simp
  next
    case False
    have "update_where (\<lambda>r. k r = x \<and> P r) f t = t"
    proof (rule update_where_id)
      show "\<not> (k r = x \<and> P r)" if "r \<in> set t" for r using only [OF that] False by auto
    qed
    with False show ?thesis by simp
  qed
  have "filter (\<lambda>r. k r = x) t = [row]"
    using filter_key_singleton [OF assms(1) row(1)] row(2) by simp
  then have "length (filter P (filter (\<lambda>r. k r = x) t)) = (if P row then 1 else 0)"
    by (simp del: filter_filter)
  then show "length (filter (\<lambda>r. k r = x \<and> P r) t) = (if P row then 1 else 0)"
    by simp
  show "find_row (\<lambda>r. k r = x \<and> P r) t = (if P row then Some row else None)"
  proof (cases "P row")
    case True
    have "find_row (\<lambda>r. k r = x \<and> P r) t = Some row"
      by (rule find_row_only) (use row True in simp_all, rule only, auto)
    with True show ?thesis by simp
  next
    case False
    have "find_row (\<lambda>r. k r = x \<and> P r) t = None"
      unfolding find_row_None using only False by blast
    with False show ?thesis by simp
  qed
qed

section \<open>Results\<close>

text \<open>Sequencing of fallible computations on the server: the first error wins.\<close>

fun ebind :: "'e + 'a \<Rightarrow> ('a \<Rightarrow> 'e + 'b) \<Rightarrow> 'e + 'b" where
  "ebind (Inl e) f = Inl e"
| "ebind (Inr x) f = f x"

lemma ebind_Inr_iff [simp, go_simps]:
  "ebind m f = Inr y \<longleftrightarrow> (\<exists>x. m = Inr x \<and> f x = Inr y)"
  by (cases m) auto

definition check :: "bool \<Rightarrow> go_err \<Rightarrow> go_err + unit" where
  "check P e = (if P then Inr () else Inl e)"

lemma check_Inr_iff [simp, go_simps]: "check P e = Inr u \<longleftrightarrow> P"
  by (simp add: check_def)

lemma list_all2_set2: "list_all2 P xs ys \<Longrightarrow> y \<in> set ys \<Longrightarrow> \<exists>x \<in> set xs. P x y"
  by (induction rule: list_all2_induct) auto

lemma subseq_distinct: "subseq xs ys \<Longrightarrow> distinct ys \<Longrightarrow> distinct xs"
  by (induction rule: list_emb.induct) (auto dest: subseq_subset)

lemma subseq_distinct_map:
  assumes "distinct (map f ys)" and "subseq xs ys"
  shows "distinct (map f xs)"
proof -
  have "subseq (map f xs) (map f ys)" using assms(2) by (rule subseq_map)
  from subseq_distinct [OF this assms(1)] show ?thesis .
qed

end
