(* ===== verification/GoTime.thy ===== *)
theory GoTime
  imports Prelude
begin

text \<open>
  \<open>time.Parse\<close> of Go's standard library for the layouts the source uses, and the two
  decoders of \<open>app/internal/tasks/dto\<close> built on it. A layout is the list of its
  chunks; a chunk consumes a prefix of the text, as Go's \<open>parse\<close> does chunk by chunk.
  \<open>15\<close> takes one or two digits, the other two-digit chunks exactly two; a blank in the
  layout stands for any run of blanks. Instants have microsecond precision.
\<close>

section \<open>Chunks\<close>

datatype chunk = Year4 | Month2 | Day2 | Hour | Minute2 | Second2 | ZoneZ | Lit char

definition digit_val :: "char \<Rightarrow> int option" where
  "digit_val c = (if CHR ''0'' \<le> c \<and> c \<le> CHR ''9''
                  then Some (int ((of_char c :: nat) - 48)) else None)"

text \<open>Exactly \<open>n\<close> digits, and the digits as long as they last.\<close>

fun digits_n :: "nat \<Rightarrow> string \<Rightarrow> int \<Rightarrow> (int \<times> string) option" where
  "digits_n 0 s acc = Some (acc, s)"
| "digits_n (Suc n) [] acc = None"
| "digits_n (Suc n) (c # s) acc =
     (case digit_val c of None \<Rightarrow> None | Some v \<Rightarrow> digits_n n s (acc * 10 + v))"

text \<open>Go's \<open>getnum(s, fixed)\<close>.\<close>

definition getnum :: "bool \<Rightarrow> string \<Rightarrow> (int \<times> string) option" where
  "getnum fixed s =
     (case digits_n 2 s 0 of
        Some r \<Rightarrow> Some r
      | None \<Rightarrow> if fixed then None else digits_n 1 s 0)"

definition is_digit :: "char \<Rightarrow> bool" where
  "is_digit c \<longleftrightarrow> digit_val c \<noteq> None"

text \<open>The fraction after the seconds, in microseconds: the first six digits count.\<close>

fun micros :: "nat \<Rightarrow> string \<Rightarrow> int" where
  "micros 0 s = 0"
| "micros (Suc n) [] = 0"
| "micros (Suc n) (c # s) =
     (case digit_val c of None \<Rightarrow> 0 | Some v \<Rightarrow> v * 10 ^ n + micros n s)"

definition fraction :: "string \<Rightarrow> int \<times> string" where
  "fraction s =
     (case s of
        c # d # r \<Rightarrow>
          if (c = CHR ''.'' \<or> c = CHR '','') \<and> is_digit d
          then (micros 6 (d # r), dropWhile is_digit (d # r))
          else (0, s)
      | _ \<Rightarrow> (0, s))"

text \<open>\<open>Z\<close>, or a sign, two digits, a colon and two digits: an offset in seconds.\<close>

definition zone_offset :: "string \<Rightarrow> (int \<times> string) option" where
  "zone_offset s =
     (case s of
        [] \<Rightarrow> None
      | c # r \<Rightarrow>
          if c = CHR ''Z'' then Some (0, r)
          else if c = CHR ''+'' \<or> c = CHR ''-'' then
            (case getnum True r of
               Some (hr, col # r') \<Rightarrow>
                 if col \<noteq> CHR '':'' then None
                 else (case getnum True r' of
                         Some (mm, r'') \<Rightarrow>
                           if hr > 24 \<or> mm > 60 then None
                           else Some ((if c = CHR ''+'' then 1 else -1) * (hr * 60 + mm) * 60, r'')
                       | None \<Rightarrow> None)
             | _ \<Rightarrow> None)
          else None)"

section \<open>Dates\<close>

record fields =
  f_year :: int
  f_month :: int
  f_day :: int
  f_hour :: int
  f_min :: int
  f_sec :: int
  f_usec :: int
  f_zone :: int

definition no_fields :: fields where
  "no_fields = \<lparr>f_year = 0, f_month = 1, f_day = 1, f_hour = 0, f_min = 0, f_sec = 0,
                f_usec = 0, f_zone = 0\<rparr>"

definition leap :: "int \<Rightarrow> bool" where
  "leap y \<longleftrightarrow> y mod 4 = 0 \<and> (y mod 100 \<noteq> 0 \<or> y mod 400 = 0)"

definition days_in :: "int \<Rightarrow> int \<Rightarrow> int" where
  "days_in m y =
     (if m = 2 then (if leap y then 29 else 28)
      else if m = 4 \<or> m = 6 \<or> m = 9 \<or> m = 11 then 30 else 31)"

text \<open>Days since 1 January 1970 in the proleptic Gregorian calendar.\<close>

definition days_from_civil :: "int \<Rightarrow> int \<Rightarrow> int \<Rightarrow> int" where
  "days_from_civil y m d =
     (let y' = (if m \<le> 2 then y - 1 else y);
          era = y' div 400;
          yoe = y' - era * 400;
          doy = (153 * (if m > 2 then m - 3 else m + 9) + 2) div 5 + d - 1;
          doe = yoe * 365 + yoe div 4 - yoe div 100 + doy
      in era * 146097 + doe - 719468)"

definition fields_time :: "fields \<Rightarrow> time" where
  "fields_time f =
     (((days_from_civil (f_year f) (f_month f) (f_day f) * 24 + f_hour f) * 60 + f_min f) * 60
       + f_sec f - f_zone f) * 1000000 + f_usec f"

fun parse_chunk :: "chunk \<Rightarrow> string \<Rightarrow> fields \<Rightarrow> (fields \<times> string) option" where
  "parse_chunk Year4 s f =
     (case digits_n 4 s 0 of None \<Rightarrow> None | Some (v, r) \<Rightarrow> Some (f\<lparr>f_year := v\<rparr>, r))"
| "parse_chunk Month2 s f =
     (case getnum True s of None \<Rightarrow> None
      | Some (v, r) \<Rightarrow> if v \<le> 0 \<or> 12 < v then None else Some (f\<lparr>f_month := v\<rparr>, r))"
| "parse_chunk Day2 s f =
     (case getnum True s of None \<Rightarrow> None | Some (v, r) \<Rightarrow> Some (f\<lparr>f_day := v\<rparr>, r))"
| "parse_chunk Hour s f =
     (case getnum False s of None \<Rightarrow> None
      | Some (v, r) \<Rightarrow> if v < 0 \<or> 24 \<le> v then None else Some (f\<lparr>f_hour := v\<rparr>, r))"
| "parse_chunk Minute2 s f =
     (case getnum True s of None \<Rightarrow> None
      | Some (v, r) \<Rightarrow> if v < 0 \<or> 60 \<le> v then None else Some (f\<lparr>f_min := v\<rparr>, r))"
| "parse_chunk Second2 s f =
     (case getnum True s of None \<Rightarrow> None
      | Some (v, r) \<Rightarrow>
          if v < 0 \<or> 60 \<le> v then None
          else (case fraction r of (us, r') \<Rightarrow> Some (f\<lparr>f_sec := v, f_usec := us\<rparr>, r')))"
| "parse_chunk ZoneZ s f =
     (case zone_offset s of None \<Rightarrow> None | Some (z, r) \<Rightarrow> Some (f\<lparr>f_zone := z\<rparr>, r))"
| "parse_chunk (Lit c) s f =
     (if c = CHR '' '' then
        (if s \<noteq> [] \<and> hd s \<noteq> CHR '' '' then None
         else Some (f, dropWhile (\<lambda>x. x = CHR '' '') s))
      else (case s of [] \<Rightarrow> None | x # r \<Rightarrow> if x = c then Some (f, r) else None))"

fun parse_chunks :: "chunk list \<Rightarrow> string \<Rightarrow> fields \<Rightarrow> fields option" where
  "parse_chunks [] s f = (if s = [] then Some f else None)"
| "parse_chunks (k # ks) s f =
     (case parse_chunk k s f of None \<Rightarrow> None | Some (f', r) \<Rightarrow> parse_chunks ks r f')"

definition time_Parse :: "chunk list \<Rightarrow> string \<Rightarrow> time option" where
  "time_Parse layout s =
     (case parse_chunks layout s no_fields of
        None \<Rightarrow> None
      | Some f \<Rightarrow>
          if f_day f < 1 \<or> f_day f > days_in (f_month f) (f_year f) then None
          else Some (fields_time f))"

definition layout_date :: "chunk list" where
  "layout_date = [Year4, Lit CHR ''-'', Month2, Lit CHR ''-'', Day2]"

definition layout_minute :: "chunk list" where \<comment> \<open>\<open>2006-01-02 15:04\<close>\<close>
  "layout_minute = layout_date @ [Lit CHR '' '', Hour, Lit CHR '':'', Minute2]"

definition layout_dashes :: "chunk list" where \<comment> \<open>\<open>2006-01-02-15-04\<close>\<close>
  "layout_dashes = layout_date @ [Lit CHR ''-'', Hour, Lit CHR ''-'', Minute2]"

definition layout_RFC3339 :: "chunk list" where
  "layout_RFC3339 = layout_date @
     [Lit CHR ''T'', Hour, Lit CHR '':'', Minute2, Lit CHR '':'', Second2, ZoneZ]"

lemmas layout_defs = layout_date_def layout_minute_def layout_dashes_def layout_RFC3339_def

section \<open>Formatting\<close>

text \<open>The civil date of a day number, the inverse of \<open>days_from_civil\<close>.\<close>

definition civil_from_days :: "int \<Rightarrow> int \<times> int \<times> int" where
  "civil_from_days n =
     (let z = n + 719468;
          era = z div 146097;
          doe = z - era * 146097;
          yoe = (doe - doe div 1460 + doe div 36524 - doe div 146096) div 365;
          doy = doe - (365 * yoe + yoe div 4 - yoe div 100);
          mp = (5 * doy + 2) div 153;
          d = doy - (153 * mp + 2) div 5 + 1;
          m = (if mp < 10 then mp + 3 else mp - 9);
          y = yoe + era * 400 + (if m \<le> 2 then 1 else 0)
      in (y, m, d))"

definition digit_char :: "int \<Rightarrow> char" where
  "digit_char v = char_of (48 + nat (v mod 10) :: nat)"

fun pad_digits :: "nat \<Rightarrow> int \<Rightarrow> string" where
  "pad_digits 0 v = []"
| "pad_digits (Suc n) v = pad_digits n (v div 10) @ [digit_char v]"

text \<open>
  \<open>Format("02-01-2006 15:04")\<close> of an instant in UTC, for the years 0 to 9999 (four
  digits), which is what \<open>time.Parse\<close> produces.
\<close>

definition format_response :: "time \<Rightarrow> string" where
  "format_response t =
     (let secs = t div 1000000;
          (y, m, d) = civil_from_days (secs div 86400);
          sod = secs mod 86400
      in pad_digits 2 d @ ''-'' @ pad_digits 2 m @ ''-'' @ pad_digits 4 y @ '' '' @
         pad_digits 2 (sod div 3600) @ '':'' @ pad_digits 2 (sod div 60 mod 60))"

section \<open>The decoders of the request types\<close>

text \<open>A Go function may also panic.\<close>

datatype 'a outcome = Panic | Ret 'a

text \<open>
  \<open>CustomTime.UnmarshalJSON\<close> gets the bytes of the JSON value. The slice expression
  \<open>b[1 : len(b)-1]\<close> panics when its bounds cross.
\<close>

definition CustomTime_UnmarshalJSON :: "string \<Rightarrow> (go_err + time) outcome" where
  "CustomTime_UnmarshalJSON b =
     (if length b < 2 then Panic
      else let s = take (length b - 2) (drop 1 b)
           in Ret (case time_Parse layout_minute s of
                     None \<Rightarrow> Inl (Wrap (''failed to parse '' @ s) (Msg ''time''))
                   | Some t \<Rightarrow> Inr t))"

end
