(* ===== verification/Filters.thy ===== *)
theory Filters
  imports GoTime "HOL-Library.List_Lexorder" "HOL-Library.Multiset"
begin

text \<open>
  Filtering, sorting and cache keys of the list requests: the middlewares of
  \<open>app/pkg/api/filter\<close> and \<open>app/pkg/api/sort\<close>, \<open>operator.GetSQLOperator\<close>, the
  condition builders of \<open>tasks/repository/postgres/postgres.go\<close>, and \<open>CacheKey\<close>.
  A parsed query string is the list of its keys with their values, in the order in which
  the \<open>range\<close> over Go's map visits them (Go leaves it open, so theorems quantify over it).
\<close>

section \<open>Request options\<close>

record field =
  fld_Name :: string
  fld_Value :: string
  fld_Operator :: string

record filter_option =
  fo_Fields :: "field list"
  fo_Limit :: int

record sort_options =
  so_Fields :: string
  so_Order :: string

definition no_filter :: filter_option where
  "no_filter = \<lparr>fo_Fields = [], fo_Limit = 0\<rparr>"

type_synonym query = "(string \<times> string list) list"

text \<open>\<open>url.Values.Get\<close>: the first value of the key, or the empty text.\<close>

definition query_Get :: "query \<Rightarrow> string \<Rightarrow> string" where
  "query_Get q k =
     (case map_of q k of None \<Rightarrow> [] | Some [] \<Rightarrow> [] | Some (v # _) \<Rightarrow> v)"

text \<open>The inner loop of the filter middleware over the values of one key.\<close>

fun filter_values :: "string \<Rightarrow> string list \<Rightarrow> field list" where
  "filter_values key [] = []"
| "filter_values key (value # vs) =
     (case strings_SplitN2 CHR '':'' value of
        [op, val] \<Rightarrow>
          \<lparr>fld_Name = key, fld_Value = val, fld_Operator = op\<rparr> # filter_values key vs
      | _ \<Rightarrow> filter_values key vs)"

fun filter_Middleware :: "query \<Rightarrow> field list" where
  "filter_Middleware [] = []"
| "filter_Middleware ((key, values) # q) = filter_values key values @ filter_Middleware q"

definition ASC :: string where [simp]: "ASC = ''ASC''"
definition DESC :: string where [simp]: "DESC = ''DESC''"

text \<open>
  The sort middleware: the options handed to the next handler, or the 400 answer.
\<close>

definition sort_MiddleWare :: "string \<Rightarrow> string \<Rightarrow> query \<Rightarrow> nat + sort_options" where
  "sort_MiddleWare defaultFields defaultOrder q =
     (let sortBy = query_Get q ''sort_by'';
          sortOrder = query_Get q ''sort_order'';
          sortBy = (if sortBy = [] then defaultFields else sortBy)
      in if sortOrder = [] then Inr \<lparr>so_Fields = sortBy, so_Order = defaultOrder\<rparr>
         else let sortOrder = strings_ToUpper sortOrder
              in if sortOrder \<noteq> ASC \<and> sortOrder \<noteq> DESC then Inl 400
                 else Inr \<lparr>so_Fields = sortBy, so_Order = sortOrder\<rparr>)"

definition GetSQLOperator :: "string \<Rightarrow> go_err + string" where
  "GetSQLOperator op =
     (if op = ''eq'' then Inr ''=''
      else if op = ''lt'' then Inr ''<''
      else if op = ''gt'' then Inr ''>''
      else if op = ''lte'' then Inr ''<=''
      else if op = ''gte'' then Inr ''>=''
      else if op = ''between'' then Inr ''BETWEEN''
      else if op = ''like'' then Inr ''ILIKE''
      else Inl (Msg (''unknown operator: '' @ op)))"

section \<open>Conditions of the list query\<close>

datatype sqlval = SqlText string | SqlTime time

definition parseValue :: "string \<Rightarrow> sqlval" where
  "parseValue value =
     (case time_Parse layout_dashes value of
        Some t \<Rightarrow> SqlTime t
      | None \<Rightarrow>
          (case time_Parse layout_date value of
             Some t \<Rightarrow> SqlTime t
           | None \<Rightarrow>
               (case time_Parse layout_RFC3339 value of
                  Some t \<Rightarrow> SqlTime t
                | None \<Rightarrow> SqlText value)))"

definition allowedColumns :: "string list" where
  "allowedColumns =
     [''title'', ''description'', ''status'', ''priory'', ''due_date'', ''created_at'', ''tag_id'']"

text \<open>One round of the loop: the condition and the arguments a field adds, if any.\<close>

definition field_condition :: "field \<Rightarrow> (string \<times> sqlval list) option" where
  "field_condition f =
     (if fld_Name f \<notin> set allowedColumns then None
      else case GetSQLOperator (fld_Operator f) of
        Inl e \<Rightarrow> None
      | Inr sqlOp \<Rightarrow>
          (let col = ''t.'' @ fld_Name f
           in if sqlOp = ''ILIKE'' then
                Some (col @ '' ILIKE $%d'', [SqlText (''%'' @ fld_Value f @ ''%'')])
              else if sqlOp = ''BETWEEN'' then
                (case strings_Split CHR '':'' (fld_Value f) of
                   [a, b] \<Rightarrow> Some (col @ '' BETWEEN $%d AND $%d'', [parseValue a, parseValue b])
                 | _ \<Rightarrow> None)
              else Some (col @ '' '' @ sqlOp @ '' $%d'', [parseValue (fld_Value f)])))"

fun build_conditions :: "field list \<Rightarrow> string list \<times> sqlval list" where
  "build_conditions [] = ([], [])"
| "build_conditions (f # fs) =
     (case build_conditions fs of
        (cs, as) \<Rightarrow>
          (case field_condition f of
             None \<Rightarrow> (cs, as)
           | Some (c, a) \<Rightarrow> (c # cs, a @ as)))"

definition buildFilterConditions :: "filter_option \<Rightarrow> string list \<times> sqlval list" where
  "buildFilterConditions opt = build_conditions (fo_Fields opt)"

definition buildOrderBy :: "sort_options \<Rightarrow> string" where
  "buildOrderBy opt =
     (if so_Fields opt = [] then [] else so_Fields opt @ '' '' @ so_Order opt)"

text \<open>
  The loop of \<open>FindByUser\<close> that hands the conditions to the query builder: each takes as
  many arguments off the front as it has question marks. \<open>args[:argCount]\<close> panics when
  there are not enough.
\<close>

fun resolve_conditions :: "string list \<Rightarrow> sqlval list \<Rightarrow> ((string \<times> sqlval list) list) outcome" where
  "resolve_conditions [] args = Ret []"
| "resolve_conditions (cond # cs) args =
     (let resolved = replace_placeholders cond;
          argCount = count_list resolved CHR ''?''
      in if argCount > length args then Panic
         else case resolve_conditions cs (drop argCount args) of
                Panic \<Rightarrow> Panic
              | Ret rest \<Rightarrow> Ret ((resolved, take argCount args) # rest))"

lemma replace_placeholders_step:
  "a \<noteq> CHR ''$'' \<Longrightarrow> replace_placeholders (a # s) = a # replace_placeholders s"
  by (cases s; cases "tl s") auto

lemma replace_placeholders_hit:
  "replace_placeholders (CHR ''$'' # CHR ''%'' # CHR ''d'' # s) = CHR ''?'' # replace_placeholders s"
  by simp

lemma replace_placeholders_append:
  "CHR ''$'' \<notin> set w \<Longrightarrow> replace_placeholders (w @ s) = w @ replace_placeholders s"
  by (induction w) (auto simp: replace_placeholders_step)

lemma allowed_column_plain:
  assumes "n \<in> set allowedColumns"
  shows "CHR ''$'' \<notin> set (''t.'' @ n) \<and> count_list (''t.'' @ n) CHR ''?'' = 0"
  using assms by (auto simp: allowedColumns_def)

lemma sql_operator_plain:
  assumes "GetSQLOperator op = Inr sqlOp"
  shows "CHR ''$'' \<notin> set sqlOp \<and> count_list sqlOp CHR ''?'' = 0"
  using assms by (auto simp: GetSQLOperator_def split: if_splits)

lemma resolved_condition_count:
  assumes plain: "CHR ''$'' \<notin> set col" "count_list col CHR ''?'' = 0"
  shows "count_list (replace_placeholders (col @ '' ILIKE $%d'')) CHR ''?'' = 1"
    and "count_list (replace_placeholders (col @ '' BETWEEN $%d AND $%d'')) CHR ''?'' = 2"
    and "CHR ''$'' \<notin> set op \<Longrightarrow> count_list op CHR ''?'' = 0 \<Longrightarrow>
           count_list (replace_placeholders (col @ '' '' @ op @ '' $%d'')) CHR ''?'' = 1"
proof -
  show "count_list (replace_placeholders (col @ '' ILIKE $%d'')) CHR ''?'' = 1"
    and "count_list (replace_placeholders (col @ '' BETWEEN $%d AND $%d'')) CHR ''?'' = 2"
    using plain by (simp_all add: replace_placeholders_append replace_placeholders_step)
next
  assume op: "CHR ''$'' \<notin> set op" "count_list op CHR ''?'' = 0"
  have "replace_placeholders (col @ '' '' @ op @ '' $%d'')
        = col @ '' '' @ op @ replace_placeholders '' $%d''"
    using plain op by (simp add: replace_placeholders_append replace_placeholders_step)
  then show "count_list (replace_placeholders (col @ '' '' @ op @ '' $%d'')) CHR ''?'' = 1"
    using plain op by simp
qed

lemma field_condition_arity:
  assumes "field_condition f = Some (c, a)"
  shows "count_list (replace_placeholders c) CHR ''?'' = length a"
proof -
  from assms have col: "fld_Name f \<in> set allowedColumns"
    by (auto simp: field_condition_def split: if_splits)
  from assms col obtain sqlOp where op: "GetSQLOperator (fld_Operator f) = Inr sqlOp"
    by (auto simp: field_condition_def split: sum.splits)
  note plain = allowed_column_plain [OF col] sql_operator_plain [OF op]
  note counts = resolved_condition_count [where col = "''t.'' @ fld_Name f"]
  show ?thesis
    using assms col op plain counts
    by (auto simp: field_condition_def Let_def split: if_splits list.splits simp del: append_Cons)
qed

section \<open>Cache keys\<close>

definition field_part :: "field \<Rightarrow> string" where
  "field_part f = fld_Name f @ '':'' @ fld_Operator f @ '':'' @ fld_Value f"

text \<open>
  \<open>sort.Slice\<close> by name is an insertion sort for up to twelve fields, so fields of the
  same name keep their order, as with \<open>sort_key\<close>. Names are compared bytewise.
\<close>

definition key_parts :: "string \<Rightarrow> filter_option \<Rightarrow> sort_options \<Rightarrow> string list" where
  "key_parts base f s =
     [base]
     @ (if length (fo_Fields f) > 0 then map field_part (sort_key fld_Name (fo_Fields f)) else [])
     @ (if so_Fields s \<noteq> [] \<and> so_Order s \<noteq> []
        then [''sort:'' @ so_Fields s @ '':'' @ strings_ToUpper (so_Order s)] else [])
     @ (if fo_Limit f > 0 then [''limit:'' @ show_nat (nat (fo_Limit f))] else [])"

definition BuildCacheKey :: "string \<Rightarrow> filter_option \<Rightarrow> sort_options \<Rightarrow> string" where
  "BuildCacheKey userId f s = strings_Join '';'' (key_parts (''tasks:user:'' @ userId) f s)"

definition BuildCacheKeyWithTag :: "string \<Rightarrow> string \<Rightarrow> filter_option \<Rightarrow> sort_options \<Rightarrow> string" where
  "BuildCacheKeyWithTag userId tagId f s =
     strings_Join '';'' (key_parts (''tasks:user:'' @ userId @ '':tag:'' @ tagId) f s)"

text \<open>
  \<open>userListKey\<close> of \<open>tasks/repository/redis/redis.go\<close>: the set that tracks the list keys
  of the user a cache key belongs to.
\<close>

definition userListKey :: "string \<Rightarrow> string" where
  "userListKey cacheKey =
     (let base = hd (strings_SplitN2 CHR '';'' cacheKey);
          parts = strings_Split CHR '':'' base
      in if length parts \<ge> 3 \<and> parts ! 0 = ''tasks'' \<and> parts ! 1 = ''user''
         then ''user_list_keys:'' @ (parts ! 2) else [])"

lemma strings_Join_base:
  "strings_Join '';'' (base # ws) = base \<or>
   (\<exists>rest. strings_Join '';'' (base # ws) = base @ CHR '';'' # rest)"
  by (cases ws) auto

lemma key_parts_Cons: "\<exists>ws. key_parts base f s = base # ws"
  by (simp add: key_parts_def)

lemma key_base:
  assumes "CHR '';'' \<notin> set base"
  shows "hd (strings_SplitN2 CHR '';'' (strings_Join '';'' (key_parts base f s))) = base"
proof -
  obtain ws where "key_parts base f s = base # ws" using key_parts_Cons by blast
  then show ?thesis
    using strings_Join_base [of base ws] strings_SplitN2_head [OF assms] by auto
qed

lemma split_user_base:
  assumes "CHR '':'' \<notin> set u"
  shows "strings_Split CHR '':'' (''tasks:user:'' @ u) = [''tasks'', ''user'', u]"
    and "strings_Split CHR '':'' (''tasks:user:'' @ u @ '':tag:'' @ t)
         = [''tasks'', ''user'', u, ''tag''] @ strings_Split CHR '':'' t"
  using assms strings_Split_append [of "CHR '':''" u "''tag:'' @ t"]
  by (simp_all add: strings_Split_no_sep)

lemma userListKey_BuildCacheKey:
  assumes "CHR '':'' \<notin> set u" and "CHR '';'' \<notin> set u"
  shows "userListKey (BuildCacheKey u f s) = ''user_list_keys:'' @ u"
proof -
  have "hd (strings_SplitN2 CHR '';'' (BuildCacheKey u f s)) = ''tasks:user:'' @ u"
    unfolding BuildCacheKey_def by (rule key_base) (use assms in auto)
  then show ?thesis
    using split_user_base(1) [OF assms(1)] by (simp add: userListKey_def)
qed

lemma strings_SplitN2_first_part:
  assumes "CHR '';'' \<notin> set u"
  shows "\<exists>t'. hd (strings_SplitN2 CHR '';'' (u @ t)) = u @ t'"
proof -
  have "takeWhile (\<lambda>x. x \<noteq> CHR '';'') (u @ t) = u @ takeWhile (\<lambda>x. x \<noteq> CHR '';'') t"
    using assms by (induction u) auto
  then show ?thesis by (auto simp: strings_SplitN2_def)
qed

lemma takeWhile_append_self: "\<exists>t'. takeWhile P (u @ t) = u @ t' \<or> takeWhile P (u @ t) = takeWhile P u"
  by (induction u) auto

text \<open>
  For a list by tag the same holds whatever the tag text is: the user part comes before
  the first colon or semicolon the tag could add.
\<close>

lemma userListKey_BuildCacheKeyWithTag:
  assumes "CHR '':'' \<notin> set u" and "CHR '';'' \<notin> set u"
  shows "userListKey (BuildCacheKeyWithTag u t f s) = ''user_list_keys:'' @ u"
proof -
  let ?pre = "''tasks:user:'' @ u @ '':tag:''"
  obtain ws where ws: "key_parts (''tasks:user:'' @ u @ '':tag:'' @ t) f s
      = (''tasks:user:'' @ u @ '':tag:'' @ t) # ws"
    using key_parts_Cons by blast
  have "\<exists>r. BuildCacheKeyWithTag u t f s = ?pre @ r"
    using strings_Join_base [of "''tasks:user:'' @ u @ '':tag:'' @ t" ws] ws
    by (auto simp: BuildCacheKeyWithTag_def)
  then obtain r where r: "BuildCacheKeyWithTag u t f s = ?pre @ r" by blast
  have "CHR '';'' \<notin> set ?pre" using assms by auto
  then obtain t' where "hd (strings_SplitN2 CHR '';'' (?pre @ r)) = ?pre @ t'"
    using strings_SplitN2_first_part by blast
  with r split_user_base(2) [OF assms(1), of t'] show ?thesis
    by (simp add: userListKey_def nth_append)
qed

lemma sort_key_perm:
  assumes "mset fs = mset gs" and "distinct (map fld_Name fs)"
  shows "sort_key fld_Name fs = sort_key fld_Name gs"
  by (rule sort_key_inj_key_eq) (use assms in \<open>auto simp: distinct_map\<close>)

section \<open>Properties of the list options\<close>

text \<open>
  What the list query may be made of: the columns, and for each operator the text after the column.
  The values of the client are arguments, never part of a text.
\<close>

definition usable_filter :: "field \<Rightarrow> bool" where
  "usable_filter f \<longleftrightarrow>
     fld_Name f \<in> {''title'', ''description'', ''status'', ''priory'', ''due_date'', ''created_at'', ''tag_id''}
     \<and> fld_Operator f \<in> {''eq'', ''lt'', ''gt'', ''lte'', ''gte'', ''like'', ''between''}
     \<and> (fld_Operator f = ''between'' \<longrightarrow> length (strings_Split CHR '':'' (fld_Value f)) = 2)"

definition filter_text :: "string \<Rightarrow> string" where
  "filter_text op = the (map_of
     [(''eq'', '' = ?''), (''lt'', '' < ?''), (''gt'', '' > ?''), (''lte'', '' <= ?''), (''gte'', '' >= ?''),
      (''like'', '' ILIKE ?''), (''between'', '' BETWEEN ? AND ?'')] op)"

definition filter_arguments :: "field \<Rightarrow> sqlval list" where
  "filter_arguments f =
     (if fld_Operator f = ''like'' then [SqlText (''%'' @ fld_Value f @ ''%'')]
      else if fld_Operator f = ''between'' then map parseValue (strings_Split CHR '':'' (fld_Value f))
      else [parseValue (fld_Value f)])"

lemma field_condition_usable:
  "case field_condition f of
     None \<Rightarrow> \<not> usable_filter f
   | Some (c, a) \<Rightarrow> usable_filter f \<and> a = filter_arguments f
       \<and> replace_placeholders c = ''t.'' @ fld_Name f @ filter_text (fld_Operator f)"
proof (cases "field_condition f")
  case None
  then show ?thesis
    by (auto simp: field_condition_def usable_filter_def allowedColumns_def GetSQLOperator_def Let_def
        numeral_2_eq_2 length_Suc_conv split: if_splits list.splits)
next
  case (Some ca)
  then have n: "fld_Name f \<in> set allowedColumns" by (auto simp: field_condition_def split: if_splits)
  have plain: "replace_placeholders (''t.'' @ fld_Name f @ s) = ''t.'' @ fld_Name f @ replace_placeholders s" for s
    using allowed_column_plain [OF n] replace_placeholders_append [of "''t.'' @ fld_Name f" s] by simp
  from Some n show ?thesis
    by (auto simp: field_condition_def usable_filter_def filter_arguments_def filter_text_def plain GetSQLOperator_def
        Let_def allowedColumns_def replace_placeholders_step split: if_splits list.splits)
qed

lemma build_conditions_texts:
  "case build_conditions fs of (conds, args) \<Rightarrow> resolve_conditions conds args
     = Ret (map (\<lambda>f. (''t.'' @ fld_Name f @ filter_text (fld_Operator f), filter_arguments f))
         (filter usable_filter fs))"
proof (induction fs)
  case (Cons f fs)
  obtain cs as where b: "build_conditions fs = (cs, as)" by force
  show ?case
  proof (cases "field_condition f")
    case None
    with field_condition_usable [of f] have "\<not> usable_filter f" by simp
    with Cons b None show ?thesis by simp
  next
    case (Some ca)
    obtain c a where ca: "ca = (c, a)" by force
    with field_condition_usable [of f] Some have f: "usable_filter f" "a = filter_arguments f"
      "replace_placeholders c = ''t.'' @ fld_Name f @ filter_text (fld_Operator f)" by simp_all
    have "count_list (''t.'' @ fld_Name f @ filter_text (fld_Operator f)) CHR ''?'' = length a"
      using field_condition_arity [of f c a] Some ca f(3) by simp
    with Cons b Some ca f show ?thesis by (simp del: append_Cons)
  qed
qed simp

text \<open>C40: the conditions of the list query come from the filters on the seven listed columns with
  one of the seven listed operators, in their order and nothing else: any other query key or operator
  adds nothing. Each condition reaches the query builder as the name of its column and the
  fixed text of its operator, with exactly as many arguments as question marks; whatever the client
  sends as a value is in the arguments, and the slice expression never panics.\<close>

theorem filter_columns_whitelisted:
  "case buildFilterConditions opt of (conds, args) \<Rightarrow>
     resolve_conditions conds args
       = Ret (map (\<lambda>f. (''t.'' @ fld_Name f @ filter_text (fld_Operator f), filter_arguments f))
           (filter usable_filter (fo_Fields opt)))
     \<and> list_all (\<lambda>f. count_list (''t.'' @ fld_Name f @ filter_text (fld_Operator f)) CHR ''?'' = length (filter_arguments f))
          (filter usable_filter (fo_Fields opt))"
proof -
  have "count_list (''t.'' @ fld_Name f @ filter_text (fld_Operator f)) CHR ''?'' = length (filter_arguments f)"
    if u: "usable_filter f" for f
  proof (cases "field_condition f")
    case None
    with field_condition_usable [of f] u show ?thesis by simp
  next
    case (Some ca)
    obtain c a where "ca = (c, a)" by force
    with field_condition_usable [of f] field_condition_arity [of f c a] Some show ?thesis by simp
  qed
  then show ?thesis
    using build_conditions_texts [of "fo_Fields opt"] by (auto simp: buildFilterConditions_def list_all_iff)
qed

end
