(* ===== verification/Domain.thy ===== *)
theory Domain
  imports Prelude
begin

text \<open>
  The task aggregate (\<open>app/internal/tasks/domain\<close>), the request and patch types built
  from it (\<open>tasks/dto\<close>, \<open>tasks/port\<close>), the mapping of a create or update request to
  them (\<open>tasks/handlers\<close>) and \<open>validate.Validate\<close>. \<open>Status\<close> and \<open>Priory\<close> are Go
  string types: any text can inhabit them, and \<open>IsValid\<close> picks the meant ones. A nil
  slice and an empty one are the same list; a nil pointer is \<open>None\<close>.
\<close>

section \<open>Status and priority\<close>

type_synonym status = string
type_synonym priory = string

definition StatusNotCompleted :: status where [simp]: "StatusNotCompleted = ''not_completed''"
definition StatusInProgress :: status where [simp]: "StatusInProgress = ''in_progress''"
definition StatusCompleted :: status where [simp]: "StatusCompleted = ''completed''"

definition PrioryBlue :: priory where [simp]: "PrioryBlue = ''blue''"
definition PrioryRed :: priory where [simp]: "PrioryRed = ''red''"
definition PrioryGreen :: priory where [simp]: "PrioryGreen = ''green''"

definition NewPriory :: "string \<Rightarrow> priory" where
  "NewPriory s =
     (if s = ''blue'' then PrioryBlue
      else if s = ''red'' then PrioryRed
      else if s = ''green'' then PrioryGreen
      else PrioryGreen)"

definition priory_IsValid :: "priory \<Rightarrow> bool" where
  "priory_IsValid p \<longleftrightarrow> p = PrioryBlue \<or> p = PrioryGreen \<or> p = PrioryRed"

definition NewStatus :: "string \<Rightarrow> status" where
  "NewStatus s =
     (if s = ''not_completed'' \<or> s = ''1'' then StatusNotCompleted
      else if s = ''in_progress'' \<or> s = ''2'' then StatusInProgress
      else if s = ''completed'' \<or> s = ''3'' then StatusCompleted
      else StatusInProgress)"

definition StorageCode :: "status \<Rightarrow> string" where
  "StorageCode s =
     (if s = StatusNotCompleted then ''1''
      else if s = StatusInProgress then ''2''
      else if s = StatusCompleted then ''3''
      else ''2'')"

definition status_IsValid :: "status \<Rightarrow> bool" where
  "status_IsValid s \<longleftrightarrow> s = StatusNotCompleted \<or> s = StatusInProgress \<or> s = StatusCompleted"

lemma NewStatus_valid [simp, intro]: "status_IsValid (NewStatus s)"
  by (simp add: NewStatus_def status_IsValid_def)

lemma NewPriory_valid [simp, intro]: "priory_IsValid (NewPriory s)"
  by (simp add: NewPriory_def priory_IsValid_def)

lemma StorageCode_cases: "StorageCode s \<in> {''1'', ''2'', ''3''}"
  by (simp add: StorageCode_def)

lemma NewStatus_StorageCode: "status_IsValid s \<Longrightarrow> NewStatus (StorageCode s) = s"
  by (auto simp: NewStatus_def StorageCode_def status_IsValid_def)

lemma NewStatus_id: "status_IsValid s \<Longrightarrow> NewStatus s = s"
  by (auto simp: NewStatus_def status_IsValid_def)

lemma StorageCode_NewStatus_code:
  "c \<in> {''1'', ''2'', ''3''} \<Longrightarrow> StorageCode (NewStatus c) = c"
  by (auto simp: NewStatus_def StorageCode_def)

section \<open>The aggregate\<close>

record subtask =
  sub_ID :: string
  sub_TaskID :: string
  sub_Title :: string
  sub_IsDone :: bool
  sub_Order :: int

record task =
  t_ID :: string
  t_Title :: string
  t_Description :: string
  t_Priority :: priory
  t_Status :: status
  t_DueDate :: time
  t_UserID :: string
  t_TagID :: "string option"
  t_TagName :: string
  t_CreatedAt :: time
  t_Subtasks :: "subtask list"
  t_Reminder60mSentAt :: "time option"
  t_Reminder15mSentAt :: "time option"
  t_Reminder5mSentAt :: "time option"

text \<open>Go's zero values \<open>domain.Task{}\<close> and \<open>domain.Subtask{}\<close>.\<close>

definition zero_task :: task where
  "zero_task =
     \<lparr>t_ID = [], t_Title = [], t_Description = [], t_Priority = [], t_Status = [],
      t_DueDate = zero_time, t_UserID = [], t_TagID = None, t_TagName = [],
      t_CreatedAt = zero_time, t_Subtasks = [], t_Reminder60mSentAt = None,
      t_Reminder15mSentAt = None, t_Reminder5mSentAt = None\<rparr>"

definition zero_subtask :: subtask where
  "zero_subtask =
     \<lparr>sub_ID = [], sub_TaskID = [], sub_Title = [], sub_IsDone = False, sub_Order = 0\<rparr>"

definition CanTransitionTo :: "task \<Rightarrow> status \<Rightarrow> bool" where
  "CanTransitionTo t newStatus = status_IsValid newStatus"

definition HasTag :: "task \<Rightarrow> bool" where
  "HasTag t \<longleftrightarrow>
     (case t_TagID t of None \<Rightarrow> False | Some i \<Rightarrow> i \<noteq> []) \<or> t_TagName t \<noteq> []"

definition HasSubtasks :: "task \<Rightarrow> bool" where
  "HasSubtasks t \<longleftrightarrow> length (t_Subtasks t) > 0"

fun all_done_loop :: "subtask list \<Rightarrow> bool" where
  "all_done_loop [] = True"
| "all_done_loop (s # ss) = (if \<not> sub_IsDone s then False else all_done_loop ss)"

definition AllSubtasksDone :: "task \<Rightarrow> bool" where
  "AllSubtasksDone t =
     (if length (t_Subtasks t) = 0 then False else all_done_loop (t_Subtasks t))"

lemma all_done_loop_iff: "all_done_loop ss \<longleftrightarrow> (\<forall>s \<in> set ss. sub_IsDone s)"
  by (induction ss) auto

section \<open>Validate\<close>

text \<open>The \<open>switch\<close> takes the first case that applies, and no other.\<close>

definition Validate :: "time \<Rightarrow> task \<Rightarrow> task" where
  "Validate nw t =
     (if t_Status t = [] then t\<lparr>t_Status := StatusInProgress\<rparr>
      else if t_Priority t = [] then t\<lparr>t_Priority := ''green''\<rparr>
      else if t_DueDate t = zero_time then t\<lparr>t_DueDate := nw + minutes (60 * 24)\<rparr>
      else t)"

section \<open>Requests and patches\<close>

record create_req =
  cr_Title :: string
  cr_Description :: string
  cr_Priority :: string
  cr_Status :: string
  cr_DueDate :: time
  cr_TagID :: "string option"
  cr_TagName :: string
  cr_Subtasks :: "string list" \<comment> \<open>\<open>SubtaskInput\<close> has the single field \<open>Title\<close>\<close>

record update_req =
  ur_Title :: "string option"
  ur_Description :: "string option"
  ur_Status :: "string option"
  ur_Priority :: "string option"
  ur_DueDate :: "time option"
  ur_TagName :: "string option"

record update_patch =
  p_Title :: "string option"
  p_Description :: "string option"
  p_Status :: "status option"
  p_Priority :: "string option"
  p_DueDate :: "time option"
  p_TagName :: "string option"

definition empty_patch :: update_patch where
  "empty_patch = \<lparr>p_Title = None, p_Description = None, p_Status = None,
                  p_Priority = None, p_DueDate = None, p_TagName = None\<rparr>"

text \<open>The loop \<open>for i, s := range req.Subtasks\<close> of \<open>dtoToEntity\<close>, from index \<open>i\<close> on.\<close>

fun entity_subtasks :: "nat \<Rightarrow> string list \<Rightarrow> subtask list" where
  "entity_subtasks i [] = []"
| "entity_subtasks i (s # ss) =
     zero_subtask\<lparr>sub_Title := s, sub_Order := int i\<rparr> # entity_subtasks (Suc i) ss"

text \<open>\<open>newID\<close> is the identifier \<open>uuid.New()\<close> returned.\<close>

definition dtoToEntity :: "string \<Rightarrow> string \<Rightarrow> create_req \<Rightarrow> task" where
  "dtoToEntity newID userID req =
     (let task = zero_task
            \<lparr>t_ID := newID,
             t_Title := cr_Title req,
             t_Description := cr_Description req,
             t_Priority := NewPriory (cr_Priority req),
             t_Status := NewStatus (cr_Status req),
             t_DueDate := cr_DueDate req,
             t_UserID := userID,
             t_TagName := cr_TagName req\<rparr>;
          task = (case cr_TagID req of
                    None \<Rightarrow> task
                  | Some i \<Rightarrow> if i \<noteq> [] then task\<lparr>t_TagID := cr_TagID req\<rparr> else task)
      in task\<lparr>t_Subtasks := entity_subtasks 0 (cr_Subtasks req)\<rparr>)"

definition updateRequestToPatch :: "update_req \<Rightarrow> update_patch" where
  "updateRequestToPatch req =
     (let patch = empty_patch
            \<lparr>p_Title := ur_Title req,
             p_Description := ur_Description req,
             p_Priority := ur_Priority req,
             p_TagName := ur_TagName req\<rparr>;
          patch = (case ur_Status req of
                     None \<Rightarrow> patch
                   | Some s \<Rightarrow> patch\<lparr>p_Status := Some (NewStatus s)\<rparr>)
      in (case ur_DueDate req of
            None \<Rightarrow> patch
          | Some t \<Rightarrow> patch\<lparr>p_DueDate := Some t\<rparr>))"

lemma entity_subtasks_map:
  "map sub_Title (entity_subtasks i ss) = ss"
  "map sub_Order (entity_subtasks i ss) = map int [i..<i + length ss]"
proof -
  show "map sub_Title (entity_subtasks i ss) = ss"
    by (induction ss arbitrary: i) auto
  show "map sub_Order (entity_subtasks i ss) = map int [i..<i + length ss]"
  proof (induction ss arbitrary: i)
    case Nil
    then show ?case by simp
  next
    case (Cons s ss)
    have "[i..<i + length (s # ss)] = i # [Suc i..<Suc i + length ss]"
      by (simp add: upt_conv_Cons del: upt_Suc)
    with Cons show ?case by simp
  qed
qed

lemma entity_subtasks_open: "s \<in> set (entity_subtasks i ss) \<Longrightarrow> \<not> sub_IsDone s"
  by (induction ss arbitrary: i) (auto simp: zero_subtask_def)

lemma dtoToEntity_fields:
  "t_ID (dtoToEntity i u r) = i"
  "t_UserID (dtoToEntity i u r) = u"
  "t_Status (dtoToEntity i u r) = NewStatus (cr_Status r)"
  "t_Priority (dtoToEntity i u r) = NewPriory (cr_Priority r)"
  "t_Subtasks (dtoToEntity i u r) = entity_subtasks 0 (cr_Subtasks r)"
  "t_TagName (dtoToEntity i u r) = cr_TagName r"
  "t_TagID (dtoToEntity i u r) = (if cr_TagID r = Some [] then None else cr_TagID r)"
  by (auto simp: dtoToEntity_def Let_def zero_task_def split: option.splits)

lemma updateRequestToPatch_status:
  "p_Status (updateRequestToPatch r) = map_option NewStatus (ur_Status r)"
  by (auto simp: updateRequestToPatch_def Let_def empty_patch_def split: option.splits)

section \<open>Properties of the domain\<close>

text \<open>a status survives being stored as its SMALLINT code and read back, every text a
  client may send is read as one of the three statuses, and only the two texts of a
  status (name and code) are read as \<open>completed\<close>.\<close>

theorem status_storage_roundtrip:
  "(status_IsValid s \<longleftrightarrow> NewStatus (StorageCode s) = s)
   \<and> status_IsValid (NewStatus x)
   \<and> NewStatus (StorageCode (NewStatus x)) = NewStatus x
   \<and> (NewStatus x = StatusCompleted \<longleftrightarrow> x = ''completed'' \<or> x = ''3'')"
proof -
  have "status_IsValid s \<longleftrightarrow> NewStatus (StorageCode s) = s"
    using NewStatus_StorageCode [of s] NewStatus_valid [of "StorageCode s"] by metis
  moreover have "NewStatus x = StatusCompleted \<longleftrightarrow> x = ''completed'' \<or> x = ''3''"
    by (simp add: NewStatus_def)
  ultimately show ?thesis by (simp add: NewStatus_StorageCode)
qed

end
