(* ===== verification/Store.thy ===== *)
theory Store
  imports Prelude
begin

text \<open>
  The PostgreSQL database of the service: one record per table (\<open>app/migrations\<close>), the
  constraints the schema enforces, and how the Go code reaches the server
  (\<open>app/pkg/client/postgres\<close>). SQL statements are text of the repository, so each is
  translated where it occurs to a function on the tables; here is only what they share.

  A round trip to the server can end in three ways. \<open>Fine\<close>: the statement ran and its
  result arrived. \<open>Refused\<close>: the driver returns an error and nothing ran (lost
  connection, timeout, exhausted pool). \<open>ReplyLost\<close>: the statement ran, but the driver
  returns an error because the answer did not arrive. \<open>faults\<close> lists the fate of the
  coming round trips (\<open>Fine\<close> once it is exhausted); theorems that leave it free hold for
  every pattern of failures.
\<close>

section \<open>JSON documents of the outbox\<close>

text \<open>
  An \<open>event_data\<close> document is an object with texts, nulls and timestamps. A timestamp
  keeps how it was written: \<open>JTimeZ t\<close> is the RFC 3339 text of instant \<open>t\<close>, as
  \<open>json.Marshal\<close> writes a \<open>time.Time\<close>; \<open>JTimeLocal t\<close> is ISO 8601 without a zone
  offset, as PostgreSQL's \<open>to_json\<close> writes a \<open>TIMESTAMP\<close> (without time zone) column.
\<close>

datatype jval = JNull | JStr string | JTimeZ time | JTimeLocal time

type_synonym json = "(string \<times> jval) list"

section \<open>Tables\<close>

text \<open>
  UUID columns hold the canonical text. \<open>tr_status\<close> is the SMALLINT code in its text
  form. Nullable columns a statement may leave NULL are options; every INSERT of the code
  sets the others.
\<close>

record task_row =
  tr_task_id :: string
  tr_title :: string
  tr_description :: string
  tr_status :: string
  tr_priory :: string
  tr_due_date :: time
  tr_created_at :: time
  tr_user_id :: string
  tr_tag_id :: "string option"
  tr_reminder_60m_sent_at :: "time option"
  tr_reminder_15m_sent_at :: "time option"
  tr_reminder_5m_sent_at :: "time option"
  tr_admin_deleted :: "bool option"
  tr_admin_deleted_at :: "time option"
  tr_user_ack :: "bool option"

record subtask_row =
  sr_id :: string
  sr_task_id :: string
  sr_title :: string
  sr_is_done :: bool
  sr_order_num :: int

record default_tag_row =
  dt_tag_id :: string
  dt_name :: string

record custom_tag_row =
  ct_tag_id :: string
  ct_name :: string
  ct_user_id :: string

record outbox_row =
  ob_id :: string
  ob_aggregate_type :: string
  ob_aggregate_id :: string
  ob_event_type :: string
  ob_event_data :: json
  ob_created_at :: time
  ob_processed_at :: "time option"
  ob_attempts :: int
  ob_last_error :: "string option"
  ob_version :: int

record subscription_row =
  us_user_id :: string
  us_name :: string
  us_has_subscription :: bool
  us_expires_at :: "time option"
  us_telegram_chat_id :: "int option"
  us_updated_at :: time

record shared_task_row =
  sh_id :: string
  sh_proposer_id :: string
  sh_addressee_id :: string
  sh_title :: string
  sh_description :: string
  sh_priority :: string
  sh_due_date :: "time option"
  sh_status :: string
  sh_created_at :: time
  sh_updated_at :: time
  sh_admin_deleted :: "bool option"
  sh_admin_deleted_at :: "time option"
  sh_user_ack :: "bool option"

record shared_subtask_row =
  ss_id :: string
  ss_shared_task_id :: string
  ss_title :: string
  ss_assignee_id :: string
  ss_is_done :: bool
  ss_order_num :: int

record db =
  tasks :: "task_row list"
  subtasks :: "subtask_row list"
  default_tag :: "default_tag_row list"
  custom_tag :: "custom_tag_row list"
  outbox_events :: "outbox_row list"
  user_subscriptions :: "subscription_row list"
  shared_tasks :: "shared_task_row list"
  shared_subtasks :: "shared_subtask_row list"

datatype net = Fine | Refused | ReplyLost

record pg =
  store :: db
  faults :: "net list"
  ctr :: nat \<comment> \<open>how many identifiers have been handed out\<close>

section \<open>Round trips and transactions\<close>

definition next_net :: "pg \<Rightarrow> net \<times> pg" where
  "next_net s = (case faults s of [] \<Rightarrow> (Fine, s) | f # fs \<Rightarrow> (f, s\<lparr>faults := fs\<rparr>))"

text \<open>\<open>Exec\<close>, \<open>Query\<close> and \<open>QueryRow\<close>: one statement, one round trip.\<close>

definition pg_run :: "(db \<Rightarrow> go_err + 'a \<times> db) \<Rightarrow> pg \<Rightarrow> (go_err + 'a) \<times> pg" where
  "pg_run stmt s =
     (case next_net s of
        (Refused, s) \<Rightarrow> (Inl (DbError ''connection''), s)
      | (Fine, s) \<Rightarrow>
          (case stmt (store s) of
             Inl e \<Rightarrow> (Inl e, s)
           | Inr (x, d) \<Rightarrow> (Inr x, s\<lparr>store := d\<rparr>))
      | (ReplyLost, s) \<Rightarrow>
          (case stmt (store s) of
             Inl e \<Rightarrow> (Inl (DbError ''connection''), s)
           | Inr (x, d) \<Rightarrow> (Inl (DbError ''connection''), s\<lparr>store := d\<rparr>)))"

definition pg_query :: "(db \<Rightarrow> go_err + 'a) \<Rightarrow> pg \<Rightarrow> (go_err + 'a) \<times> pg" where
  "pg_query q = pg_run (\<lambda>d. case q d of Inl e \<Rightarrow> Inl e | Inr x \<Rightarrow> Inr (x, d))"

text \<open>
  \<open>Begin\<close>, the body on the transaction's own view, then \<open>Commit\<close>, whose error
  \<open>commit_err\<close> wraps; the deferred
  \<open>Rollback\<close> undoes everything when the body returns an error. The statements of the
  body run on the tables directly, since a rollback puts the earlier tables back.
\<close>

definition pg_tx :: "string \<Rightarrow> (go_err \<Rightarrow> go_err) \<Rightarrow> (pg \<Rightarrow> (go_err + 'a) \<times> pg) \<Rightarrow> pg \<Rightarrow> (go_err + 'a) \<times> pg" where
  "pg_tx begin_msg commit_err body s =
     (case next_net s of
        (Fine, s1) \<Rightarrow>
          (case body s1 of
             (Inl e, s2) \<Rightarrow> (Inl e, s2\<lparr>store := store s\<rparr>)
           | (Inr x, s2) \<Rightarrow>
               (case next_net s2 of
                  (Fine, s3) \<Rightarrow> (Inr x, s3)
                | (Refused, s3) \<Rightarrow>
                    (Inl (commit_err (DbError ''connection'')), s3\<lparr>store := store s\<rparr>)
                | (ReplyLost, s3) \<Rightarrow> (Inl (commit_err (DbError ''connection'')), s3)))
      | (_, s1) \<Rightarrow> (Inl (Wrap begin_msg (DbError ''connection'')), s1))"

definition take_id :: "env \<Rightarrow> pg \<Rightarrow> string \<times> pg" where
  "take_id E s = (fresh E (ctr s), s\<lparr>ctr := Suc (ctr s)\<rparr>)"

definition wrap_err :: "string \<Rightarrow> (go_err + 'a) \<times> pg \<Rightarrow> (go_err + 'a) \<times> pg" where
  "wrap_err m r = (case r of (Inl e, s) \<Rightarrow> (Inl (Wrap m e), s) | (Inr x, s) \<Rightarrow> (Inr x, s))"

text \<open>A text argument bound to a UUID parameter.\<close>

definition uuid_arg :: "env \<Rightarrow> string \<Rightarrow> go_err + string" where
  "uuid_arg E s =
     (case pg_uuid E s of
        None \<Rightarrow> Inl (DbError ''invalid input syntax for type uuid'')
      | Some c \<Rightarrow> Inr c)"

text \<open>A list of texts bound to a \<open>uuid[]\<close> parameter.\<close>

fun uuid_args :: "env \<Rightarrow> string list \<Rightarrow> go_err + string list" where
  "uuid_args E [] = Inr []"
| "uuid_args E (i # is) =
     ebind (uuid_arg E i) (\<lambda>c. ebind (uuid_args E is) (\<lambda>cs. Inr (c # cs)))"

definition int4_ok :: "int \<Rightarrow> bool" where
  "int4_ok n \<longleftrightarrow> - (2 ^ 31) \<le> n \<and> n < 2 ^ 31"

lemma next_net_simps [simp]:
  "store (snd (next_net s)) = store s" "ctr (snd (next_net s)) = ctr s"
  by (auto simp: next_net_def split: list.splits)

lemma next_netE: "next_net s = (f, s') \<Longrightarrow> store s' = store s \<and> ctr s' = ctr s"
  using next_net_simps [of s] by auto

lemma next_net_healthy:
  "faults s = [] \<Longrightarrow> next_net s = (Fine, s)"
  by (simp add: next_net_def)

text \<open>
  The one fact the proofs use of a round trip: it either leaves the tables alone or
  installs the tables the statement computed, and a reported success is a success.
\<close>

lemma pg_run_cases:
  assumes "pg_run stmt s = (r, s')"
  obtains (kept) e where "r = Inl e" "store s' = store s" "ctr s' = ctr s"
  | (lost) e x d where "r = Inl e" "stmt (store s) = Inr (x, d)" "store s' = d" "ctr s' = ctr s"
  | (ok) x d where "r = Inr x" "stmt (store s) = Inr (x, d)" "store s' = d" "ctr s' = ctr s"
proof -
  obtain f s1 where n: "next_net s = (f, s1)" by force
  then have s1: "store s1 = store s" "ctr s1 = ctr s" by (auto dest: next_netE)
  show thesis
  proof (cases f)
    case Fine
    show ?thesis
    proof (cases "stmt (store s)")
      case (Inl e)
      then show ?thesis using assms n s1 Fine kept by (auto simp: pg_run_def)
    next
      case (Inr p)
      obtain x d where p: "p = (x, d)" by force
      with Inr have "r = Inr x" "store s' = d" "ctr s' = ctr s"
        using assms n s1 Fine by (auto simp: pg_run_def)
      with Inr p show ?thesis by (intro ok) auto
    qed
  next
    case Refused
    then show ?thesis using assms n s1 kept by (auto simp: pg_run_def)
  next
    case ReplyLost
    show ?thesis
    proof (cases "stmt (store s)")
      case (Inl e)
      then show ?thesis using assms n s1 ReplyLost kept by (auto simp: pg_run_def)
    next
      case (Inr p)
      obtain x d where p: "p = (x, d)" by force
      with Inr show ?thesis
        using assms n s1 ReplyLost by (intro lost) (auto simp: pg_run_def)
    qed
  qed
qed

lemma pg_run_noop:
  assumes "\<And>x d. stmt (store s) = Inr (x, d) \<Longrightarrow> Q x \<and> d = store s"
  shows "store (snd (pg_run stmt s)) = store s"
    and "fst (pg_run stmt s) = Inr x \<Longrightarrow> Q x"
proof -
  obtain r s' where run: "pg_run stmt s = (r, s')" by force
  then have "store s' = store s \<and> (\<forall>x. r = Inr x \<longrightarrow> Q x)"
    using assms by (cases rule: pg_run_cases) auto
  with run show "store (snd (pg_run stmt s)) = store s"
    and "fst (pg_run stmt s) = Inr x \<Longrightarrow> Q x" by auto
qed

lemma pg_run_healthy:
  "faults s = [] \<Longrightarrow>
     pg_run stmt s = (case stmt (store s) of
        Inl e \<Rightarrow> (Inl e, s) | Inr (x, d) \<Rightarrow> (Inr x, s\<lparr>store := d\<rparr>))"
  by (simp add: pg_run_def next_net_healthy)

lemma pg_query_store:
  "pg_query q s = (r, s') \<Longrightarrow> store s' = store s \<and> ctr s' = ctr s"
  unfolding pg_query_def
  by (erule pg_run_cases) (auto split: sum.splits)

lemma pg_query_Inr:
  "pg_query q s = (Inr x, s') \<Longrightarrow> q (store s) = Inr x"
  unfolding pg_query_def
  by (erule pg_run_cases) (auto split: sum.splits)

lemma pg_query_healthy:
  "faults s = [] \<Longrightarrow> pg_query q s = (q (store s), s)"
  by (simp add: pg_query_def pg_run_healthy split: sum.splits)

text \<open>A transaction is all or nothing, also when its commit is lost.\<close>

lemma pg_tx_cases:
  assumes "pg_tx bm cm body s = (r, s')"
  obtains (undone) e where "r = Inl e" "store s' = store s"
  | (committed) x s1 s2 where "store s1 = store s" "ctr s1 = ctr s" "body s1 = (Inr x, s2)"
      "store s' = store s2" "r = Inr x \<or> (\<exists>e. r = Inl e)"
proof -
  obtain f s1 where n: "next_net s = (f, s1)" by force
  then have s1: "store s1 = store s" "ctr s1 = ctr s" by (auto dest: next_netE)
  show thesis
  proof (cases "f = Fine")
    case False
    then show ?thesis using assms n s1 undone by (cases f) (auto simp: pg_tx_def)
  next
    case True
    obtain b s2 where b: "body s1 = (b, s2)" by force
    show ?thesis
    proof (cases b)
      case (Inl e)
      then show ?thesis using assms n True b undone by (auto simp: pg_tx_def)
    next
      case (Inr x)
      obtain g s3 where g: "next_net s2 = (g, s3)" by force
      then have s3: "store s3 = store s2" by (auto dest: next_netE)
      show ?thesis
      proof (cases g)
        case Refused
        then show ?thesis using assms n True b Inr g undone by (auto simp: pg_tx_def)
      next
        case Fine
        then have "r = Inr x" "s' = s3" using assms n True b Inr g by (auto simp: pg_tx_def)
        then show ?thesis using committed [OF s1] b Inr s3 by blast
      next
        case ReplyLost
        then have "\<exists>e. r = Inl e" "s' = s3" using assms n True b Inr g by (auto simp: pg_tx_def)
        then show ?thesis using committed [OF s1] b Inr s3 by blast
      qed
    qed
  qed
qed

lemma pg_tx_healthy:
  assumes "faults s = []" and "\<And>r s2. body s = (r, s2) \<Longrightarrow> faults s2 = []"
  shows "pg_tx bm cm body s =
    (case body s of (Inl e, s2) \<Rightarrow> (Inl e, s2\<lparr>store := store s\<rparr>) | (Inr x, s2) \<Rightarrow> (Inr x, s2))"
  using assms by (auto simp: pg_tx_def next_net_healthy split: prod.splits sum.splits)

lemma wrap_err_simps [simp]:
  "wrap_err m (Inl e, s) = (Inl (Wrap m e), s)"
  "wrap_err m (Inr x, s) = (Inr x, s)"
  by (simp_all add: wrap_err_def)

lemma wrap_err_Inr_iff [simp]: "wrap_err m p = (Inr x, s) \<longleftrightarrow> p = (Inr x, s)"
  by (auto simp: wrap_err_def split: prod.splits sum.splits)

lemma wrap_err_snd [simp]: "snd (wrap_err m p) = snd p"
  by (auto simp: wrap_err_def split: prod.splits sum.splits)

lemma uuid_arg_Inr_iff [simp]: "uuid_arg E s = Inr c \<longleftrightarrow> pg_uuid E s = Some c"
  by (auto simp: uuid_arg_def split: option.splits)

lemma uuid_args_Inr: "uuid_args E ids = Inr cs \<longleftrightarrow> map (pg_uuid E) ids = map Some cs"
  by (induction ids arbitrary: cs) (auto simp: Cons_eq_map_conv)

section \<open>Constraints of the schema\<close>

definition default_tag_id :: string where
  "default_tag_id = ''a1b2c3d4-e5f6-4a7b-8c9d-0e1f2a3b4c5d''"

definition status_check :: "string \<Rightarrow> bool" where
  "status_check c \<longleftrightarrow> c = ''1'' \<or> c = ''2'' \<or> c = ''3''"

definition priory_check :: "string \<Rightarrow> bool" where
  "priory_check p \<longleftrightarrow> p = ''red'' \<or> p = ''blue'' \<or> p = ''green''"

definition outbox_key :: "outbox_row \<Rightarrow> string \<times> string \<times> string \<times> int" where
  "outbox_key o' = (ob_aggregate_type o', ob_aggregate_id o', ob_event_type o', ob_version o')"

definition schema_ok :: "db \<Rightarrow> bool" where
  "schema_ok d \<longleftrightarrow>
     distinct (map tr_task_id (tasks d)) \<and>
     (\<forall>r \<in> set (tasks d). status_check (tr_status r) \<and> priory_check (tr_priory r)) \<and>
     distinct (map sr_id (subtasks d)) \<and>
     (\<forall>r \<in> set (subtasks d). sr_task_id r \<in> tr_task_id ` set (tasks d)) \<and>
     distinct (map dt_tag_id (default_tag d)) \<and> distinct (map dt_name (default_tag d)) \<and>
     distinct (map ct_tag_id (custom_tag d)) \<and>
     distinct (map (\<lambda>r. (ct_name r, ct_user_id r)) (custom_tag d)) \<and>
     distinct (map ob_id (outbox_events d)) \<and> distinct (map outbox_key (outbox_events d)) \<and>
     (\<forall>r \<in> set (outbox_events d). 0 \<le> ob_attempts r \<and> ob_attempts r \<le> 100) \<and>
     distinct (map us_user_id (user_subscriptions d)) \<and>
     distinct (map sh_id (shared_tasks d)) \<and>
     distinct (map ss_id (shared_subtasks d)) \<and>
     (\<forall>r \<in> set (shared_subtasks d). ss_shared_task_id r \<in> sh_id ` set (shared_tasks d))"

definition empty_db :: db where
  "empty_db = \<lparr>tasks = [], subtasks = [], default_tag = [], custom_tag = [],
     outbox_events = [], user_subscriptions = [], shared_tasks = [], shared_subtasks = []\<rparr>"

lemma schema_ok_empty [simp]: "schema_ok empty_db"
  by (simp add: schema_ok_def empty_db_def)

lemma schema_okD:
  assumes "schema_ok d"
  shows "distinct (map tr_task_id (tasks d))"
    and "distinct (map sr_id (subtasks d))"
    and "distinct (map ob_id (outbox_events d))"
    and "distinct (map outbox_key (outbox_events d))"
    and "distinct (map ct_tag_id (custom_tag d))"
    and "distinct (map dt_tag_id (default_tag d))"
    and "distinct (map sh_id (shared_tasks d))"
    and "distinct (map ss_id (shared_subtasks d))"
    and "distinct (map us_user_id (user_subscriptions d))"
  using assms by (auto simp: schema_ok_def)

text \<open>
  INSERT of one row: the server rejects it when it breaks a constraint, and adds it
  otherwise.
\<close>

definition ins_task :: "task_row \<Rightarrow> db \<Rightarrow> go_err + db" where
  "ins_task r d =
     (if tr_task_id r \<in> tr_task_id ` set (tasks d) then Inl (DbError ''tasks_pkey'')
      else if \<not> status_check (tr_status r) then Inl (DbError ''valid_status'')
      else if \<not> priory_check (tr_priory r) then Inl (DbError ''tasks_priory_check'')
      else Inr (d\<lparr>tasks := tasks d @ [r]\<rparr>))"

definition ins_outbox :: "outbox_row \<Rightarrow> db \<Rightarrow> go_err + db" where
  "ins_outbox r d =
     (if ob_id r \<in> ob_id ` set (outbox_events d) then Inl (DbError ''outbox_events_pkey'')
      else if outbox_key r \<in> outbox_key ` set (outbox_events d)
        then Inl (DbError ''outbox_events_key'')
      else if \<not> int4_ok (ob_version r) then Inl (DbError ''integer out of range'')
      else Inr (d\<lparr>outbox_events := outbox_events d @ [r]\<rparr>))"

definition ins_subtask :: "subtask_row \<Rightarrow> db \<Rightarrow> go_err + db" where
  "ins_subtask r d =
     (if sr_id r \<in> sr_id ` set (subtasks d) then Inl (DbError ''subtasks_pkey'')
      else if sr_task_id r \<notin> tr_task_id ` set (tasks d) then Inl (DbError ''subtasks_task_id_fkey'')
      else if \<not> int4_ok (sr_order_num r) then Inl (DbError ''integer out of range'')
      else Inr (d\<lparr>subtasks := subtasks d @ [r]\<rparr>))"

definition ins_custom_tag :: "custom_tag_row \<Rightarrow> db \<Rightarrow> go_err + db" where
  "ins_custom_tag r d =
     (if ct_tag_id r \<in> ct_tag_id ` set (custom_tag d) then Inl (DbError ''23505'')
      else if (ct_name r, ct_user_id r) \<in> (\<lambda>q. (ct_name q, ct_user_id q)) ` set (custom_tag d)
        then Inl (DbError ''23505'')
      else Inr (d\<lparr>custom_tag := custom_tag d @ [r]\<rparr>))"

text \<open>A row of the outbox as the INSERTs write it: the columns they leave out get defaults.\<close>

definition new_event :: "string \<Rightarrow> string \<Rightarrow> string \<Rightarrow> json \<Rightarrow> time \<Rightarrow> int \<Rightarrow> outbox_row" where
  "new_event i agg etype data t v =
     \<lparr>ob_id = i, ob_aggregate_type = ''task'', ob_aggregate_id = agg, ob_event_type = etype,
      ob_event_data = data, ob_created_at = t, ob_processed_at = None, ob_attempts = 0,
      ob_last_error = None, ob_version = v\<rparr>"

lemma new_event_key [simp]: "outbox_key (new_event i a e j t v) = (''task'', a, e, v)"
  by (simp add: outbox_key_def new_event_def)

lemma new_event_simps [simp]:
  "ob_attempts (new_event i a e j t v) = 0" "ob_event_type (new_event i a e j t v) = e"
  "ob_version (new_event i a e j t v) = v" "ob_aggregate_id (new_event i a e j t v) = a"
  "ob_aggregate_type (new_event i a e j t v) = ''task''" "ob_id (new_event i a e j t v) = i"
  "ob_event_data (new_event i a e j t v) = j" "ob_processed_at (new_event i a e j t v) = None"
  by (simp_all add: new_event_def)

lemma ins_task_ok:
  "ins_task r d = Inr d' \<Longrightarrow> schema_ok d \<Longrightarrow> schema_ok d'"
  by (auto simp: ins_task_def schema_ok_def split: if_splits)

lemma ins_outbox_ok:
  "ins_outbox r d = Inr d' \<Longrightarrow> ob_attempts r = 0 \<Longrightarrow> schema_ok d \<Longrightarrow> schema_ok d'"
  by (auto simp: ins_outbox_def schema_ok_def split: if_splits)

lemma ins_subtask_ok:
  "ins_subtask r d = Inr d' \<Longrightarrow> schema_ok d \<Longrightarrow> schema_ok d'"
  by (auto simp: ins_subtask_def schema_ok_def split: if_splits)

lemma ins_custom_tag_ok:
  "ins_custom_tag r d = Inr d' \<Longrightarrow> schema_ok d \<Longrightarrow> schema_ok d'"
  by (auto simp: ins_custom_tag_def schema_ok_def split: if_splits)

lemmas ins_defs = ins_task_def ins_outbox_def ins_subtask_def ins_custom_tag_def

text \<open>
  Shape of the tables after an INSERT succeeded: what was there, and the new row.
\<close>

lemma ins_task_Inr: "ins_task r d = Inr d' \<Longrightarrow> d' = d\<lparr>tasks := tasks d @ [r]\<rparr>"
  by (auto simp: ins_task_def split: if_splits)

lemma ins_outbox_Inr: "ins_outbox r d = Inr d' \<Longrightarrow> d' = d\<lparr>outbox_events := outbox_events d @ [r]\<rparr>"
  by (auto simp: ins_outbox_def split: if_splits)

lemma ins_subtask_Inr: "ins_subtask r d = Inr d' \<Longrightarrow> d' = d\<lparr>subtasks := subtasks d @ [r]\<rparr>"
  by (auto simp: ins_subtask_def split: if_splits)

lemma ins_custom_tag_Inr:
  "ins_custom_tag r d = Inr d' \<Longrightarrow> d' = d\<lparr>custom_tag := custom_tag d @ [r]\<rparr>"
  by (auto simp: ins_custom_tag_def split: if_splits)

lemmas ins_Inr = ins_task_Inr ins_outbox_Inr ins_subtask_Inr ins_custom_tag_Inr

text \<open>Rows of a multi-row INSERT go in one by one; the first violation undoes them all.\<close>

fun ins_all :: "('r \<Rightarrow> db \<Rightarrow> go_err + db) \<Rightarrow> 'r list \<Rightarrow> db \<Rightarrow> go_err + db" where
  "ins_all ins [] d = Inr d"
| "ins_all ins (r # rs) d = ebind (ins r d) (ins_all ins rs)"

lemma ins_all_shape:
  assumes "\<And>r d d'. ins r d = Inr d' \<Longrightarrow> d' = add [r] d"
    and "\<And>d. add [] d = d" "\<And>a b d. add b (add a d) = add (a @ b) d"
    and "ins_all ins rs d = Inr d'"
  shows "d' = add rs d"
  using assms(4)
proof (induction rs arbitrary: d)
  case (Cons r rs)
  then obtain d1 where d1: "ins r d = Inr d1" "ins_all ins rs d1 = Inr d'" by auto
  have "d' = add rs (add [r] d)" using Cons.IH [OF d1(2)] assms(1) [OF d1(1)] by simp
  then show ?case by (simp add: assms(3))
qed (simp add: assms(2))

lemma ins_all_task: "ins_all ins_task rs d = Inr d' \<Longrightarrow> d' = d\<lparr>tasks := tasks d @ rs\<rparr>"
  by (erule ins_all_shape [where add = "\<lambda>rs d. d\<lparr>tasks := tasks d @ rs\<rparr>", rotated -1])
    (auto dest: ins_task_Inr)

lemma ins_all_outbox:
  "ins_all ins_outbox es d = Inr d' \<Longrightarrow> d' = d\<lparr>outbox_events := outbox_events d @ es\<rparr>"
  by (erule ins_all_shape [where add = "\<lambda>rs d. d\<lparr>outbox_events := outbox_events d @ rs\<rparr>", rotated -1])
    (auto dest: ins_outbox_Inr)

lemma ins_all_subtask:
  "ins_all ins_subtask rs d = Inr d' \<Longrightarrow> d' = d\<lparr>subtasks := subtasks d @ rs\<rparr>"
  by (erule ins_all_shape [where add = "\<lambda>rs d. d\<lparr>subtasks := subtasks d @ rs\<rparr>", rotated -1])
    (auto dest: ins_subtask_Inr)

text \<open>
  DELETE of tasks: the subtasks of a deleted task go with it (ON DELETE CASCADE).
\<close>

definition delete_tasks :: "(task_row \<Rightarrow> bool) \<Rightarrow> db \<Rightarrow> db" where
  "delete_tasks P d =
     (let gone = filter P (tasks d)
      in d\<lparr>tasks := filter (\<lambda>r. \<not> P r) (tasks d),
           subtasks := filter (\<lambda>r. sr_task_id r \<notin> tr_task_id ` set gone) (subtasks d)\<rparr>)"

lemma delete_tasks_ok: "schema_ok d \<Longrightarrow> schema_ok (delete_tasks P d)"
  by (auto simp: schema_ok_def delete_tasks_def Let_def distinct_map_filter image_iff) blast

lemma update_tasks_ok:
  assumes "schema_ok d" and "\<And>r. tr_task_id (f r) = tr_task_id r"
    and "\<And>r. r \<in> set (tasks d) \<Longrightarrow> P r \<Longrightarrow> status_check (tr_status (f r)) \<and> priory_check (tr_priory (f r))"
  shows "schema_ok (d\<lparr>tasks := update_where P f (tasks d)\<rparr>)"
proof -
  have ids: "map tr_task_id (update_where P f (tasks d)) = map tr_task_id (tasks d)"
    by (rule map_update_where) (rule assms(2))
  then have set_ids: "tr_task_id ` set (update_where P f (tasks d)) = tr_task_id ` set (tasks d)"
    by (metis list.set_map)
  have "\<forall>r \<in> set (update_where P f (tasks d)). status_check (tr_status r) \<and> priory_check (tr_priory r)"
    by (rule update_where_preserves) (use assms in \<open>auto simp: schema_ok_def\<close>)
  with assms(1) ids set_ids show ?thesis by (simp add: schema_ok_def)
qed

section \<open>Relations every operation respects\<close>

text \<open>
  A reflexive and transitive relation between the tables before and after: what each
  statement respects, every operation built from statements, transactions and case
  distinctions on their results respects as well, whichever round trips fail. An
  invariant \<open>I\<close> gives the relation "if \<open>I\<close> held before, it holds after".
\<close>

locale store_rel =
  fixes R :: "db \<Rightarrow> db \<Rightarrow> bool"
  assumes R_refl: "R d d"
    and R_trans: "R a b \<Longrightarrow> R b c \<Longrightarrow> R a c"
begin

definition keeps :: "(pg \<Rightarrow> 'r \<times> pg) \<Rightarrow> bool" where
  "keeps f \<longleftrightarrow> (\<forall>s. R (store s) (store (snd (f s))))"

lemma keepsD: "keeps f \<Longrightarrow> f s = (r, s') \<Longrightarrow> R (store s) (store s')"
  by (metis keeps_def snd_conv)

lemma keeps_step: "keeps f \<Longrightarrow> R d (store s) \<Longrightarrow> R d (store (snd (f s)))"
  unfolding keeps_def by (blast intro: R_trans)

lemma keepsI: "(\<And>s r s'. f s = (r, s') \<Longrightarrow> R (store s) (store s')) \<Longrightarrow> keeps f"
  by (metis keeps_def surjective_pairing)

lemma run: "(\<And>d x d'. stmt d = Inr (x, d') \<Longrightarrow> R d d') \<Longrightarrow> keeps (pg_run stmt)"
  by (rule keepsI, erule pg_run_cases) (auto intro: R_refl)

lemma query: "keeps (pg_query q)"
  by (rule keepsI, drule pg_query_store) (simp add: R_refl)

lemma tx: "keeps body \<Longrightarrow> keeps (pg_tx bm cm body)"
  by (rule keepsI, erule pg_tx_cases) (auto dest: keepsD intro: R_refl)

lemma wrap: "keeps f \<Longrightarrow> keeps (\<lambda>s. wrap_err m (f s))"
  by (simp add: keeps_def)

lemma ret: "keeps (\<lambda>s. (x, s))"
  by (simp add: keeps_def R_refl)

lemma cond: "(c \<Longrightarrow> keeps f) \<Longrightarrow> (\<not> c \<Longrightarrow> keeps g) \<Longrightarrow> keeps (\<lambda>s. if c then f s else g s)"
  by (cases c) simp_all

lemma fresh_id: "(\<And>i. keeps (f i)) \<Longrightarrow> keeps (\<lambda>s. case take_id E s of (i, s) \<Rightarrow> f i s)"
  by (auto simp: keeps_def take_id_def) (metis pg.select_convs(1) pg.surjective pg.update_convs(3))

lemma fresh_ids:
  "(\<And>n. keeps (f n)) \<Longrightarrow> keeps (\<lambda>s. f (ctr s) (s\<lparr>ctr := ctr s + k\<rparr>))"
  by (auto simp: keeps_def) (metis pg.select_convs(1) pg.surjective pg.update_convs(3))

lemma bind:
  assumes "keeps f" and "\<And>e. keeps (A e)" and "\<And>x. keeps (B x)"
  shows "keeps (\<lambda>s. case f s of (Inl e, s) \<Rightarrow> A e s | (Inr x, s) \<Rightarrow> B x s)"
proof (rule keepsI)
  fix s r s'
  assume step: "(case f s of (Inl e, s) \<Rightarrow> A e s | (Inr x, s) \<Rightarrow> B x s) = (r, s')"
  obtain v s1 where f: "f s = (v, s1)" by force
  then have "R (store s) (store s1)" using assms(1) by (auto dest: keepsD)
  moreover have "R (store s1) (store s')"
    using step f assms(2,3) by (cases v) (auto dest: keepsD)
  ultimately show "R (store s) (store s')" by (rule R_trans)
qed

lemma quiet: "(\<And>s r s'. f s = (r, s') \<Longrightarrow> store s' = store s) \<Longrightarrow> keeps f"
  by (rule keepsI) (metis R_refl)

lemma pair: "(\<And>a b. keeps (f a b)) \<Longrightarrow> keeps (\<lambda>s. case p of (a, b) \<Rightarrow> f a b s)"
  by (cases p) simp

lemma opt:
  "keeps f \<Longrightarrow> (\<And>x. keeps (g x)) \<Longrightarrow> keeps (\<lambda>s. case v of None \<Rightarrow> f s | Some x \<Rightarrow> g x s)"
  by (cases v) simp_all

lemma ins_all_R:
  "(\<And>r d d'. r \<in> set rs \<Longrightarrow> ins r d = Inr d' \<Longrightarrow> R d d') \<Longrightarrow> ins_all ins rs d = Inr d' \<Longrightarrow> R d d'"
proof (induction rs arbitrary: d)
  case Nil
  then show ?case by (simp add: R_refl)
next
  case (Cons r rs)
  then obtain d1 where "ins r d = Inr d1" "ins_all ins rs d1 = Inr d'" by auto
  with Cons show ?case by (meson R_trans list.set_intros)
qed

lemmas keeps_rules = wrap ret cond query bind

end

section \<open>The invariant of the tables\<close>

text \<open>
  Beyond the schema's constraints: an acknowledgement by the owner only ever stands on an
  administrator's deletion, and a shared task has one of the three statuses.
\<close>

definition acks_ok :: "db \<Rightarrow> bool" where
  "acks_ok d \<longleftrightarrow>
     (\<forall>r \<in> set (tasks d). tr_user_ack r = Some True \<longrightarrow> tr_admin_deleted r = Some True) \<and>
     (\<forall>r \<in> set (shared_tasks d). sh_user_ack r = Some True \<longrightarrow> sh_admin_deleted r = Some True)"

definition shared_status_ok :: "db \<Rightarrow> bool" where
  "shared_status_ok d \<longleftrightarrow>
     (\<forall>r \<in> set (shared_tasks d). sh_status r \<in> {''pending'', ''accepted'', ''rejected''})"

text \<open>
  The versions of the update events of one task, oldest first, and
  \<open>COALESCE((SELECT MAX(version) + 1 ...), 0)\<close> over them. Consumers order a task's
  updates by this number, so it has to count them.
\<close>

definition update_versions :: "db \<Rightarrow> string \<Rightarrow> int list" where
  "update_versions d agg =
     map ob_version (filter (\<lambda>r. ob_aggregate_type r = ''task'' \<and> ob_aggregate_id r = agg
                                \<and> ob_event_type r = ''update'') (outbox_events d))"

definition next_version :: "db \<Rightarrow> string \<Rightarrow> int" where
  "next_version d agg =
     (let vs = update_versions d agg in if vs = [] then 0 else Max (set vs) + 1)"

definition versions_ok :: "db \<Rightarrow> bool" where
  "versions_ok d \<longleftrightarrow>
     (\<forall>e \<in> set (outbox_events d).
        update_versions d (ob_aggregate_id e)
        = map int [0..<length (update_versions d (ob_aggregate_id e))])"

definition db_ok :: "db \<Rightarrow> bool" where
  "db_ok d \<longleftrightarrow> schema_ok d \<and> acks_ok d \<and> shared_status_ok d \<and> versions_ok d"

lemma versions_okD:
  assumes "versions_ok d"
  shows "update_versions d agg = map int [0..<length (update_versions d agg)]"
proof (cases "update_versions d agg = []")
  case False
  then obtain e where "e \<in> set (outbox_events d)" "ob_aggregate_id e = agg"
    by (auto simp: update_versions_def filter_empty_conv)
  with assms show ?thesis by (auto simp: versions_ok_def)
qed simp

lemma versions_okI:
  "(\<And>agg. update_versions d agg = map int [0..<length (update_versions d agg)]) \<Longrightarrow> versions_ok d"
  by (simp add: versions_ok_def)

lemma versions_ok_same_events: "outbox_events d' = outbox_events d \<Longrightarrow> versions_ok d' = versions_ok d"
  by (simp add: versions_ok_def update_versions_def)

lemma next_version_length:
  assumes "versions_ok d"
  shows "next_version d agg = int (length (update_versions d agg))"
proof (cases "update_versions d agg = []")
  case True
  then show ?thesis by (simp add: next_version_def)
next
  case False
  define n where "n = length (update_versions d agg)"
  have vs: "update_versions d agg = map int [0..<n]"
    using versions_okD [OF assms] by (simp add: n_def)
  have "n > 0" using False by (simp add: n_def)
  then obtain m where m: "n = Suc m" by (cases n) auto
  have "Max (set (update_versions d agg)) = int m"
    unfolding vs by (rule Max_eqI) (auto simp: m)
  then show ?thesis using False m by (simp add: next_version_def n_def [symmetric])
qed

lemma update_versions_append:
  "outbox_events d' = outbox_events d @ [r] \<Longrightarrow>
     update_versions d' agg = update_versions d agg @
       (if ob_aggregate_type r = ''task'' \<and> ob_aggregate_id r = agg \<and> ob_event_type r = ''update''
        then [ob_version r] else [])"
  by (simp add: update_versions_def)

lemma versions_ok_append:
  assumes ok: "versions_ok d" and d': "outbox_events d' = outbox_events d @ [r]"
    and v: "ob_event_type r = ''update'' \<Longrightarrow> ob_version r = next_version d (ob_aggregate_id r)"
  shows "versions_ok d'"
proof (rule versions_okI)
  fix agg
  have a: "update_versions d agg = map int [0..<length (update_versions d agg)]"
    by (rule versions_okD [OF ok])
  show "update_versions d' agg = map int [0..<length (update_versions d' agg)]"
  proof (cases "ob_aggregate_type r = ''task'' \<and> ob_aggregate_id r = agg \<and> ob_event_type r = ''update''")
    case True
    then have "ob_version r = int (length (update_versions d agg))"
      using v next_version_length [OF ok] by auto
    with True a show ?thesis by (simp add: update_versions_append [OF d'])
  next
    case False
    then have "update_versions d' agg = update_versions d agg"
      using update_versions_append [OF d', of agg] by simp
    with a show ?thesis by simp
  qed
qed

lemma db_ok_empty [simp]: "db_ok empty_db"
  by (simp add: db_ok_def acks_ok_def shared_status_ok_def versions_ok_def empty_db_def)
    (metis empty_db_def schema_ok_empty)

interpretation db_inv: store_rel "\<lambda>d d'. db_ok d \<longrightarrow> db_ok d'"
  by unfold_locales auto

lemma ins_task_db_ok:
  "ins_task r d = Inr d' \<Longrightarrow> tr_user_ack r = Some False \<Longrightarrow> db_ok d \<Longrightarrow> db_ok d'"
  using ins_task_ok [of r d d'] ins_task_Inr [of r d d'] versions_ok_same_events [of d' d]
  by (auto simp: db_ok_def acks_ok_def shared_status_ok_def)

lemma ins_outbox_db_ok:
  assumes "ins_outbox r d = Inr d'" and "ob_attempts r = 0" and "db_ok d"
    and "ob_event_type r = ''update'' \<Longrightarrow> ob_version r = next_version d (ob_aggregate_id r)"
  shows "db_ok d'"
  using ins_outbox_ok [of r d d'] ins_outbox_Inr [of r d d'] versions_ok_append [of d d' r] assms
  by (auto simp: db_ok_def acks_ok_def shared_status_ok_def)

lemma ins_subtask_db_ok: "ins_subtask r d = Inr d' \<Longrightarrow> db_ok d \<Longrightarrow> db_ok d'"
  using ins_subtask_ok [of r d d'] ins_subtask_Inr [of r d d'] versions_ok_same_events [of d' d]
  by (auto simp: db_ok_def acks_ok_def shared_status_ok_def)

lemma ins_custom_tag_db_ok: "ins_custom_tag r d = Inr d' \<Longrightarrow> db_ok d \<Longrightarrow> db_ok d'"
  using ins_custom_tag_ok [of r d d'] ins_custom_tag_Inr [of r d d'] versions_ok_same_events [of d' d]
  by (auto simp: db_ok_def acks_ok_def shared_status_ok_def)

lemma delete_tasks_db_ok: "db_ok d \<Longrightarrow> db_ok (delete_tasks P d)"
  using delete_tasks_ok [of d P] versions_ok_same_events [of "delete_tasks P d" d]
  by (auto simp: db_ok_def acks_ok_def shared_status_ok_def delete_tasks_def Let_def)

lemma update_tasks_db_ok:
  assumes "db_ok d" and "\<And>r. tr_task_id (f r) = tr_task_id r"
    and "\<And>r. r \<in> set (tasks d) \<Longrightarrow> P r \<Longrightarrow> status_check (tr_status (f r)) \<and> priory_check (tr_priory (f r))"
    and "\<And>r. r \<in> set (tasks d) \<Longrightarrow> P r \<Longrightarrow> (tr_user_ack r = Some True \<Longrightarrow> tr_admin_deleted r = Some True)
           \<Longrightarrow> tr_user_ack (f r) = Some True \<Longrightarrow> tr_admin_deleted (f r) = Some True"
  shows "db_ok (d\<lparr>tasks := update_where P f (tasks d)\<rparr>)"
proof -
  have "\<forall>r \<in> set (update_where P f (tasks d)). tr_user_ack r = Some True \<longrightarrow> tr_admin_deleted r = Some True"
    by (rule update_where_preserves) (use assms in \<open>auto simp: db_ok_def acks_ok_def\<close>)
  then show ?thesis
    using assms update_tasks_ok [of d f P]
      versions_ok_same_events [of "d\<lparr>tasks := update_where P f (tasks d)\<rparr>" d]
    by (auto simp: db_ok_def acks_ok_def shared_status_ok_def)
qed

lemma update_shared_db_ok:
  assumes "db_ok d" and "\<And>r. sh_id (f r) = sh_id r"
    and "\<And>r. r \<in> set (shared_tasks d) \<Longrightarrow> P r \<Longrightarrow> sh_status (f r) \<in> {''pending'', ''accepted'', ''rejected''}"
    and "\<And>r. r \<in> set (shared_tasks d) \<Longrightarrow> P r \<Longrightarrow> (sh_user_ack r = Some True \<Longrightarrow> sh_admin_deleted r = Some True)
           \<Longrightarrow> sh_user_ack (f r) = Some True \<Longrightarrow> sh_admin_deleted (f r) = Some True"
  shows "db_ok (d\<lparr>shared_tasks := update_where P f (shared_tasks d)\<rparr>)"
proof -
  have ids: "map sh_id (update_where P f (shared_tasks d)) = map sh_id (shared_tasks d)"
    by (rule map_update_where) (rule assms(2))
  then have set_ids: "sh_id ` set (update_where P f (shared_tasks d)) = sh_id ` set (shared_tasks d)"
    by (metis list.set_map)
  have "\<forall>r \<in> set (update_where P f (shared_tasks d)). sh_status r \<in> {''pending'', ''accepted'', ''rejected''}"
    by (rule update_where_preserves) (use assms in \<open>auto simp: db_ok_def shared_status_ok_def\<close>)
  moreover have "\<forall>r \<in> set (update_where P f (shared_tasks d)). sh_user_ack r = Some True \<longrightarrow> sh_admin_deleted r = Some True"
    by (rule update_where_preserves) (use assms in \<open>auto simp: db_ok_def acks_ok_def\<close>)
  ultimately show ?thesis
    using assms(1) ids set_ids
      versions_ok_same_events [of "d\<lparr>shared_tasks := update_where P f (shared_tasks d)\<rparr>" d]
    by (auto simp: db_ok_def acks_ok_def shared_status_ok_def schema_ok_def)
qed

text \<open>The common case: status and priority stay, so the CHECK constraints hold.\<close>

lemma mark_tasks_db_ok:
  assumes "db_ok d"
    and "\<And>r. tr_task_id (f r) = tr_task_id r \<and> tr_status (f r) = tr_status r \<and> tr_priory (f r) = tr_priory r"
    and "\<And>r. P r \<Longrightarrow> (tr_user_ack r = Some True \<Longrightarrow> tr_admin_deleted r = Some True)
           \<Longrightarrow> tr_user_ack (f r) = Some True \<Longrightarrow> tr_admin_deleted (f r) = Some True"
  shows "db_ok (d\<lparr>tasks := update_where P f (tasks d)\<rparr>)"
  by (rule update_tasks_db_ok) (use assms in \<open>auto simp: db_ok_def schema_ok_def\<close>)

lemma mark_shared_db_ok:
  assumes "db_ok d"
    and "\<And>r. sh_id (f r) = sh_id r \<and> sh_status (f r) = sh_status r"
    and "\<And>r. P r \<Longrightarrow> (sh_user_ack r = Some True \<Longrightarrow> sh_admin_deleted r = Some True)
           \<Longrightarrow> sh_user_ack (f r) = Some True \<Longrightarrow> sh_admin_deleted (f r) = Some True"
  shows "db_ok (d\<lparr>shared_tasks := update_where P f (shared_tasks d)\<rparr>)"
  by (rule update_shared_db_ok) (use assms in \<open>auto simp: db_ok_def shared_status_ok_def\<close>)

lemmas ins_db_ok = ins_task_db_ok ins_outbox_db_ok ins_subtask_db_ok ins_custom_tag_db_ok

lemma ins_event_db_ok:
  "ins_outbox (new_event i a ''created'' j t v) d = Inr d' \<Longrightarrow> db_ok d \<Longrightarrow> db_ok d'"
  "ins_outbox (new_event i a ''deleted'' j t v) d = Inr d' \<Longrightarrow> db_ok d \<Longrightarrow> db_ok d'"
  "ins_outbox (new_event i a ''update'' j t (next_version d a)) d = Inr d' \<Longrightarrow> db_ok d \<Longrightarrow> db_ok d'"
  subgoal by (rule ins_outbox_db_ok) auto
  subgoal by (rule ins_outbox_db_ok) auto
  subgoal by (rule ins_outbox_db_ok) auto
  done

text \<open>A concrete environment, to evaluate the model in.\<close>

definition sample_env :: env where
  "sample_env = \<lparr>now = 1000, fresh = (\<lambda>n. replicate (Suc n) CHR ''i''), uuid_Parse = (\<lambda>s. s \<noteq> []),
     pg_uuid = (\<lambda>s. if s = [] then None else Some s), pg_timestamp = (\<lambda>s. None),
     wall_clock = (\<lambda>t. t), row_order = length\<rparr>"

lemma sample_env_clock [simp]: "wall_clock sample_env t = t"
  by (simp add: sample_env_def)

lemma sample_env_laws: "uuid_laws sample_env"
  by (auto simp: uuid_laws_def sample_env_def inj_def split: if_splits)

end
