(* ===== verification/Mapper.thy ===== *)
theory Mapper
  imports Domain Store
begin

text \<open>
  Between the tables and the domain: the persistence models and their mapping
  (\<open>tasks/repository/postgres/model.go\<close>, \<open>mapper.go\<close>), the read entity of the lists
  (\<open>tasks/model/task.go\<close>) with \<open>scanTasks\<close>, and the payload of the outbox and of
  Kafka (\<open>taskPayloadJSON\<close> in \<open>postgres.go\<close>, \<open>outbox/model.go\<close>).
\<close>

section \<open>Persistence models\<close>

record task_model =
  m_ID :: string
  m_Title :: string
  m_Description :: string
  m_Priority :: string
  m_Status :: string
  m_DueDate :: time
  m_UserID :: string
  m_TagID :: "string option"
  m_TagName :: "string option"
  m_CreatedAt :: time
  m_Reminder60mSentAt :: "time option"
  m_Reminder15mSentAt :: "time option"
  m_Reminder5mSentAt :: "time option"

text \<open>
  The status shown to readers: an unfinished task whose deadline has passed reads as
  \<open>not_completed\<close>, whatever is stored.
\<close>

definition shown_status :: "env \<Rightarrow> status \<Rightarrow> time \<Rightarrow> status" where
  "shown_status E st due =
     (if st \<noteq> StatusCompleted \<and> due \<noteq> zero_time \<and> due < now E then StatusNotCompleted else st)"

definition modelToEntity :: "env \<Rightarrow> task_model \<Rightarrow> task" where
  "modelToEntity E m =
     \<lparr>t_ID = m_ID m,
      t_Title = m_Title m,
      t_Description = m_Description m,
      t_Priority = m_Priority m,
      t_Status = shown_status E (NewStatus (m_Status m)) (m_DueDate m),
      t_DueDate = m_DueDate m,
      t_UserID = m_UserID m,
      t_TagID = m_TagID m,
      t_TagName = (case m_TagName m of None \<Rightarrow> [] | Some n \<Rightarrow> n),
      t_CreatedAt = m_CreatedAt m,
      t_Subtasks = [],
      t_Reminder60mSentAt = m_Reminder60mSentAt m,
      t_Reminder15mSentAt = m_Reminder15mSentAt m,
      t_Reminder5mSentAt = m_Reminder5mSentAt m\<rparr>"

text \<open>\<open>SubtaskModel\<close> has the columns of the row, so the row stands for it.\<close>

definition subtaskModelToEntity :: "subtask_row \<Rightarrow> subtask" where
  "subtaskModelToEntity r =
     \<lparr>sub_ID = sr_id r, sub_TaskID = sr_task_id r, sub_Title = sr_title r,
      sub_IsDone = sr_is_done r, sub_Order = sr_order_num r\<rparr>"

text \<open>Tag names by LEFT JOIN on the two tag tables.\<close>

definition custom_name :: "db \<Rightarrow> string option \<Rightarrow> string option" where
  "custom_name d i = map_option ct_name (find_row (\<lambda>r. Some (ct_tag_id r) = i) (custom_tag d))"

definition custom_name_of :: "db \<Rightarrow> string \<Rightarrow> string option \<Rightarrow> string option" where
  "custom_name_of d u i =
     map_option ct_name (find_row (\<lambda>r. Some (ct_tag_id r) = i \<and> ct_user_id r = u) (custom_tag d))"

definition default_name :: "db \<Rightarrow> string option \<Rightarrow> string option" where
  "default_name d i = map_option dt_name (find_row (\<lambda>r. Some (dt_tag_id r) = i) (default_tag d))"

definition coalesce :: "'a option \<Rightarrow> 'a option \<Rightarrow> 'a option" where
  "coalesce a b = (case a of None \<Rightarrow> b | Some x \<Rightarrow> Some x)"

definition row_model :: "db \<Rightarrow> task_row \<Rightarrow> task_model" where
  "row_model d r =
     \<lparr>m_ID = tr_task_id r, m_Title = tr_title r, m_Description = tr_description r,
      m_Priority = tr_priory r, m_Status = tr_status r, m_DueDate = tr_due_date r,
      m_UserID = tr_user_id r, m_TagID = tr_tag_id r,
      m_TagName = coalesce (default_name d (tr_tag_id r)) (custom_name d (tr_tag_id r)),
      m_CreatedAt = tr_created_at r,
      m_Reminder60mSentAt = tr_reminder_60m_sent_at r,
      m_Reminder15mSentAt = tr_reminder_15m_sent_at r,
      m_Reminder5mSentAt = tr_reminder_5m_sent_at r\<rparr>"

section \<open>The read entity of the lists\<close>

record task_list =
  tl_ID :: string
  tl_Title :: string
  tl_Description :: string
  tl_Status :: string
  tl_Priory :: string
  tl_DueDate :: time
  tl_UserID :: string
  tl_TagID :: "string option"
  tl_TagName :: "string option"
  tl_AdminDeleted :: bool
  tl_AdminDeletedAt :: "time option"

definition is_true :: "bool option \<Rightarrow> bool" where \<comment> \<open>\<open>COALESCE(b, FALSE)\<close>\<close>
  "is_true b = (b = Some True)"

text \<open>One row of the loop of \<open>scanTasks\<close>; \<open>name\<close> is the joined tag name.\<close>

definition scan_row :: "env \<Rightarrow> string option \<Rightarrow> task_row \<Rightarrow> task_list" where
  "scan_row E name r =
     \<lparr>tl_ID = tr_task_id r, tl_Title = tr_title r, tl_Description = tr_description r,
      tl_Status = shown_status E (NewStatus (tr_status r)) (tr_due_date r),
      tl_Priory = tr_priory r, tl_DueDate = tr_due_date r, tl_UserID = tr_user_id r,
      tl_TagID = tr_tag_id r, tl_TagName = name,
      tl_AdminDeleted = is_true (tr_admin_deleted r),
      tl_AdminDeletedAt = tr_admin_deleted_at r\<rparr>"

fun scanTasks :: "env \<Rightarrow> (task_row \<Rightarrow> string option) \<Rightarrow> task_row list \<Rightarrow> task_list list" where
  "scanTasks E name [] = []"
| "scanTasks E name (r # rs) = scan_row E (name r) r # scanTasks E name rs"

lemma scanTasks_map: "scanTasks E name rs = map (\<lambda>r. scan_row E (name r) r) rs"
  by (induction rs) auto

section \<open>Payloads\<close>

text \<open>\<open>taskPayloadJSON\<close> and \<open>outbox.TaskPayload\<close> have the same fields and JSON keys.\<close>

record task_payload =
  pl_ID :: string
  pl_Title :: string
  pl_Description :: string
  pl_Priority :: string
  pl_Status :: string
  pl_DueDate :: time
  pl_UserID :: string
  pl_TagID :: "string option"
  pl_TagName :: string
  pl_CreatedAt :: time

definition toTaskPayload :: "task \<Rightarrow> task_payload" where
  "toTaskPayload t =
     \<lparr>pl_ID = t_ID t, pl_Title = t_Title t, pl_Description = t_Description t,
      pl_Priority = t_Priority t, pl_Status = t_Status t, pl_DueDate = t_DueDate t,
      pl_UserID = t_UserID t, pl_TagID = t_TagID t, pl_TagName = t_TagName t,
      pl_CreatedAt = t_CreatedAt t\<rparr>"

definition PayloadToTask :: "task_payload \<Rightarrow> task" where
  "PayloadToTask p = zero_task
     \<lparr>t_ID := pl_ID p, t_Title := pl_Title p, t_Description := pl_Description p,
      t_Priority := pl_Priority p, t_Status := NewStatus (pl_Status p),
      t_DueDate := pl_DueDate p, t_UserID := pl_UserID p, t_TagID := pl_TagID p,
      t_TagName := pl_TagName p, t_CreatedAt := pl_CreatedAt p\<rparr>"

text \<open>\<open>json.Marshal\<close>: a nil \<open>tag_id\<close> is left out (\<open>omitempty\<close>).\<close>

definition payload_json :: "task_payload \<Rightarrow> json" where
  "payload_json p =
     [(''id'', JStr (pl_ID p)), (''title'', JStr (pl_Title p)),
      (''description'', JStr (pl_Description p)), (''priory'', JStr (pl_Priority p)),
      (''status'', JStr (pl_Status p)), (''due_date'', JTimeZ (pl_DueDate p)),
      (''user_id'', JStr (pl_UserID p))]
     @ (case pl_TagID p of None \<Rightarrow> [] | Some i \<Rightarrow> [(''tag_id'', JStr i)])
     @ [(''tags_name'', JStr (pl_TagName p)), (''created_at'', JTimeZ (pl_CreatedAt p))]"

text \<open>
  \<open>json.Unmarshal\<close> into \<open>TaskPayload\<close>: an absent key or a null leaves the zero value, and
  a timestamp without zone offset is not RFC 3339 and is refused by \<open>time.Time\<close>. A
  timestamp read into a text field cannot occur in the documents the service writes.
\<close>

definition json_str :: "json \<Rightarrow> string \<Rightarrow> go_err + string" where
  "json_str j k =
     (case map_of j k of
        None \<Rightarrow> Inr []
      | Some JNull \<Rightarrow> Inr []
      | Some (JStr s) \<Rightarrow> Inr s
      | Some _ \<Rightarrow> Inl (Msg ''json type''))"

definition json_str_ptr :: "json \<Rightarrow> string \<Rightarrow> go_err + string option" where
  "json_str_ptr j k =
     (case map_of j k of
        None \<Rightarrow> Inr None
      | Some JNull \<Rightarrow> Inr None
      | Some (JStr s) \<Rightarrow> Inr (Some s)
      | Some _ \<Rightarrow> Inl (Msg ''json type''))"

definition json_time :: "json \<Rightarrow> string \<Rightarrow> go_err + time" where
  "json_time j k =
     (case map_of j k of
        None \<Rightarrow> Inr zero_time
      | Some JNull \<Rightarrow> Inr zero_time
      | Some (JTimeZ t) \<Rightarrow> Inr t
      | Some (JTimeLocal t) \<Rightarrow> Inl (Msg ''parsing time: cannot parse as Z07:00'')
      | Some (JStr s) \<Rightarrow> Inl (Msg ''parsing time''))"

definition payload_unmarshal :: "json \<Rightarrow> go_err + task_payload" where
  "payload_unmarshal j =
     ebind (json_str j ''id'') (\<lambda>i.
     ebind (json_str j ''title'') (\<lambda>ti.
     ebind (json_str j ''description'') (\<lambda>de.
     ebind (json_str j ''priory'') (\<lambda>pr.
     ebind (json_str j ''status'') (\<lambda>st.
     ebind (json_time j ''due_date'') (\<lambda>du.
     ebind (json_str j ''user_id'') (\<lambda>us.
     ebind (json_str_ptr j ''tag_id'') (\<lambda>tg.
     ebind (json_str j ''tags_name'') (\<lambda>tn.
     ebind (json_time j ''created_at'') (\<lambda>cr.
       Inr \<lparr>pl_ID = i, pl_Title = ti, pl_Description = de, pl_Priority = pr, pl_Status = st,
            pl_DueDate = du, pl_UserID = us, pl_TagID = tg, pl_TagName = tn,
            pl_CreatedAt = cr\<rparr>))))))))))"

text \<open>
  The document the DELETE statements build with \<open>json_build_object\<close> from the row.
\<close>

definition deleted_json :: "task_row \<Rightarrow> json" where
  "deleted_json r =
     [(''id'', JStr (tr_task_id r)), (''title'', JStr (tr_title r)),
      (''description'', JStr (tr_description r)), (''priory'', JStr (tr_priory r)),
      (''status'', JStr (if tr_status r = ''1'' then ''not_completed''
                       else if tr_status r = ''2'' then ''in_progress''
                       else if tr_status r = ''3'' then ''completed''
                       else tr_status r)),
      (''due_date'', JTimeLocal (tr_due_date r)), (''created_at'', JTimeLocal (tr_created_at r)),
      (''user_id'', JStr (tr_user_id r)),
      (''tag_id'', JStr (case tr_tag_id r of None \<Rightarrow> [] | Some i \<Rightarrow> i)),
      (''tags_name'', JStr [])]"

lemma payload_unmarshal_json [simp]: "payload_unmarshal (payload_json p) = Inr p"
  by (cases "pl_TagID p")
    (simp_all add: payload_unmarshal_def payload_json_def json_str_def json_str_ptr_def json_time_def)

lemma payload_unmarshal_deleted:
  "payload_unmarshal (deleted_json r) = Inl (Msg ''parsing time: cannot parse as Z07:00'')"
  by (simp add: payload_unmarshal_def deleted_json_def json_str_def json_time_def)

lemma shown_status_valid: "status_IsValid st \<Longrightarrow> status_IsValid (shown_status E st due)"
  by (simp add: shown_status_def status_IsValid_def)

lemma modelToEntity_status: "status_IsValid (t_Status (modelToEntity E m))"
  by (simp add: modelToEntity_def shown_status_valid)

section \<open>Properties of the mapping\<close>

text \<open>C38: a task written to the outbox by a create or update is read back by the consumer
  field by field, for every task with a valid status; what the payload does not carry
  (subtasks, reminder marks) comes back empty.\<close>

theorem outbox_payload_roundtrip:
  assumes "status_IsValid (t_Status t)"
  shows "\<exists>p. payload_unmarshal (payload_json (toTaskPayload t)) = Inr p
     \<and> PayloadToTask p = t\<lparr>t_Subtasks := [], t_Reminder60mSentAt := None,
          t_Reminder15mSentAt := None, t_Reminder5mSentAt := None\<rparr>"
proof -
  have "PayloadToTask (toTaskPayload t) = t\<lparr>t_Subtasks := [], t_Reminder60mSentAt := None,
          t_Reminder15mSentAt := None, t_Reminder5mSentAt := None\<rparr>"
    using NewStatus_id [OF assms] by (simp add: PayloadToTask_def toTaskPayload_def zero_task_def)
  then show ?thesis by simp
qed

theorem outbox_payload_roundtrip_witness:
  "status_IsValid (t_Status (zero_task\<lparr>t_ID := ''a'', t_Status := ''completed''\<rparr>))
   \<and> (\<exists>p. payload_unmarshal (payload_json (toTaskPayload
            (zero_task\<lparr>t_ID := ''a'', t_Status := ''completed''\<rparr>))) = Inr p)"
proof -
  have v: "status_IsValid (t_Status (zero_task\<lparr>t_ID := ''a'', t_Status := ''completed''\<rparr>))"
    by (simp add: status_IsValid_def)
  show ?thesis using v outbox_payload_roundtrip [OF v] by blast
qed

end
