(* ===== verification/TaskRepo.thy ===== *)
theory TaskRepo
  imports Mapper Filters
begin

text \<open>
  The task repository (\<open>tasks/repository/postgres/postgres.go\<close>): creating, updating and
  deleting tasks together with their outbox event, and the queries. Each SQL text is a
  function on the tables (names ending in \<open>_sql\<close>); the Go function around it is the
  \<open>repo_\<close> definition, with its round trips, transaction and error wrapping.
\<close>

section \<open>Create\<close>

definition new_task_row :: "env \<Rightarrow> task \<Rightarrow> string \<Rightarrow> string \<Rightarrow> string option \<Rightarrow> task_row" where
  "new_task_row E t tid uid tag =
     \<lparr>tr_task_id = tid, tr_title = t_Title t, tr_description = t_Description t,
      tr_status = StorageCode (t_Status t), tr_priory = t_Priority t,
      tr_due_date = t_DueDate t, tr_created_at = now E, tr_user_id = uid, tr_tag_id = tag,
      tr_reminder_60m_sent_at = None, tr_reminder_15m_sent_at = None,
      tr_reminder_5m_sent_at = None, tr_admin_deleted = Some False,
      tr_admin_deleted_at = None, tr_user_ack = Some False\<rparr>"

text \<open>
  The tag ids of \<open>tag_resolved\<close>, defaults first, as \<open>UNION ALL\<close> appends them.
\<close>

definition tag_resolved :: "db \<Rightarrow> string \<Rightarrow> string \<Rightarrow> string list" where
  "tag_resolved d name uid =
     map dt_tag_id (filter (\<lambda>r. dt_name r = name) (default_tag d)) @
     map ct_tag_id (filter (\<lambda>r. ct_name r = name \<and> ct_user_id r = uid) (custom_tag d))"

text \<open>
  \<open>tag_resolved\<close> and \<open>tag_upserted\<close>: the tag of that name, made for the user when there
  is none. Since none of the user has the name then, \<open>ON CONFLICT\<close> does not fire.
\<close>

definition resolve_or_insert_tag :: "string \<Rightarrow> string \<Rightarrow> string \<Rightarrow> db \<Rightarrow> go_err + string \<times> db" where
  "resolve_or_insert_tag newTag name uid d =
     (case tag_resolved d name uid of
        i # _ \<Rightarrow> Inr (i, d)
      | [] \<Rightarrow> ebind (ins_custom_tag \<lparr>ct_tag_id = newTag, ct_name = name, ct_user_id = uid\<rparr> d)
                (\<lambda>d. Inr (newTag, d)))"

definition create_tagged_sql ::
    "env \<Rightarrow> task \<Rightarrow> string \<Rightarrow> json \<Rightarrow> string \<Rightarrow> db \<Rightarrow> go_err + unit \<times> db" where
  "create_tagged_sql E t outboxID data newTag d =
     ebind (uuid_arg E (t_UserID t)) (\<lambda>uid.
     ebind (uuid_arg E (t_ID t)) (\<lambda>tid.
     ebind (uuid_arg E outboxID) (\<lambda>oid.
     ebind (resolve_or_insert_tag newTag (t_TagName t) uid d) (\<lambda>(tag, d).
     ebind (ins_task (new_task_row E t tid uid (Some tag)) d) (\<lambda>d.
     ebind (ins_outbox (new_event oid tid ''created'' data (now E) 0) d) (\<lambda>d.
       Inr ((), d)))))))"

text \<open>\<open>COALESCE($9::uuid, default)\<close> of a tag argument.\<close>

definition tag_arg :: "env \<Rightarrow> string option \<Rightarrow> go_err + string" where
  "tag_arg E t = (case t of None \<Rightarrow> Inr default_tag_id | Some s \<Rightarrow> uuid_arg E s)"

definition create_plain_sql ::
    "env \<Rightarrow> task \<Rightarrow> string \<Rightarrow> json \<Rightarrow> db \<Rightarrow> go_err + unit \<times> db" where
  "create_plain_sql E t outboxID data d =
     ebind (uuid_arg E (t_UserID t)) (\<lambda>uid.
     ebind (uuid_arg E (t_ID t)) (\<lambda>tid.
     ebind (uuid_arg E outboxID) (\<lambda>oid.
     ebind (tag_arg E (t_TagID t)) (\<lambda>tag.
     ebind (ins_task (new_task_row E t tid uid (Some tag)) d) (\<lambda>d.
     ebind (ins_outbox (new_event oid tid ''created'' data (now E) 0) d) (\<lambda>d.
       Inr ((), d)))))))"

definition repo_Create :: "env \<Rightarrow> task \<Rightarrow> pg \<Rightarrow> (go_err + unit) \<times> pg" where
  "repo_Create E t s =
     (let data = payload_json (toTaskPayload t);
          (outboxID, s) = take_id E s
      in wrap_err ''create task''
           (if nonblank (t_TagName t)
            then (let (newTag, s) = take_id E s
                  in pg_run (create_tagged_sql E t outboxID data newTag) s)
            else pg_run (create_plain_sql E t outboxID data) s))"

section \<open>CreateBatch\<close>

text \<open>The loop over \<open>tasks\<close>: an empty tag taskID becomes NULL, the rest as in \<open>Create\<close>.\<close>

definition batch_tag :: "task \<Rightarrow> string option" where
  "batch_tag t = (case t_TagID t of None \<Rightarrow> None | Some i \<Rightarrow> if i \<noteq> [] then Some i else None)"

fun batch_rows :: "env \<Rightarrow> task list \<Rightarrow> go_err + task_row list" where
  "batch_rows E [] = Inr []"
| "batch_rows E (t # ts) =
     ebind (uuid_arg E (t_ID t)) (\<lambda>tid.
     ebind (uuid_arg E (t_UserID t)) (\<lambda>uid.
     ebind (tag_arg E (batch_tag t)) (\<lambda>tag.
     ebind (batch_rows E ts) (\<lambda>rs.
       Inr (new_task_row E t tid uid (Some tag) # rs)))))"

fun batch_events :: "env \<Rightarrow> nat \<Rightarrow> task list \<Rightarrow> go_err + outbox_row list" where
  "batch_events E n [] = Inr []"
| "batch_events E n (t # ts) =
     ebind (uuid_arg E (fresh E n)) (\<lambda>oid.
     ebind (uuid_arg E (t_ID t)) (\<lambda>tid.
     ebind (batch_events E (Suc n) ts) (\<lambda>es.
       Inr (new_event oid tid ''created'' (payload_json (toTaskPayload t)) (now E) 0 # es))))"

definition batch_tasks_sql :: "env \<Rightarrow> task list \<Rightarrow> db \<Rightarrow> go_err + unit \<times> db" where
  "batch_tasks_sql E ts d =
     ebind (batch_rows E ts) (\<lambda>rs. ebind (ins_all ins_task rs d) (\<lambda>d. Inr ((), d)))"

definition batch_events_sql :: "env \<Rightarrow> nat \<Rightarrow> task list \<Rightarrow> db \<Rightarrow> go_err + unit \<times> db" where
  "batch_events_sql E n ts d =
     ebind (batch_events E n ts) (\<lambda>es. ebind (ins_all ins_outbox es d) (\<lambda>d. Inr ((), d)))"

definition create_batch_body :: "env \<Rightarrow> nat \<Rightarrow> task list \<Rightarrow> pg \<Rightarrow> (go_err + unit) \<times> pg" where
  "create_batch_body E n ts s =
     (case wrap_err ''create batch insert tasks'' (pg_run (batch_tasks_sql E ts) s) of
        (Inl e, s) \<Rightarrow> (Inl e, s)
      | (Inr _, s) \<Rightarrow>
          wrap_err ''create batch insert outbox'' (pg_run (batch_events_sql E n ts) s))"

definition repo_CreateBatch :: "env \<Rightarrow> task list \<Rightarrow> pg \<Rightarrow> (go_err + unit) \<times> pg" where
  "repo_CreateBatch E ts s =
     (if length ts = 0 then (Inr (), s)
      else let n = ctr s; s = s\<lparr>ctr := n + length ts\<rparr>
           in pg_tx ''create batch begin tx'' (Wrap ''create batch commit'')
                (create_batch_body E n ts) s)"

section \<open>FindByID\<close>

definition find_task_sql :: "env \<Rightarrow> string \<Rightarrow> db \<Rightarrow> go_err + task_model" where
  "find_task_sql E taskID d =
     ebind (uuid_arg E taskID) (\<lambda>tid.
       case find_row (\<lambda>r. tr_task_id r = tid) (tasks d) of
         None \<Rightarrow> Inl PgxNoRows
       | Some r \<Rightarrow> Inr (row_model d r))"

text \<open>\<open>SELECT ... FROM subtasks WHERE task_id = $1 ORDER BY order_num\<close>.\<close>

definition subtasks_of_sql :: "env \<Rightarrow> string \<Rightarrow> db \<Rightarrow> go_err + subtask_row list" where
  "subtasks_of_sql E taskID d =
     ebind (uuid_arg E taskID) (\<lambda>tid.
       Inr (sort_key sr_order_num (filter (\<lambda>r. sr_task_id r = tid) (subtasks d))))"

definition repo_FindByID :: "env \<Rightarrow> string \<Rightarrow> pg \<Rightarrow> (go_err + task) \<times> pg" where
  "repo_FindByID E taskID s =
     (case pg_query (find_task_sql E taskID) s of
        (Inl e, s) \<Rightarrow> (if errors_Is e PgxNoRows then (Inl ErrNoRows, s) else (Inl e, s))
      | (Inr m, s) \<Rightarrow>
          (let task = modelToEntity E m
           in case pg_query (subtasks_of_sql E taskID) s of
                (Inl e, s) \<Rightarrow> (Inr task, s)
              | (Inr rs, s) \<Rightarrow> (Inr (task\<lparr>t_Subtasks := map subtaskModelToEntity rs\<rparr>), s)))"

section \<open>Lists\<close>

text \<open>
  The client's conditions and its ORDER BY text are evaluated by the server: \<open>Q conds ord
  rows\<close> are the rows of \<open>rows\<close> that satisfy all the conditions, in the order asked for,
  or the server's error. A condition only restricts and ORDER BY only permutes, when the
  ORDER BY text is a column with a direction (\<open>engine_restricts\<close>).
\<close>

type_synonym engine = "(string \<times> sqlval list) list \<Rightarrow> string \<Rightarrow> task_row list \<Rightarrow> go_err + task_row list"

definition engine_restricts :: "engine \<Rightarrow> string \<Rightarrow> bool" where
  "engine_restricts Q ord \<longleftrightarrow>
     (\<forall>conds rows out. Q conds ord rows = Inr out \<longrightarrow> set out \<subseteq> set rows)"

definition find_by_user_sql ::
    "env \<Rightarrow> engine \<Rightarrow> string \<Rightarrow> string \<Rightarrow> (string \<times> sqlval list) list \<Rightarrow> db \<Rightarrow> go_err + task_list list" where
  "find_by_user_sql E Q userID orderBy conds d =
     ebind (uuid_arg E userID) (\<lambda>uid.
       ebind (Q conds orderBy
               (filter (\<lambda>r. tr_user_id r = uid
                          \<and> \<not> (is_true (tr_admin_deleted r) \<and> is_true (tr_user_ack r))) (tasks d)))
         (\<lambda>rows. Inr (scanTasks E
                   (\<lambda>r. coalesce (custom_name d (tr_tag_id r)) (default_name d (tr_tag_id r))) rows)))"

definition repo_FindByUser ::
    "env \<Rightarrow> engine \<Rightarrow> string \<Rightarrow> sort_options \<Rightarrow> filter_option \<Rightarrow> pg
      \<Rightarrow> ((go_err + task_list list) \<times> pg) outcome" where
  "repo_FindByUser E Q userID sortOpts filterOpts s =
     (case buildFilterConditions filterOpts of
        (conditions, args) \<Rightarrow>
          (case resolve_conditions conditions args of
             Panic \<Rightarrow> Panic
           | Ret conds \<Rightarrow>
               Ret (wrap_err ''query FindByUser''
                     (pg_query (find_by_user_sql E Q userID (buildOrderBy sortOpts) conds) s))))"

text \<open>\<open>ORDER BY t.created_at DESC\<close>.\<close>

definition by_created_desc :: "task_row list \<Rightarrow> task_row list" where
  "by_created_desc rs = sort_key (\<lambda>r. - tr_created_at r) rs"

text \<open>\<open>COALESCE(ct.name, dt.name, '')\<close>, the custom tag joined on tag and owner.\<close>

definition admin_tag_name :: "db \<Rightarrow> task_row \<Rightarrow> string option" where
  "admin_tag_name d r =
     coalesce (coalesce (custom_name_of d (tr_user_id r) (tr_tag_id r)) (default_name d (tr_tag_id r)))
              (Some [])"

definition find_all_sql :: "env \<Rightarrow> db \<Rightarrow> go_err + task_list list" where
  "find_all_sql E d = Inr (scanTasks E (admin_tag_name d) (by_created_desc (tasks d)))"

definition repo_FindAll :: "env \<Rightarrow> pg \<Rightarrow> (go_err + task_list list) \<times> pg" where
  "repo_FindAll E s = wrap_err ''query FindAll'' (pg_query (find_all_sql E) s)"

text \<open>
  \<open>FindAllFiltered\<close>: a condition per non-empty argument; \<open>status\<close> is translated to its
  code with \<open>1\<close> for every text but two.
\<close>

definition status_filter_code :: "string \<Rightarrow> string" where
  "status_filter_code status =
     (if status = ''in_progress'' then ''2'' else if status = ''completed'' then ''3'' else ''1'')"

definition timestamp_arg :: "env \<Rightarrow> string \<Rightarrow> go_err + time" where
  "timestamp_arg E v =
     (case pg_timestamp E v of None \<Rightarrow> Inl (DbError ''timestamp'') | Some t \<Rightarrow> Inr t)"

definition find_all_filtered_sql ::
    "env \<Rightarrow> string \<Rightarrow> string \<Rightarrow> string \<Rightarrow> string \<Rightarrow> db \<Rightarrow> go_err + task_list list" where
  "find_all_filtered_sql E from to status priory d =
     ebind (if from \<noteq> [] then ebind (timestamp_arg E from) (\<lambda>t. Inr (\<lambda>r. tr_created_at r \<ge> t))
            else Inr (\<lambda>r. True)) (\<lambda>c1.
     ebind (if to \<noteq> [] then ebind (timestamp_arg E to) (\<lambda>t. Inr (\<lambda>r. tr_created_at r \<le> t))
            else Inr (\<lambda>r. True)) (\<lambda>c2.
     let c3 = (if status \<noteq> [] then (\<lambda>r. tr_status r = status_filter_code status) else (\<lambda>r. True));
         c4 = (if priory \<noteq> [] then (\<lambda>r. tr_priory r = priory) else (\<lambda>r. True))
     in Inr (scanTasks E (admin_tag_name d)
               (by_created_desc (filter (\<lambda>r. c1 r \<and> c2 r \<and> c3 r \<and> c4 r) (tasks d))))))"

definition repo_FindAllFiltered ::
    "env \<Rightarrow> string \<Rightarrow> string \<Rightarrow> string \<Rightarrow> string \<Rightarrow> pg \<Rightarrow> (go_err + task_list list) \<times> pg" where
  "repo_FindAllFiltered E from to status priory s =
     wrap_err ''query FindAllFiltered'' (pg_query (find_all_filtered_sql E from to status priory) s)"

text \<open>
  \<open>FindByTag\<close>: the custom tag is joined on tag and requesting user, the default tag on
  the tag alone, and one of the two must be there.
\<close>

definition find_by_tag_sql :: "env \<Rightarrow> string \<Rightarrow> string \<Rightarrow> db \<Rightarrow> go_err + task_list list" where
  "find_by_tag_sql E userID tagID d =
     ebind (uuid_arg E userID) (\<lambda>uid.
     ebind (uuid_arg E tagID) (\<lambda>tag.
       Inr (scanTasks E
             (\<lambda>r. coalesce (custom_name_of d uid (tr_tag_id r)) (default_name d (tr_tag_id r)))
             (filter (\<lambda>r. tr_tag_id r = Some tag
                        \<and> (custom_name_of d uid (tr_tag_id r) \<noteq> None
                           \<or> default_name d (tr_tag_id r) \<noteq> None)) (tasks d)))))"

definition repo_FindByTag :: "env \<Rightarrow> string \<Rightarrow> string \<Rightarrow> pg \<Rightarrow> (go_err + task_list list) \<times> pg" where
  "repo_FindByTag E userID tagID s = pg_query (find_by_tag_sql E userID tagID) s"

section \<open>Update\<close>

text \<open>The SET clauses of the patch without the tag, as assignments to the row.\<close>

definition set_clauses :: "update_patch \<Rightarrow> (task_row \<Rightarrow> task_row) list" where
  "set_clauses p =
     (case p_Title p of None \<Rightarrow> [] | Some v \<Rightarrow> [\<lambda>r. r\<lparr>tr_title := v\<rparr>]) @
     (case p_Description p of None \<Rightarrow> [] | Some v \<Rightarrow> [\<lambda>r. r\<lparr>tr_description := v\<rparr>]) @
     (case p_DueDate p of None \<Rightarrow> [] | Some v \<Rightarrow> [\<lambda>r. r\<lparr>tr_due_date := v\<rparr>]) @
     (case p_Priority p of None \<Rightarrow> [] | Some v \<Rightarrow> [\<lambda>r. r\<lparr>tr_priory := v\<rparr>]) @
     (case p_Status p of None \<Rightarrow> [] | Some v \<Rightarrow> [\<lambda>r. r\<lparr>tr_status := StorageCode v\<rparr>])"

definition apply_clauses :: "(task_row \<Rightarrow> task_row) list \<Rightarrow> task_row \<Rightarrow> task_row" where
  "apply_clauses cs r = fold (\<lambda>f r. f r) cs r"

definition owner_of_sql :: "env \<Rightarrow> string \<Rightarrow> db \<Rightarrow> go_err + string" where
  "owner_of_sql E taskID d =
     ebind (uuid_arg E taskID) (\<lambda>tid.
       case find_row (\<lambda>r. tr_task_id r = tid) (tasks d) of
         None \<Rightarrow> Inl PgxNoRows | Some r \<Rightarrow> Inr (tr_user_id r))"

definition default_by_name_sql :: "string \<Rightarrow> db \<Rightarrow> go_err + string" where
  "default_by_name_sql name d =
     (case find_row (\<lambda>r. dt_name r = name) (default_tag d) of
        None \<Rightarrow> Inl PgxNoRows | Some r \<Rightarrow> Inr (dt_tag_id r))"

definition custom_by_name_sql :: "string \<Rightarrow> string \<Rightarrow> db \<Rightarrow> go_err + string" where
  "custom_by_name_sql name uid d =
     (case find_row (\<lambda>r. ct_name r = name \<and> ct_user_id r = uid) (custom_tag d) of
        None \<Rightarrow> Inl PgxNoRows | Some r \<Rightarrow> Inr (ct_tag_id r))"

definition insert_tag_sql :: "string \<Rightarrow> string \<Rightarrow> string \<Rightarrow> db \<Rightarrow> go_err + string \<times> db" where
  "insert_tag_sql newTag name uid d =
     ebind (ins_custom_tag \<lparr>ct_tag_id = newTag, ct_name = name, ct_user_id = uid\<rparr> d)
       (\<lambda>d. Inr (newTag, d))"

text \<open>The three lookups of \<open>Update\<close>: each next one only after \<open>pgx.ErrNoRows\<close>.\<close>

definition resolve_tag :: "env \<Rightarrow> string \<Rightarrow> string \<Rightarrow> pg \<Rightarrow> (go_err + string) \<times> pg" where
  "resolve_tag E taskID name s =
     (case wrap_err ''get user_id for task'' (pg_query (owner_of_sql E taskID) s) of
        (Inl e, s) \<Rightarrow> (Inl e, s)
      | (Inr uid, s) \<Rightarrow>
          wrap_err ''resolve tag''
            (case pg_query (default_by_name_sql name) s of
               (Inr t, s) \<Rightarrow> (Inr t, s)
             | (Inl e, s) \<Rightarrow>
                 if e = PgxNoRows
                 then (case pg_query (custom_by_name_sql name uid) s of
                         (Inr t, s) \<Rightarrow> (Inr t, s)
                       | (Inl e, s) \<Rightarrow>
                           if e = PgxNoRows
                           then (let (newTag, s) = take_id E s
                                 in pg_run (insert_tag_sql newTag name uid) s)
                           else (Inl e, s))
                 else (Inl e, s)))"

definition update_row_sql :: "env \<Rightarrow> string \<Rightarrow> (task_row \<Rightarrow> task_row) list \<Rightarrow> db \<Rightarrow> go_err + nat \<times> db" where
  "update_row_sql E taskID cs d =
     ebind (uuid_arg E taskID) (\<lambda>tid.
       let hit = filter (\<lambda>r. tr_task_id r = tid) (tasks d)
       in if list_ex (\<lambda>r. \<not> (status_check (tr_status (apply_clauses cs r))
                              \<and> priory_check (tr_priory (apply_clauses cs r)))) hit
          then Inl (DbError ''check constraint'')
          else Inr (length hit,
                 d\<lparr>tasks := update_where (\<lambda>r. tr_task_id r = tid) (apply_clauses cs) (tasks d)\<rparr>))"

definition fetch_updated_sql :: "env \<Rightarrow> string \<Rightarrow> db \<Rightarrow> go_err + task_model" where
  "fetch_updated_sql E taskID d =
     ebind (find_task_sql E taskID d) (\<lambda>m.
       Inr (m\<lparr>m_Reminder60mSentAt := None, m_Reminder15mSentAt := None,
              m_Reminder5mSentAt := None\<rparr>))"

definition update_event_sql :: "env \<Rightarrow> string \<Rightarrow> string \<Rightarrow> json \<Rightarrow> db \<Rightarrow> go_err + unit \<times> db" where
  "update_event_sql E outboxID taskID data d =
     ebind (uuid_arg E outboxID) (\<lambda>oid.
     ebind (uuid_arg E taskID) (\<lambda>tid.
     ebind (ins_outbox (new_event oid tid ''update'' data (now E) (next_version d tid)) d) (\<lambda>d.
       Inr ((), d))))"

text \<open>The part after the SET clauses are known: UPDATE, re-read, outbox event.\<close>

definition update_finish :: "env \<Rightarrow> string \<Rightarrow> (task_row \<Rightarrow> task_row) list \<Rightarrow> pg \<Rightarrow> (go_err + task) \<times> pg" where
  "update_finish E taskID cs s =
     (if length cs = 0 then (Inl (Msg ''no fields to update''), s)
      else case wrap_err ''exec update task'' (pg_run (update_row_sql E taskID cs) s) of
        (Inl e, s) \<Rightarrow> (Inl e, s)
      | (Inr n, s) \<Rightarrow>
          if n = 0 then (Inl (Msg ''task not found''), s)
          else case wrap_err ''fetch updated task'' (pg_query (fetch_updated_sql E taskID) s) of
            (Inl e, s) \<Rightarrow> (Inl e, s)
          | (Inr m, s) \<Rightarrow>
              (let updated = modelToEntity E m;
                   data = payload_json (toTaskPayload updated);
                   (outboxID, s) = take_id E s
               in case wrap_err ''insert outbox event''
                         (pg_run (update_event_sql E outboxID taskID data) s) of
                    (Inl e, s) \<Rightarrow> (Inl e, s)
                  | (Inr _, s) \<Rightarrow> (Inr updated, s)))"

definition update_body :: "env \<Rightarrow> string \<Rightarrow> update_patch \<Rightarrow> pg \<Rightarrow> (go_err + task) \<times> pg" where
  "update_body E taskID p s =
     (case p_TagName p of
        Some name \<Rightarrow>
          if nonblank name
          then (case resolve_tag E taskID name s of
                  (Inl e, s) \<Rightarrow> (Inl e, s)
                | (Inr tag, s) \<Rightarrow>
                    update_finish E taskID (set_clauses p @ [\<lambda>r. r\<lparr>tr_tag_id := Some tag\<rparr>]) s)
          else update_finish E taskID (set_clauses p) s
      | None \<Rightarrow> update_finish E taskID (set_clauses p) s)"

definition repo_Update :: "env \<Rightarrow> string \<Rightarrow> update_patch \<Rightarrow> pg \<Rightarrow> (go_err + task) \<times> pg" where
  "repo_Update E taskID p s =
     (if \<not> uuid_Parse E taskID then (Inl (Msg ''invalid uuid''), s)
      else pg_tx ''begin tx'' (Wrap ''commit update tx'') (update_body E taskID p) s)"

section \<open>Delete\<close>

definition delete_event :: "env \<Rightarrow> string \<Rightarrow> task_row \<Rightarrow> outbox_row" where
  "delete_event E oid r = new_event oid (tr_task_id r) ''deleted'' (deleted_json r) (now E) 0"

definition delete_sql :: "env \<Rightarrow> string \<Rightarrow> string \<Rightarrow> db \<Rightarrow> go_err + nat \<times> db" where
  "delete_sql E taskID outboxID d =
     ebind (uuid_arg E taskID) (\<lambda>tid.
     ebind (uuid_arg E outboxID) (\<lambda>oid.
       let hit = filter (\<lambda>r. tr_task_id r = tid) (tasks d)
       in ebind (ins_all ins_outbox (map (delete_event E oid) hit)
                   (delete_tasks (\<lambda>r. tr_task_id r = tid) d))
            (\<lambda>d. Inr (length hit, d))))"

definition repo_Delete :: "env \<Rightarrow> string \<Rightarrow> pg \<Rightarrow> (go_err + unit) \<times> pg" where
  "repo_Delete E taskID s =
     (if \<not> uuid_Parse E taskID then (Inl (Msg ''invalid uuid''), s)
      else let (outboxID, s) = take_id E s
           in case wrap_err ''delete task'' (pg_run (delete_sql E taskID outboxID) s) of
                (Inl e, s) \<Rightarrow> (Inl e, s)
              | (Inr n, s) \<Rightarrow>
                  if n = 0 then (Inl (Msg ''task not found''), s) else (Inr (), s))"

text \<open>Each deleted row gets an event with an identifier of its own.\<close>

fun delete_events :: "env \<Rightarrow> nat \<Rightarrow> task_row list \<Rightarrow> outbox_row list" where
  "delete_events E n [] = []"
| "delete_events E n (r # rs) = delete_event E (fresh E n) r # delete_events E (Suc n) rs"

definition delete_batch_sql :: "env \<Rightarrow> nat \<Rightarrow> string list \<Rightarrow> db \<Rightarrow> go_err + unit \<times> db" where
  "delete_batch_sql E n ids d =
     ebind (uuid_args E ids) (\<lambda>tids.
       let hit = filter (\<lambda>r. tr_task_id r \<in> set tids) (tasks d)
       in ebind (ins_all ins_outbox (delete_events E n hit)
                   (delete_tasks (\<lambda>r. tr_task_id r \<in> set tids) d))
            (\<lambda>d. Inr ((), d)))"

text \<open>At most as many identifiers as ids are used, so that many are handed out.\<close>

definition repo_DeleteBatch :: "env \<Rightarrow> string list \<Rightarrow> pg \<Rightarrow> (go_err + unit) \<times> pg" where
  "repo_DeleteBatch E ids s =
     (if length ids = 0 then (Inr (), s)
      else let n = ctr s; s = s\<lparr>ctr := n + length ids\<rparr>
           in wrap_err ''delete batch'' (pg_run (delete_batch_sql E n ids) s))"

section \<open>What the operations keep\<close>

lemma new_task_row_ack [simp]: "tr_user_ack (new_task_row E t tid uid tag) = Some False"
  by (simp add: new_task_row_def)

lemma ins_new_task_db_ok:
  "ins_task (new_task_row E t tid uid tag) d = Inr d' \<Longrightarrow> db_ok d \<Longrightarrow> db_ok d'"
  by (rule ins_task_db_ok) auto

lemma resolve_or_insert_tag_db_ok:
  "resolve_or_insert_tag n name uid d = Inr (x, d') \<Longrightarrow> db_ok d \<Longrightarrow> db_ok d'"
  by (auto simp: resolve_or_insert_tag_def split: list.splits intro: ins_custom_tag_db_ok)

lemma create_tagged_sql_db_ok:
  "create_tagged_sql E t o' j n d = Inr (x, d') \<Longrightarrow> db_ok d \<Longrightarrow> db_ok d'"
  by (auto simp: create_tagged_sql_def
      dest: ins_event_db_ok ins_new_task_db_ok resolve_or_insert_tag_db_ok)

lemma create_plain_sql_db_ok:
  "create_plain_sql E t o' j d = Inr (x, d') \<Longrightarrow> db_ok d \<Longrightarrow> db_ok d'"
  by (auto simp: create_plain_sql_def dest: ins_event_db_ok ins_new_task_db_ok)

lemma repo_Create_db_ok: "db_inv.keeps (repo_Create E t)"
  unfolding repo_Create_def Let_def
  by (intro db_inv.fresh_id db_inv.wrap db_inv.cond db_inv.run)
    (auto dest: create_tagged_sql_db_ok create_plain_sql_db_ok)

lemma batch_rows_ack:
  "batch_rows E ts = Inr rs \<Longrightarrow> r \<in> set rs \<Longrightarrow> tr_user_ack r = Some False"
  by (induction ts arbitrary: rs) auto

lemma batch_events_created:
  "batch_events E n ts = Inr es \<Longrightarrow> e \<in> set es \<Longrightarrow> ob_attempts e = 0 \<and> ob_event_type e = ''created''"
  by (induction ts arbitrary: es n) auto

lemma batch_tasks_sql_db_ok:
  assumes "batch_tasks_sql E ts d = Inr (x, d')" and "db_ok d"
  shows "db_ok d'"
proof -
  obtain rs where "batch_rows E ts = Inr rs" "ins_all ins_task rs d = Inr d'"
    using assms(1) by (auto simp: batch_tasks_sql_def)
  then have "db_ok d \<longrightarrow> db_ok d'"
    by (rule_tac db_inv.ins_all_R [of rs ins_task]) (auto intro: ins_task_db_ok dest: batch_rows_ack)
  with assms(2) show ?thesis by simp
qed

lemma batch_events_sql_db_ok:
  assumes "batch_events_sql E n ts d = Inr (x, d')" and "db_ok d"
  shows "db_ok d'"
proof -
  obtain es where "batch_events E n ts = Inr es" "ins_all ins_outbox es d = Inr d'"
    using assms(1) by (auto simp: batch_events_sql_def)
  then have "db_ok d \<longrightarrow> db_ok d'"
    by (rule_tac db_inv.ins_all_R [of es ins_outbox])
      (auto dest!: batch_events_created dest: ins_outbox_db_ok)
  with assms(2) show ?thesis by simp
qed

lemma repo_CreateBatch_db_ok: "db_inv.keeps (repo_CreateBatch E ts)"
  unfolding repo_CreateBatch_def Let_def create_batch_body_def
  by (intro db_inv.cond db_inv.ret db_inv.fresh_ids db_inv.tx db_inv.bind db_inv.wrap db_inv.run)
    (auto dest: batch_tasks_sql_db_ok batch_events_sql_db_ok)

lemma repo_FindByID_store: "repo_FindByID E i s = (r, s') \<Longrightarrow> store s' = store s"
  by (auto simp: repo_FindByID_def Let_def split: prod.splits sum.splits if_splits
      dest!: pg_query_store)

lemma fold_keeps: "(\<And>f r. f \<in> set fs \<Longrightarrow> g (f r) = g r) \<Longrightarrow> g (fold (\<lambda>f. f) fs r) = g r"
  by (induction fs arbitrary: r) auto

lemma set_clauses_frame:
  assumes "f \<in> set (set_clauses p)"
  shows "tr_task_id (f r) = tr_task_id r" "tr_user_id (f r) = tr_user_id r"
    "tr_created_at (f r) = tr_created_at r" "tr_tag_id (f r) = tr_tag_id r"
    "tr_user_ack (f r) = tr_user_ack r" "tr_admin_deleted (f r) = tr_admin_deleted r"
    "tr_admin_deleted_at (f r) = tr_admin_deleted_at r"
    "tr_reminder_60m_sent_at (f r) = tr_reminder_60m_sent_at r"
    "tr_reminder_15m_sent_at (f r) = tr_reminder_15m_sent_at r"
    "tr_reminder_5m_sent_at (f r) = tr_reminder_5m_sent_at r"
  using assms by (auto simp: set_clauses_def split: option.splits)

text \<open>The row an update leaves: the patched fields, and everything else as it was.\<close>

definition patch_row :: "update_patch \<Rightarrow> string option \<Rightarrow> task_row \<Rightarrow> task_row" where
  "patch_row p tag r = r
     \<lparr>tr_title := (case p_Title p of None \<Rightarrow> tr_title r | Some v \<Rightarrow> v),
      tr_description := (case p_Description p of None \<Rightarrow> tr_description r | Some v \<Rightarrow> v),
      tr_due_date := (case p_DueDate p of None \<Rightarrow> tr_due_date r | Some v \<Rightarrow> v),
      tr_priory := (case p_Priority p of None \<Rightarrow> tr_priory r | Some v \<Rightarrow> v),
      tr_status := (case p_Status p of None \<Rightarrow> tr_status r | Some v \<Rightarrow> StorageCode v),
      tr_tag_id := (case tag of None \<Rightarrow> tr_tag_id r | Some t \<Rightarrow> Some t)\<rparr>"

lemma apply_clauses_patch:
  "apply_clauses (set_clauses p) r = patch_row p None r"
  "apply_clauses (set_clauses p @ [\<lambda>r. r\<lparr>tr_tag_id := Some t\<rparr>]) r = patch_row p (Some t) r"
  by (simp_all add: apply_clauses_def set_clauses_def patch_row_def split: option.splits)

lemma patch_row_frame [simp]:
  "tr_task_id (patch_row p t r) = tr_task_id r" "tr_user_id (patch_row p t r) = tr_user_id r"
  "tr_user_ack (patch_row p t r) = tr_user_ack r"
  "tr_admin_deleted (patch_row p t r) = tr_admin_deleted r"
  by (simp_all add: patch_row_def)


lemma resolve_tag_db_ok: "db_inv.keeps (resolve_tag E i n)"
  unfolding resolve_tag_def Let_def
  by (intro db_inv.bind db_inv.wrap db_inv.ret db_inv.query db_inv.cond db_inv.fresh_id db_inv.run)
    (auto simp: insert_tag_sql_def dest: ins_custom_tag_db_ok)

definition patching :: "(task_row \<Rightarrow> task_row) list \<Rightarrow> bool" where
  "patching cs \<longleftrightarrow> (\<exists>p tag. apply_clauses cs = patch_row p tag)"

lemma patching_simps [simp]:
  "patching (set_clauses p)" "patching (set_clauses p @ [\<lambda>r. r\<lparr>tr_tag_id := Some t\<rparr>])"
  using apply_clauses_patch by (auto simp: patching_def fun_eq_iff)

lemma update_row_sql_db_ok:
  assumes "patching cs" and "update_row_sql E i cs d = Inr (x, d')" and "db_ok d"
  shows "db_ok d'"
proof -
  obtain tid where d': "d' = d\<lparr>tasks := update_where (\<lambda>r. tr_task_id r = tid) (apply_clauses cs) (tasks d)\<rparr>"
    and ok: "\<forall>r \<in> set (tasks d). tr_task_id r = tid \<longrightarrow> status_check (tr_status (apply_clauses cs r))
               \<and> priory_check (tr_priory (apply_clauses cs r))"
    using assms(2) by (auto simp: update_row_sql_def Let_def list_ex_iff split: if_splits)
  obtain p tag where "apply_clauses cs = patch_row p tag"
    using assms(1) by (auto simp: patching_def)
  with d' ok assms(3) show ?thesis by (auto intro!: update_tasks_db_ok)
qed

lemma update_event_sql_db_ok:
  "update_event_sql E o' i j d = Inr (x, d') \<Longrightarrow> db_ok d \<Longrightarrow> db_ok d'"
  by (auto simp: update_event_sql_def dest: ins_event_db_ok)

lemma update_finish_db_ok: "patching cs \<Longrightarrow> db_inv.keeps (update_finish E i cs)"
  unfolding update_finish_def Let_def
  by (intro db_inv.cond db_inv.bind db_inv.wrap db_inv.ret db_inv.query db_inv.fresh_id db_inv.run)
    (auto dest: update_row_sql_db_ok update_event_sql_db_ok)

lemma repo_Update_db_ok: "db_inv.keeps (repo_Update E i p)"
proof -
  have "db_inv.keeps (update_body E i p)"
    by (cases "p_TagName p")
      (auto simp: update_body_def [abs_def]
        intro!: db_inv.cond db_inv.bind db_inv.ret resolve_tag_db_ok update_finish_db_ok)
  then show ?thesis
    unfolding repo_Update_def by (intro db_inv.cond db_inv.ret db_inv.tx)
qed

lemma delete_event_db_ok:
  "ins_all ins_outbox (map (delete_event E oid) rs) d = Inr d' \<Longrightarrow> db_ok d \<Longrightarrow> db_ok d'"
  "ins_all ins_outbox (delete_events E n rs) d = Inr d' \<Longrightarrow> db_ok d \<Longrightarrow> db_ok d'"
proof -
  show "ins_all ins_outbox (map (delete_event E oid) rs) d = Inr d' \<Longrightarrow> db_ok d \<Longrightarrow> db_ok d'"
    by (induction rs arbitrary: d) (auto simp: delete_event_def dest: ins_event_db_ok)
  show "ins_all ins_outbox (delete_events E n rs) d = Inr d' \<Longrightarrow> db_ok d \<Longrightarrow> db_ok d'"
    by (induction rs arbitrary: d n) (auto simp: delete_event_def dest: ins_event_db_ok)
qed

lemma repo_Delete_db_ok: "db_inv.keeps (repo_Delete E i)"
  unfolding repo_Delete_def Let_def
  by (intro db_inv.cond db_inv.fresh_id db_inv.bind db_inv.wrap db_inv.ret db_inv.run)
    (auto simp: delete_sql_def Let_def dest: delete_event_db_ok delete_tasks_db_ok)

lemma repo_DeleteBatch_db_ok: "db_inv.keeps (repo_DeleteBatch E ids)"
  unfolding repo_DeleteBatch_def Let_def
  by (intro db_inv.cond db_inv.fresh_ids db_inv.wrap db_inv.ret db_inv.run)
    (auto simp: delete_batch_sql_def Let_def dest: delete_event_db_ok delete_tasks_db_ok)

section \<open>What a create writes\<close>

text \<open>The tables after a task was created: its row, its event, and the tag it needed.\<close>

definition created :: "env \<Rightarrow> task \<Rightarrow> string \<Rightarrow> string \<Rightarrow> string \<Rightarrow> string \<Rightarrow> custom_tag_row list \<Rightarrow> db \<Rightarrow> db" where
  "created E t tid uid tag oid tags d = d
     \<lparr>custom_tag := custom_tag d @ tags,
      tasks := tasks d @ [new_task_row E t tid uid (Some tag)],
      outbox_events := outbox_events d
        @ [new_event oid tid ''created'' (payload_json (toTaskPayload t)) (now E) 0]\<rparr>"

lemma resolve_or_insert_tag_Inr:
  assumes "resolve_or_insert_tag n name uid d = Inr (tag, d')"
  shows "\<exists>tags. d' = d\<lparr>custom_tag := custom_tag d @ tags\<rparr>
     \<and> (tags = [] \<and> tag \<in> set (tag_resolved d name uid)
        \<or> tags = [\<lparr>ct_tag_id = n, ct_name = name, ct_user_id = uid\<rparr>] \<and> tag = n
          \<and> tag_resolved d name uid = [])"
proof (cases "tag_resolved d name uid")
  case Nil
  with assms show ?thesis
    by (auto simp: resolve_or_insert_tag_def dest!: ins_custom_tag_Inr)
next
  case (Cons i rest)
  with assms have "tag = i" "d' = d" by (auto simp: resolve_or_insert_tag_def)
  with Cons show ?thesis by (intro exI [of _ "[]"]) simp
qed

lemma create_tagged_sql_Inr:
  assumes "create_tagged_sql E t o' (payload_json (toTaskPayload t)) n d = Inr (x, d')"
  shows "\<exists>tid uid tag oid tags. pg_uuid E (t_ID t) = Some tid \<and> pg_uuid E (t_UserID t) = Some uid
     \<and> pg_uuid E o' = Some oid
     \<and> d' = created E t tid uid tag oid tags d
     \<and> (tags = [] \<and> tag \<in> set (tag_resolved d (t_TagName t) uid)
        \<or> tags = [\<lparr>ct_tag_id = n, ct_name = t_TagName t, ct_user_id = uid\<rparr>] \<and> tag = n
          \<and> tag_resolved d (t_TagName t) uid = [])"
proof -
  obtain tid uid oid tag d1 d2 where
    ids: "pg_uuid E (t_ID t) = Some tid" "pg_uuid E (t_UserID t) = Some uid" "pg_uuid E o' = Some oid"
    and tag: "resolve_or_insert_tag n (t_TagName t) uid d = Inr (tag, d1)"
    and ins: "ins_task (new_task_row E t tid uid (Some tag)) d1 = Inr d2"
      "ins_outbox (new_event oid tid ''created'' (payload_json (toTaskPayload t)) (now E) 0) d2 = Inr d'"
    using assms by (auto simp: create_tagged_sql_def)
  obtain tags where "d1 = d\<lparr>custom_tag := custom_tag d @ tags\<rparr>"
    "tags = [] \<and> tag \<in> set (tag_resolved d (t_TagName t) uid)
     \<or> tags = [\<lparr>ct_tag_id = n, ct_name = t_TagName t, ct_user_id = uid\<rparr>] \<and> tag = n
       \<and> tag_resolved d (t_TagName t) uid = []"
    using resolve_or_insert_tag_Inr [OF tag] by blast
  moreover from this ins have "d' = created E t tid uid tag oid tags d"
    by (auto simp: created_def dest!: ins_task_Inr ins_outbox_Inr)
  ultimately show ?thesis using ids by blast
qed

lemma create_plain_sql_Inr:
  assumes "create_plain_sql E t o' (payload_json (toTaskPayload t)) d = Inr (x, d')"
  shows "\<exists>tid uid tag oid. pg_uuid E (t_ID t) = Some tid \<and> pg_uuid E (t_UserID t) = Some uid
     \<and> pg_uuid E o' = Some oid \<and> tag_arg E (t_TagID t) = Inr tag
     \<and> d' = created E t tid uid tag oid [] d"
  using assms
  by (auto simp: create_plain_sql_def created_def dest!: ins_task_Inr ins_outbox_Inr)

text \<open>Where the tag of a created task comes from.\<close>

definition tag_choice :: "env \<Rightarrow> task \<Rightarrow> string \<Rightarrow> db \<Rightarrow> string \<Rightarrow> custom_tag_row list \<Rightarrow> bool" where
  "tag_choice E t uid d tag tags \<longleftrightarrow>
     (if nonblank (t_TagName t)
      then tags = [] \<and> tag \<in> set (tag_resolved d (t_TagName t) uid)
        \<or> tags = [\<lparr>ct_tag_id = tag, ct_name = t_TagName t, ct_user_id = uid\<rparr>]
          \<and> tag_resolved d (t_TagName t) uid = []
      else tags = [] \<and> tag_arg E (t_TagID t) = Inr tag)"

lemma repo_Create_cases:
  assumes "repo_Create E t s = (r, s')"
  obtains (failed) e where "r = Inl e" "store s' = store s"
  | (written) tid uid tag oid tags where
      "pg_uuid E (t_ID t) = Some tid" "pg_uuid E (t_UserID t) = Some uid"
      "store s' = created E t tid uid tag oid tags (store s)"
      "tag_choice E t uid (store s) tag tags" "r = Inr () \<or> (\<exists>e. r = Inl e)"
proof -
  note defs = repo_Create_def Let_def take_id_def tag_choice_def
  show thesis
  proof (cases "nonblank (t_TagName t)")
    case True
    let ?stmt = "create_tagged_sql E t (fresh E (ctr s)) (payload_json (toTaskPayload t)) (fresh E (Suc (ctr s)))"
    let ?s = "s\<lparr>ctr := Suc (Suc (ctr s))\<rparr>"
    obtain r1 where r1: "pg_run ?stmt ?s = (r1, s')" "r = fst (wrap_err ''create task'' (r1, s'))"
      using assms True by (cases "pg_run ?stmt ?s") (auto simp: defs wrap_err_def split: sum.splits)
    from r1(1) show ?thesis
    proof (cases rule: pg_run_cases)
      case kept
      with r1 show ?thesis by (auto intro: failed)
    next
      case (lost e x d)
      with create_tagged_sql_Inr [OF lost(2)] r1 True show ?thesis
        by (auto simp: tag_choice_def intro!: written)
    next
      case (ok x d)
      with create_tagged_sql_Inr [OF ok(2)] r1 True show ?thesis
        by (auto simp: tag_choice_def intro!: written)
    qed
  next
    case False
    let ?stmt = "create_plain_sql E t (fresh E (ctr s)) (payload_json (toTaskPayload t))"
    let ?s = "s\<lparr>ctr := Suc (ctr s)\<rparr>"
    obtain r1 where r1: "pg_run ?stmt ?s = (r1, s')" "r = fst (wrap_err ''create task'' (r1, s'))"
      using assms False by (cases "pg_run ?stmt ?s") (auto simp: defs wrap_err_def split: sum.splits)
    from r1(1) show ?thesis
    proof (cases rule: pg_run_cases)
      case kept
      with r1 show ?thesis by (auto intro: failed)
    next
      case (lost e x d)
      with create_plain_sql_Inr [OF lost(2)] r1 False show ?thesis
        by (auto simp: tag_choice_def intro!: written)
    next
      case (ok x d)
      with create_plain_sql_Inr [OF ok(2)] r1 False show ?thesis
        by (auto simp: tag_choice_def intro!: written)
    qed
  qed
qed


section \<open>Properties of creating tasks\<close>

text \<open>C5: creating a task is all or nothing, whatever happens to the connection: either
  nothing changes and the caller gets an error, or the tables gain exactly the task's row,
  its \<open>created\<close> event with the payload of the task, and at most one tag; success is only
  reported in the second case.\<close>

theorem create_all_or_nothing:
  assumes "repo_Create E t s = (r, s')"
  shows "(store s' = store s \<and> r \<noteq> Inr ())
     \<or> (\<exists>tid uid tag oid tags.
          pg_uuid E (t_ID t) = Some tid \<and> pg_uuid E (t_UserID t) = Some uid
          \<and> length tags \<le> 1
          \<and> store s' = (store s)
              \<lparr>custom_tag := custom_tag (store s) @ tags,
               tasks := tasks (store s) @ [new_task_row E t tid uid (Some tag)],
               outbox_events := outbox_events (store s)
                 @ [new_event oid tid ''created'' (payload_json (toTaskPayload t)) (now E) 0]\<rparr>)"
  using assms
proof (cases rule: repo_Create_cases)
  case failed
  then show ?thesis by simp
next
  case (written tid uid tag oid tags)
  then have "length tags \<le> 1" by (auto simp: tag_choice_def split: if_splits)
  with written show ?thesis by (auto simp: created_def)
qed

text \<open>An environment and a request the witnesses evaluate.\<close>

definition sample_task :: task where
  "sample_task = zero_task\<lparr>t_ID := ''t'', t_UserID := ''u'', t_Title := ''a'',
     t_Priority := PrioryRed, t_Status := StatusInProgress, t_DueDate := 5000\<rparr>"

definition sample_pg :: pg where
  "sample_pg = \<lparr>store = empty_db, faults = [], ctr = 0\<rparr>"

lemmas sample_defs = sample_env_def sample_task_def sample_pg_def zero_task_def empty_db_def

lemma sample_simps [simp]:
  "nonblank (t_TagName sample_task) = False" "t_TagID sample_task = None"
  "store sample_pg = empty_db" "tasks empty_db = []" "custom_tag empty_db = []"
  "outbox_events empty_db = []"
  by (simp_all add: nonblank_def sample_defs)

lemma sample_create:
  "repo_Create sample_env sample_task sample_pg
   = (Inr (), \<lparr>store = created sample_env sample_task ''t'' ''u'' default_tag_id ''i'' [] empty_db,
               faults = [], ctr = 1\<rparr>)"
  by (simp add: repo_Create_def sample_defs take_id_def nonblank_def pg_run_healthy
      create_plain_sql_def uuid_arg_def tag_arg_def ins_task_def ins_outbox_def new_task_row_def
      status_check_def priory_check_def StorageCode_def outbox_key_def int4_ok_def created_def
      new_event_def)

theorem create_all_or_nothing_witness:
  "\<exists>tid uid tag. tasks (store (snd (repo_Create sample_env sample_task sample_pg)))
     = [new_task_row sample_env sample_task tid uid (Some tag)]"
proof -
  obtain tid uid tag oid tags where
    "store (snd (repo_Create sample_env sample_task sample_pg)) = (store sample_pg)
       \<lparr>custom_tag := custom_tag (store sample_pg) @ tags,
        tasks := tasks (store sample_pg) @ [new_task_row sample_env sample_task tid uid (Some tag)],
        outbox_events := outbox_events (store sample_pg)
          @ [new_event oid tid ''created'' (payload_json (toTaskPayload sample_task)) (now sample_env) 0]\<rparr>"
    using create_all_or_nothing [OF sample_create] by (auto simp: sample_create)
  then show ?thesis by auto
qed

text \<open>the tag a created task gets. With a tag name, it is a default tag of that name or
  a tag of that name belonging to the user; a new tag is made only when neither existed.
  Without one, it is the tag id of the request, or the default tag when there is none.\<close>

theorem create_resolves_tag:
  assumes "repo_Create E t s = (Inr (), s')"
  shows "\<exists>uid row tag. pg_uuid E (t_UserID t) = Some uid \<and> row \<in> set (tasks (store s'))
     \<and> Some (tr_task_id row) = pg_uuid E (t_ID t) \<and> tr_tag_id row = Some tag
     \<and> (if nonblank (t_TagName t)
        then tag \<in> set (tag_resolved (store s') (t_TagName t) uid)
           \<and> (custom_tag (store s') \<noteq> custom_tag (store s)
              \<longrightarrow> tag_resolved (store s) (t_TagName t) uid = [])
        else custom_tag (store s') = custom_tag (store s)
           \<and> (case t_TagID t of None \<Rightarrow> tag = default_tag_id | Some i \<Rightarrow> pg_uuid E i = Some tag))"
  using assms
proof (cases rule: repo_Create_cases)
  case (written tid uid tag oid tags)
  have "new_task_row E t tid uid (Some tag) \<in> set (tasks (store s'))"
    by (simp add: written created_def)
  moreover have "if nonblank (t_TagName t)
        then tag \<in> set (tag_resolved (store s') (t_TagName t) uid)
           \<and> (custom_tag (store s') \<noteq> custom_tag (store s)
              \<longrightarrow> tag_resolved (store s) (t_TagName t) uid = [])
        else custom_tag (store s') = custom_tag (store s)
           \<and> (case t_TagID t of None \<Rightarrow> tag = default_tag_id | Some i \<Rightarrow> pg_uuid E i = Some tag)"
    using written(3,4)
    by (cases "nonblank (t_TagName t)"; cases "t_TagID t")
      (auto simp: created_def tag_choice_def tag_resolved_def tag_arg_def image_iff)
  ultimately show ?thesis
    using written(1,2)
    by (rule_tac exI [of _ uid], rule_tac exI [of _ "new_task_row E t tid uid (Some tag)"],
        rule_tac exI [of _ tag]) (simp add: new_task_row_def)
qed simp

theorem create_resolves_tag_witness:
  "\<exists>row \<in> set (tasks (store (snd (repo_Create sample_env sample_task sample_pg)))).
     tr_tag_id row = Some default_tag_id"
proof -
  obtain row tag where "row \<in> set (tasks (store (snd (repo_Create sample_env sample_task sample_pg))))"
    "tr_tag_id row = Some tag" "case t_TagID sample_task of None \<Rightarrow> tag = default_tag_id
       | Some i \<Rightarrow> pg_uuid sample_env i = Some tag"
    using create_resolves_tag [OF sample_create]
    by (auto simp: sample_create)
  then show ?thesis by auto
qed

lemma batch_rows_fields:
  assumes "batch_rows E ts = Inr rs"
  shows "map tr_title rs = map t_Title ts \<and> map (Some \<circ> tr_task_id) rs = map (pg_uuid E \<circ> t_ID) ts
    \<and> map (Some \<circ> tr_user_id) rs = map (pg_uuid E \<circ> t_UserID) ts
    \<and> map tr_status rs = map (StorageCode \<circ> t_Status) ts"
  using assms by (induction ts arbitrary: rs) (auto simp: new_task_row_def)

lemma batch_events_fields:
  assumes "batch_events E n ts = Inr es"
  shows "map ob_event_data es = map (payload_json \<circ> toTaskPayload) ts
    \<and> map (Some \<circ> ob_aggregate_id) es = map (pg_uuid E \<circ> t_ID) ts
    \<and> list_all (\<lambda>e. ob_event_type e = ''created'' \<and> ob_processed_at e = None) es"
  using assms by (induction ts arbitrary: es n) (auto simp: new_event_def)

lemma create_batch_body_Inr:
  assumes "create_batch_body E n ts s = (Inr x, s')"
  shows "\<exists>rs es. batch_rows E ts = Inr rs \<and> batch_events E n ts = Inr es
    \<and> store s' = (store s)\<lparr>tasks := tasks (store s) @ rs, outbox_events := outbox_events (store s) @ es\<rparr>"
proof -
  obtain u s1 where s1: "pg_run (batch_tasks_sql E ts) s = (Inr u, s1)"
    and s2: "pg_run (batch_events_sql E n ts) s1 = (Inr x, s')"
    using assms by (auto simp: create_batch_body_def wrap_err_def split: prod.splits sum.splits)
  have "batch_tasks_sql E ts (store s) = Inr (u, store s1)"
    using s1 by (cases rule: pg_run_cases) auto
  moreover have "batch_events_sql E n ts (store s1) = Inr (x, store s')"
    using s2 by (cases rule: pg_run_cases) auto
  ultimately show ?thesis
    by (auto simp: batch_tasks_sql_def batch_events_sql_def dest!: ins_all_task ins_all_outbox)
qed

text \<open>a batch of creates is all or nothing: either the tables are unchanged, or every
  task of the batch has its row and its \<open>created\<close> event, in the order of the batch, and
  nothing else changed. Success is only reported in the second case.\<close>

theorem create_batch_all_or_nothing:
  assumes "repo_CreateBatch E ts s = (r, s')" and "ts \<noteq> []"
  shows "(store s' = store s \<and> r \<noteq> Inr ())
     \<or> (\<exists>rs es.
          store s' = (store s)\<lparr>tasks := tasks (store s) @ rs,
                              outbox_events := outbox_events (store s) @ es\<rparr>
          \<and> map (Some \<circ> tr_task_id) rs = map (pg_uuid E \<circ> t_ID) ts
          \<and> map (Some \<circ> tr_user_id) rs = map (pg_uuid E \<circ> t_UserID) ts
          \<and> map tr_title rs = map t_Title ts
          \<and> map (Some \<circ> ob_aggregate_id) es = map (pg_uuid E \<circ> t_ID) ts
          \<and> map ob_event_data es = map (payload_json \<circ> toTaskPayload) ts
          \<and> list_all (\<lambda>e. ob_event_type e = ''created'' \<and> ob_processed_at e = None) es)"
proof -
  have tx: "pg_tx ''create batch begin tx'' (Wrap ''create batch commit'')
      (create_batch_body E (ctr s) ts) (s\<lparr>ctr := ctr s + length ts\<rparr>) = (r, s')"
    using assms by (simp add: repo_CreateBatch_def Let_def)
  then show ?thesis
  proof (cases rule: pg_tx_cases)
    case undone
    then show ?thesis by simp
  next
    case (committed x s1 s2)
    obtain rs es where "batch_rows E ts = Inr rs" "batch_events E (ctr s) ts = Inr es"
      "store s2 = (store s1)\<lparr>tasks := tasks (store s1) @ rs, outbox_events := outbox_events (store s1) @ es\<rparr>"
      using create_batch_body_Inr [OF committed(3)] by blast
    with committed batch_rows_fields batch_events_fields show ?thesis
      by (intro disjI2 exI [of _ rs]) (rule exI [of _ es], simp)
  qed
qed

lemma sample_batch:
  "\<exists>s'. repo_CreateBatch sample_env [sample_task, sample_task\<lparr>t_ID := ''t2''\<rparr>] sample_pg = (Inr (), s')"
  by (simp add: repo_CreateBatch_def sample_defs pg_tx_def next_net_def create_batch_body_def
      pg_run_def batch_tasks_sql_def batch_events_sql_def batch_tag_def tag_arg_def
      uuid_arg_def ins_task_def ins_outbox_def new_task_row_def status_check_def priory_check_def
      StorageCode_def outbox_key_def int4_ok_def new_event_def)

theorem create_batch_all_or_nothing_witness:
  "map tr_title (tasks (store (snd (repo_CreateBatch sample_env
      [sample_task, sample_task\<lparr>t_ID := ''t2''\<rparr>] sample_pg)))) = [''a'', ''a'']"
proof -
  let ?ts = "[sample_task, sample_task\<lparr>t_ID := ''t2''\<rparr>]"
  obtain s' where s': "repo_CreateBatch sample_env ?ts sample_pg = (Inr (), s')"
    using sample_batch by blast
  obtain rs es where "tasks (store s') = tasks (store sample_pg) @ rs" "map tr_title rs = map t_Title ?ts"
    using create_batch_all_or_nothing [OF s'] by auto
  with s' show ?thesis by (simp add: sample_task_def zero_task_def)
qed

interpretation tag_frame: store_rel "\<lambda>d d'. \<exists>tags. d' = d\<lparr>custom_tag := custom_tag d @ tags\<rparr>"
proof
  show "\<exists>tags. d = d\<lparr>custom_tag := custom_tag d @ tags\<rparr>" for d
    by (rule exI [of _ "[]"]) simp
qed auto

lemma resolve_tag_tables:
  "resolve_tag E i n s = (r, s') \<Longrightarrow>
     \<exists>tags. store s' = (store s)\<lparr>custom_tag := custom_tag (store s) @ tags\<rparr>"
proof -
  have "tag_frame.keeps (resolve_tag E i n)"
    unfolding resolve_tag_def Let_def
    by (intro tag_frame.bind tag_frame.wrap tag_frame.ret tag_frame.query tag_frame.cond
        tag_frame.fresh_id tag_frame.run)
      (auto simp: insert_tag_sql_def dest!: ins_custom_tag_Inr)
  then show "resolve_tag E i n s = (r, s') \<Longrightarrow> ?thesis"
    by (rule tag_frame.keepsD)
qed

text \<open>What a successful \<open>update_finish\<close> did, statement by statement.\<close>

lemma update_finish_Inr:
  assumes "update_finish E i cs s = (Inr t, s')"
    and ids: "\<And>r. tr_task_id (apply_clauses cs r) = tr_task_id r"
  shows "\<exists>tid row oid. pg_uuid E i = Some tid \<and> find_row (\<lambda>r. tr_task_id r = tid) (tasks (store s)) = Some row
     \<and> t = modelToEntity E ((row_model (store s) (apply_clauses cs row))
             \<lparr>m_Reminder60mSentAt := None, m_Reminder15mSentAt := None, m_Reminder5mSentAt := None\<rparr>)
     \<and> store s' = (store s)
         \<lparr>tasks := update_where (\<lambda>r. tr_task_id r = tid) (apply_clauses cs) (tasks (store s)),
          outbox_events := outbox_events (store s)
            @ [new_event oid tid ''update'' (payload_json (toTaskPayload t)) (now E)
                 (next_version (store s) tid)]\<rparr>"
proof -
  from assms(1) obtain n s1 m s2 u where
    upd: "pg_run (update_row_sql E i cs) s = (Inr n, s1)"
    and fetch: "pg_query (fetch_updated_sql E i) s1 = (Inr m, s2)"
    and t: "t = modelToEntity E m"
    and ev: "pg_run (update_event_sql E (fresh E (ctr s2)) i (payload_json (toTaskPayload t)))
               (s2\<lparr>ctr := Suc (ctr s2)\<rparr>) = (Inr u, s')"
    by (auto simp: update_finish_def Let_def take_id_def wrap_err_def
        split: if_splits prod.splits sum.splits)
  obtain tid where tid: "pg_uuid E i = Some tid"
    and s1: "store s1 = (store s)\<lparr>tasks := update_where (\<lambda>r. tr_task_id r = tid) (apply_clauses cs) (tasks (store s))\<rparr>"
    using upd by (cases rule: pg_run_cases) (auto simp: update_row_sql_def Let_def split: if_splits)
  have s2: "store s2 = store s1" using pg_query_store [OF fetch] by simp
  have "fetch_updated_sql E i (store s1) = Inr m" using fetch by (rule pg_query_Inr)
  then obtain row' where row': "find_row (\<lambda>r. tr_task_id r = tid) (tasks (store s1)) = Some row'"
    and m: "m = (row_model (store s1) row')
      \<lparr>m_Reminder60mSentAt := None, m_Reminder15mSentAt := None, m_Reminder5mSentAt := None\<rparr>"
    using tid by (auto simp: fetch_updated_sql_def find_task_sql_def split: option.splits)
  from row' obtain row where row: "find_row (\<lambda>r. tr_task_id r = tid) (tasks (store s)) = Some row"
    "row' = apply_clauses cs row"
    using ids by (auto simp: s1 find_row_update_hit)
  have model: "row_model (store s1) r = row_model (store s) r" for r
    by (simp add: row_model_def s1 default_name_def custom_name_def)
  obtain oid where "store s' = (store s1)\<lparr>outbox_events := outbox_events (store s1)
      @ [new_event oid tid ''update'' (payload_json (toTaskPayload t)) (now E) (next_version (store s1) tid)]\<rparr>"
    using ev tid s2 by (cases rule: pg_run_cases) (auto simp: update_event_sql_def dest!: ins_outbox_Inr)
  moreover have "next_version (store s1) tid = next_version (store s) tid"
    by (simp add: s1 next_version_def update_versions_def)
  ultimately show ?thesis
    using tid row m t model s1 by auto
qed

text \<open>An update ends in \<open>update_finish\<close>, after the tag of the patch was resolved.\<close>

lemma update_body_finish:
  assumes "update_body E i p s = (Inr t, s')"
  obtains tag s3 tags cs where "store s3 = (store s)\<lparr>custom_tag := custom_tag (store s) @ tags\<rparr>"
    "update_finish E i cs s3 = (Inr t, s')" "apply_clauses cs = patch_row p tag"
    "tag = None \<longleftrightarrow> \<not> (\<exists>name. p_TagName p = Some name \<and> nonblank name)"
proof (cases "\<exists>name. p_TagName p = Some name \<and> nonblank name")
  case False
  then have "update_finish E i (set_clauses p) s = (Inr t, s')"
    using assms by (auto simp: update_body_def split: option.splits)
  then show thesis
    using False apply_clauses_patch(1) by (intro that [of s "[]" "set_clauses p" None]) (auto simp: fun_eq_iff)
next
  case True
  then obtain name tag s3 where "resolve_tag E i name s = (Inr tag, s3)"
    and fin: "update_finish E i (set_clauses p @ [\<lambda>r. r\<lparr>tr_tag_id := Some tag\<rparr>]) s3 = (Inr t, s')"
    using assms by (auto simp: update_body_def split: prod.splits sum.splits)
  then obtain tags where "store s3 = (store s)\<lparr>custom_tag := custom_tag (store s) @ tags\<rparr>"
    using resolve_tag_tables by blast
  moreover have "apply_clauses (set_clauses p @ [\<lambda>r. r\<lparr>tr_tag_id := Some tag\<rparr>]) = patch_row p (Some tag)"
    using apply_clauses_patch(2) by (auto simp: fun_eq_iff)
  ultimately show thesis using True fin by (intro that [of s3 tags _ "Some tag"]) auto
qed

text \<open>C9: a successful update patches exactly the row of that task (unset fields, owner,
  creation time, reminder marks and the administrator's marks stay), returns the task as it
  then is, and adds one \<open>update\<close> event carrying the returned task, whose version is the
  number of update events of the task so far.\<close>

theorem update_patches_one_row:
  assumes "repo_Update E i p s = (Inr t, s')" and "versions_ok (store s)"
  shows "\<exists>tid row tag oid tags.
     pg_uuid E i = Some tid
     \<and> find_row (\<lambda>r. tr_task_id r = tid) (tasks (store s)) = Some row
     \<and> store s' = (store s)
         \<lparr>custom_tag := custom_tag (store s) @ tags,
          tasks := update_where (\<lambda>r. tr_task_id r = tid) (patch_row p tag) (tasks (store s)),
          outbox_events := outbox_events (store s)
            @ [new_event oid tid ''update'' (payload_json (toTaskPayload t)) (now E)
                 (int (length (update_versions (store s) tid)))]\<rparr>
     \<and> t_ID t = tid \<and> t_UserID t = tr_user_id row
     \<and> t_Title t = tr_title (patch_row p tag row)
     \<and> t_Status t = shown_status E (NewStatus (tr_status (patch_row p tag row)))
                      (tr_due_date (patch_row p tag row))
     \<and> (tag = None \<longleftrightarrow> \<not> (\<exists>name. p_TagName p = Some name \<and> nonblank name))"
proof -
  have "pg_tx ''begin tx'' (Wrap ''commit update tx'') (update_body E i p) s = (Inr t, s')"
    using assms(1) by (auto simp: repo_Update_def split: if_splits)
  then obtain s1 s2 where tx: "store s1 = store s" "update_body E i p s1 = (Inr t, s2)"
    "store s' = store s2"
    by (cases rule: pg_tx_cases) auto
  obtain tag s3 tags cs where s3: "store s3 = (store s)\<lparr>custom_tag := custom_tag (store s) @ tags\<rparr>"
    and fin: "update_finish E i cs s3 = (Inr t, s2)" and cs: "apply_clauses cs = patch_row p tag"
    and tag: "tag = None \<longleftrightarrow> \<not> (\<exists>name. p_TagName p = Some name \<and> nonblank name)"
    using update_body_finish [OF tx(2)] tx(1) by metis
  obtain tid row oid where r: "pg_uuid E i = Some tid"
    "find_row (\<lambda>r. tr_task_id r = tid) (tasks (store s3)) = Some row"
    "t = modelToEntity E ((row_model (store s3) (patch_row p tag row))
       \<lparr>m_Reminder60mSentAt := None, m_Reminder15mSentAt := None, m_Reminder5mSentAt := None\<rparr>)"
    "store s2 = (store s3)
       \<lparr>tasks := update_where (\<lambda>r. tr_task_id r = tid) (patch_row p tag) (tasks (store s3)),
        outbox_events := outbox_events (store s3)
          @ [new_event oid tid ''update'' (payload_json (toTaskPayload t)) (now E)
               (next_version (store s3) tid)]\<rparr>"
    using update_finish_Inr [OF fin] cs by auto
  have "next_version (store s3) tid = int (length (update_versions (store s) tid))"
    using next_version_length [OF assms(2), of tid] by (simp add: s3 next_version_def update_versions_def)
  moreover have "tr_task_id row = tid" using r(2) by (auto dest: find_row_Some)
  ultimately show ?thesis
    using r tag tx(3) s3
    by (intro exI [of _ tid] exI [of _ row]) (rule exI [of _ tag], rule exI [of _ oid],
        rule exI [of _ tags], simp add: modelToEntity_def row_model_def)
qed


definition sample_row :: task_row where
  "sample_row = new_task_row sample_env sample_task ''t'' ''u'' (Some default_tag_id)"

definition sample_pg1 :: pg where
  "sample_pg1 = \<lparr>store = empty_db\<lparr>tasks := [sample_row]\<rparr>, faults = [], ctr = 0\<rparr>"

definition sample_patch :: update_patch where
  "sample_patch = empty_patch\<lparr>p_Title := Some ''b'', p_Status := Some StatusCompleted\<rparr>"

lemma sample_update:
  "\<exists>t s'. repo_Update sample_env ''t'' sample_patch sample_pg1 = (Inr t, s')"
  by (simp add: repo_Update_def update_body_def update_finish_def sample_pg1_def sample_row_def
      sample_patch_def empty_patch_def set_clauses_def apply_clauses_def sample_defs pg_tx_def
      next_net_def pg_run_def update_row_sql_def uuid_arg_def new_task_row_def status_check_def
      priory_check_def StorageCode_def pg_query_def fetch_updated_sql_def find_task_sql_def
      take_id_def update_event_sql_def ins_outbox_def next_version_def update_versions_def
      new_event_def outbox_key_def int4_ok_def Let_def)

theorem update_patches_one_row_witness:
  "\<exists>t s'. repo_Update sample_env ''t'' sample_patch sample_pg1 = (Inr t, s') \<and> t_UserID t = ''u''"
proof -
  obtain t s' where u: "repo_Update sample_env ''t'' sample_patch sample_pg1 = (Inr t, s')"
    using sample_update by blast
  have "versions_ok (store sample_pg1)" by (simp add: versions_ok_def sample_pg1_def)
  then obtain row where "find_row (\<lambda>r. tr_task_id r = t_ID t) (tasks (store sample_pg1)) = Some row"
    "t_UserID t = tr_user_id row"
    using update_patches_one_row [OF u] by auto
  with u show ?thesis
    by (auto simp: sample_pg1_def sample_row_def new_task_row_def split: if_splits)
qed

text \<open>an update that fails leaves the tables as they were, except that a commit whose
  reply was lost may have been carried out; a patch without any field always fails and
  never changes anything.\<close>

theorem update_failure:
  "(case repo_Update E i p s of
      (Inl e, s') \<Rightarrow> store s' = store s \<or> e = Wrap ''commit update tx'' (DbError ''connection'')
    | (Inr t, s') \<Rightarrow> p \<noteq> empty_patch)
   \<and> store (snd (repo_Update E i empty_patch s)) = store s"
proof (cases "uuid_Parse E i")
  case False
  then show ?thesis by (simp add: repo_Update_def)
next
  case True
  have empty: "\<exists>e. update_body E i empty_patch s1 = (Inl e, s1)" for s1
    by (simp add: update_body_def empty_patch_def update_finish_def set_clauses_def)
  have tx: "repo_Update E i q s = pg_tx ''begin tx'' (Wrap ''commit update tx'') (update_body E i q) s" for q
    using True by (simp add: repo_Update_def)
  obtain r s' where r: "repo_Update E i empty_patch s = (r, s')" by force
  have none: "store s' = store s \<and> (\<exists>e. r = Inl e)"
    using r unfolding tx
  proof (cases rule: pg_tx_cases)
    case (committed x s1 s2)
    then show ?thesis using empty [of s1] by auto
  qed auto
  have "case repo_Update E i p s of
      (Inl e, s') \<Rightarrow> store s' = store s \<or> e = Wrap ''commit update tx'' (DbError ''connection'')
    | (Inr t, s') \<Rightarrow> p \<noteq> empty_patch"
    using none r tx [of p] 
    by (auto simp: pg_tx_def dest: next_netE split: prod.splits sum.splits net.splits)
  then show ?thesis using none r by simp
qed

section \<open>Properties of deleting tasks\<close>

lemma delete_sql_Inr:
  assumes "delete_sql E i o' d = Inr (n, d')" and "schema_ok d"
  shows "\<exists>tid oid. pg_uuid E i = Some tid \<and> pg_uuid E o' = Some oid
     \<and> n = length (filter (\<lambda>r. tr_task_id r = tid) (tasks d))
     \<and> d' = (delete_tasks (\<lambda>r. tr_task_id r = tid) d)
         \<lparr>outbox_events := outbox_events d
            @ map (delete_event E oid) (filter (\<lambda>r. tr_task_id r = tid) (tasks d))\<rparr>"
  using assms
  by (auto simp: delete_sql_def Let_def delete_tasks_def dest!: ins_all_outbox)

lemma keyed_rows:
  assumes "distinct (map k t)"
  shows "filter (\<lambda>r. k r = x) t = (case find_row (\<lambda>r. k r = x) t of None \<Rightarrow> [] | Some r \<Rightarrow> [r])"
proof (cases "find_row (\<lambda>r. k r = x) t")
  case None
  then have "\<forall>r \<in> set t. k r \<noteq> x" using find_row_None [of "\<lambda>r. k r = x" t] by simp
  then show ?thesis using None by (simp add: filter_empty_conv)
next
  case (Some r)
  then have "r \<in> set t" "k r = x" by (auto dest: find_row_Some)
  with Some filter_key_singleton [OF assms] show ?thesis by auto
qed

text \<open>What the statement of \<open>Delete\<close> does: nothing, or it takes one row and its subtasks away.\<close>

definition removed :: "env \<Rightarrow> string \<Rightarrow> db \<Rightarrow> db \<Rightarrow> bool" where
  "removed E i d d' \<longleftrightarrow> (\<exists>tid oid row. pg_uuid E i = Some tid
     \<and> find_row (\<lambda>q. tr_task_id q = tid) (tasks d) = Some row
     \<and> d' = d\<lparr>tasks := filter (\<lambda>q. tr_task_id q \<noteq> tid) (tasks d),
          subtasks := filter (\<lambda>q. sr_task_id q \<noteq> tid) (subtasks d),
          outbox_events := outbox_events d
            @ [new_event oid tid ''deleted'' (deleted_json row) (now E) 0]\<rparr>)"

lemma delete_sql_removes:
  assumes "delete_sql E i o' d = Inr (n, d')" and "schema_ok d"
  shows "n = 0 \<and> d' = d \<or> n = 1 \<and> removed E i d d'"
proof -
  obtain tid oid where d: "pg_uuid E i = Some tid"
    "n = length (filter (\<lambda>r. tr_task_id r = tid) (tasks d))"
    "d' = (delete_tasks (\<lambda>r. tr_task_id r = tid) d)
       \<lparr>outbox_events := outbox_events d
          @ map (delete_event E oid) (filter (\<lambda>r. tr_task_id r = tid) (tasks d))\<rparr>"
    using delete_sql_Inr [OF assms] by blast
  have rows: "filter (\<lambda>r. tr_task_id r = tid) (tasks d)
      = (case find_row (\<lambda>r. tr_task_id r = tid) (tasks d) of None \<Rightarrow> [] | Some r \<Rightarrow> [r])"
    by (rule keyed_rows) (rule schema_okD [OF assms(2)])
  show ?thesis
  proof (cases "find_row (\<lambda>r. tr_task_id r = tid) (tasks d)")
    case None
    then have "filter (\<lambda>r. tr_task_id r \<noteq> tid) (tasks d) = tasks d" by (simp add: find_row_None)
    with None rows d show ?thesis by (simp add: delete_tasks_def)
  next
    case (Some row)
    then have "tr_task_id row = tid" by (auto dest: find_row_Some)
    with Some rows d show ?thesis by (auto simp: removed_def delete_tasks_def delete_event_def)
  qed
qed

text \<open>C13: a successful delete removes the row of that task and its subtasks, nothing else,
  and leaves exactly one \<open>deleted\<close> event with the document of the removed row. A delete
  that reports no such task changes nothing.\<close>

theorem delete_removes_and_notifies:
  assumes "repo_Delete E i s = (r, s')" and "schema_ok (store s)"
  shows "(store s' = store s \<and> r \<noteq> Inr ())
     \<or> (\<exists>tid oid row. pg_uuid E i = Some tid
          \<and> find_row (\<lambda>q. tr_task_id q = tid) (tasks (store s)) = Some row
          \<and> store s' = (store s)
              \<lparr>tasks := filter (\<lambda>q. tr_task_id q \<noteq> tid) (tasks (store s)),
               subtasks := filter (\<lambda>q. sr_task_id q \<noteq> tid) (subtasks (store s)),
               outbox_events := outbox_events (store s)
                 @ [new_event oid tid ''deleted'' (deleted_json row) (now E) 0]\<rparr>
          \<and> r \<noteq> Inl (Msg ''task not found''))"
proof (cases "uuid_Parse E i")
  case False
  with assms(1) show ?thesis by (auto simp: repo_Delete_def)
next
  case True
  let ?s = "s\<lparr>ctr := Suc (ctr s)\<rparr>"
  let ?stmt = "delete_sql E i (fresh E (ctr s))"
  obtain v s1 where v: "pg_run ?stmt ?s = (v, s1)" by force
  have r: "s' = s1 \<and> (case v of Inl e \<Rightarrow> r = Inl (Wrap ''delete task'' e)
      | Inr n \<Rightarrow> r = (if n = 0 then Inl (Msg ''task not found'') else Inr ()))"
    using assms(1) True v by (auto simp: repo_Delete_def take_id_def split: sum.splits if_splits)
  have main: "n = 0 \<and> d = store s \<or> n = 1 \<and> removed E i (store s) d" if "?stmt (store s) = Inr (n, d)" for n d
    using delete_sql_removes [OF that assms(2)] .
  have "store s' = store s \<and> r \<noteq> Inr () \<or> removed E i (store s) (store s') \<and> r \<noteq> Inl (Msg ''task not found'')"
    using v
  proof (cases rule: pg_run_cases)
    case kept
    with r show ?thesis by simp
  next
    case (lost e n d)
    then show ?thesis using r main [of n d] by auto
  next
    case (ok n d)
    then show ?thesis using r main [of n d] by auto
  qed
  then show ?thesis unfolding removed_def by blast
qed

lemma sample_delete: "\<exists>s'. repo_Delete sample_env ''t'' sample_pg1 = (Inr (), s')"
  by (simp add: repo_Delete_def sample_pg1_def sample_row_def sample_defs take_id_def pg_run_def
      next_net_def delete_sql_def uuid_arg_def new_task_row_def delete_tasks_def delete_event_def
      ins_outbox_def int4_ok_def Let_def new_event_def outbox_key_def)

theorem delete_removes_and_notifies_witness:
  "tasks (store (snd (repo_Delete sample_env ''t'' sample_pg1))) = []"
proof -
  obtain s' where s': "repo_Delete sample_env ''t'' sample_pg1 = (Inr (), s')"
    using sample_delete by blast
  have "schema_ok (store sample_pg1)"
    by (simp add: schema_ok_def sample_pg1_def sample_row_def sample_defs new_task_row_def
        status_check_def priory_check_def StorageCode_def)
  then obtain tid row where "pg_uuid sample_env ''t'' = Some tid"
    "tasks (store s') = filter (\<lambda>q. tr_task_id q \<noteq> tid) (tasks (store sample_pg1))"
    using delete_removes_and_notifies [OF s'] by auto
  with s' show ?thesis by (simp add: sample_pg1_def sample_row_def sample_defs new_task_row_def)
qed

lemma delete_events_fields:
  "map ob_aggregate_id (delete_events E n rs) = map tr_task_id rs
   \<and> map ob_event_data (delete_events E n rs) = map deleted_json rs
   \<and> list_all (\<lambda>e. ob_event_type e = ''deleted'') (delete_events E n rs)"
  by (induction rs arbitrary: n) (auto simp: delete_event_def)

text \<open>a batch delete removes exactly the rows of the listed ids, all of them or none,
  with their subtasks, and adds one \<open>deleted\<close> event per removed row; ids without a row are
  ignored, and one text that is not a UUID makes the whole batch fail.\<close>

theorem delete_batch_all_or_nothing:
  assumes "repo_DeleteBatch E ids s = (r, s')" and "ids \<noteq> []"
  shows "(store s' = store s \<and> r \<noteq> Inr ())
     \<or> (\<exists>tids es. map (pg_uuid E) ids = map Some tids
          \<and> tasks (store s') = filter (\<lambda>q. tr_task_id q \<notin> set tids) (tasks (store s))
          \<and> outbox_events (store s') = outbox_events (store s) @ es
          \<and> map ob_aggregate_id es = map tr_task_id (filter (\<lambda>q. tr_task_id q \<in> set tids) (tasks (store s)))
          \<and> map ob_event_data es = map deleted_json (filter (\<lambda>q. tr_task_id q \<in> set tids) (tasks (store s)))
          \<and> list_all (\<lambda>e. ob_event_type e = ''deleted'') es
          \<and> set (subtasks (store s')) = {q \<in> set (subtasks (store s)).
               \<forall>p \<in> set (tasks (store s)). tr_task_id p = sr_task_id q \<longrightarrow> tr_task_id p \<notin> set tids})"
proof -
  let ?s = "s\<lparr>ctr := ctr s + length ids\<rparr>"
  obtain v s1 where v: "pg_run (delete_batch_sql E (ctr s) ids) ?s = (v, s1)" by force
  with assms have r: "s' = s1" "r = Inr () \<longleftrightarrow> v = Inr ()"
    by (auto simp: repo_DeleteBatch_def Let_def wrap_err_def split: sum.splits)
  have main: "\<exists>tids es. map (pg_uuid E) ids = map Some tids
          \<and> tasks d = filter (\<lambda>q. tr_task_id q \<notin> set tids) (tasks (store s))
          \<and> outbox_events d = outbox_events (store s) @ es
          \<and> map ob_aggregate_id es = map tr_task_id (filter (\<lambda>q. tr_task_id q \<in> set tids) (tasks (store s)))
          \<and> map ob_event_data es = map deleted_json (filter (\<lambda>q. tr_task_id q \<in> set tids) (tasks (store s)))
          \<and> list_all (\<lambda>e. ob_event_type e = ''deleted'') es
          \<and> set (subtasks d) = {q \<in> set (subtasks (store s)).
               \<forall>p \<in> set (tasks (store s)). tr_task_id p = sr_task_id q \<longrightarrow> tr_task_id p \<notin> set tids}"
    if run: "delete_batch_sql E (ctr s) ids (store s) = Inr (x, d)" for x d
  proof -
    let ?hit = "\<lambda>tids. filter (\<lambda>q. tr_task_id q \<in> set tids) (tasks (store s))"
    obtain tids where tids: "uuid_args E ids = Inr tids"
      and d: "d = (delete_tasks (\<lambda>q. tr_task_id q \<in> set tids) (store s))
         \<lparr>outbox_events := outbox_events (store s) @ delete_events E (ctr s) (?hit tids)\<rparr>"
      using run by (auto simp: delete_batch_sql_def Let_def delete_tasks_def dest!: ins_all_outbox)
    have "map (pg_uuid E) ids = map Some tids" using tids by (simp add: uuid_args_Inr)
    moreover have "set (subtasks d) = {q \<in> set (subtasks (store s)).
         \<forall>p \<in> set (tasks (store s)). tr_task_id p = sr_task_id q \<longrightarrow> tr_task_id p \<notin> set tids}"
      by (auto simp: d delete_tasks_def image_iff)
    ultimately show ?thesis
      using delete_events_fields [of E "ctr s" "?hit tids"]
      by (intro exI [of _ tids] exI [of _ "delete_events E (ctr s) (?hit tids)"])
        (simp add: d delete_tasks_def)
  qed
  from v show ?thesis
  proof (cases rule: pg_run_cases)
    case kept
    with r show ?thesis by simp
  next
    case (lost e x d)
    then show ?thesis using r main [of x d] by simp
  next
    case (ok x d)
    then show ?thesis using r main [of x d] by simp
  qed
qed

lemma sample_delete_batch: "\<exists>s'. repo_DeleteBatch sample_env [''z'', ''t''] sample_pg1 = (Inr (), s')"
  by (simp add: repo_DeleteBatch_def sample_pg1_def sample_row_def sample_defs pg_run_def
      next_net_def delete_batch_sql_def uuid_arg_def new_task_row_def delete_tasks_def delete_event_def
      ins_outbox_def int4_ok_def Let_def new_event_def outbox_key_def)

theorem delete_batch_all_or_nothing_witness:
  "tasks (store (snd (repo_DeleteBatch sample_env [''z'', ''t''] sample_pg1))) = []"
proof -
  obtain s' where s': "repo_DeleteBatch sample_env [''z'', ''t''] sample_pg1 = (Inr (), s')"
    using sample_delete_batch by blast
  have "[''z'', ''t''] \<noteq> []" by simp
  then obtain tids where "map (pg_uuid sample_env) [''z'', ''t''] = map Some tids"
    "tasks (store s') = filter (\<lambda>q. tr_task_id q \<notin> set tids) (tasks (store sample_pg1))"
    using delete_batch_all_or_nothing [OF s'] by blast
  with s' show ?thesis
    by (auto simp: sample_pg1_def sample_row_def sample_defs new_task_row_def)
qed

section \<open>Properties of the lists\<close>

lemma repo_FindByUser_Ret: "\<exists>r. repo_FindByUser E Q u so fo s = Ret r"
  using build_conditions_texts [of "fo_Fields fo"]
  by (auto simp: repo_FindByUser_def buildFilterConditions_def split: prod.splits)

text \<open>C27: the list of a user never panics, whatever filter and order the client sends, and
  holds only tasks of that user that are not hidden (deleted by the administrator and
  acknowledged), with the status the row and the clock give, as long as the server's
  evaluation of the client's conditions and order only selects and reorders rows.\<close>

theorem find_by_user_own_and_visible:
  assumes "engine_restricts Q (buildOrderBy so)"
  shows "\<exists>r s'. repo_FindByUser E Q u so fo s = Ret (r, s') \<and> store s' = store s
     \<and> (case r of Inl e \<Rightarrow> True
        | Inr ts \<Rightarrow> list_all (\<lambda>t. \<exists>row \<in> set (tasks (store s)).
             pg_uuid E u = Some (tr_user_id row) \<and> tl_UserID t = tr_user_id row
             \<and> tl_ID t = tr_task_id row
             \<and> \<not> (is_true (tr_admin_deleted row) \<and> is_true (tr_user_ack row))
             \<and> tl_AdminDeleted t = is_true (tr_admin_deleted row)
             \<and> tl_Status t = shown_status E (NewStatus (tr_status row)) (tr_due_date row)) ts)"
proof -
  obtain cs where "repo_FindByUser E Q u so fo s
      = Ret (wrap_err ''query FindByUser'' (pg_query (find_by_user_sql E Q u (buildOrderBy so) cs) s))"
    using repo_FindByUser_Ret [of E Q u so fo s]
    by (auto simp: repo_FindByUser_def split: prod.splits outcome.splits)
  moreover obtain r s' where q: "pg_query (find_by_user_sql E Q u (buildOrderBy so) cs) s = (r, s')"
    by force
  ultimately have run: "repo_FindByUser E Q u so fo s = Ret (wrap_err ''query FindByUser'' (r, s'))"
    by simp
  have st: "store s' = store s" using pg_query_store [OF q] by simp
  show ?thesis
  proof (cases r)
    case Inl
    with run st show ?thesis by simp
  next
    case (Inr ts)
    with q have "find_by_user_sql E Q u (buildOrderBy so) cs (store s) = Inr ts"
      by (auto dest: pg_query_Inr)
    then obtain uid rows where uid: "pg_uuid E u = Some uid"
      and rows: "Q cs (buildOrderBy so) (filter (\<lambda>r. tr_user_id r = uid
          \<and> \<not> (is_true (tr_admin_deleted r) \<and> is_true (tr_user_ack r))) (tasks (store s))) = Inr rows"
      and ts: "ts = scanTasks E (\<lambda>r. coalesce (custom_name (store s) (tr_tag_id r))
          (default_name (store s) (tr_tag_id r))) rows"
      by (auto simp: find_by_user_sql_def)
    have "set rows \<subseteq> {r \<in> set (tasks (store s)). tr_user_id r = uid
          \<and> \<not> (is_true (tr_admin_deleted r) \<and> is_true (tr_user_ack r))}"
      using assms rows by (fastforce simp: engine_restricts_def)
    then show ?thesis
      using run st Inr uid by (fastforce simp: ts scanTasks_map list_all_iff scan_row_def)
  qed
qed

theorem find_by_user_own_and_visible_witness:
  "\<exists>t s'. repo_FindByUser sample_env (\<lambda>conds ord rows. Inr rows) ''u'' \<lparr>so_Fields = [], so_Order = []\<rparr>
       no_filter sample_pg1 = Ret (Inr [t], s') \<and> tl_UserID t = ''u''"
proof -
  have e: "engine_restricts (\<lambda>conds ord rows. Inr rows) (buildOrderBy \<lparr>so_Fields = [], so_Order = []\<rparr>)"
    by (simp add: engine_restricts_def)
  have run: "\<exists>t s'. repo_FindByUser sample_env (\<lambda>conds ord rows. Inr rows) ''u'' \<lparr>so_Fields = [], so_Order = []\<rparr>
       no_filter sample_pg1 = Ret (Inr [t], s')"
    by (simp add: repo_FindByUser_def buildFilterConditions_def no_filter_def find_by_user_sql_def
        pg_query_def pg_run_def next_net_def sample_pg1_def sample_row_def sample_defs
        new_task_row_def uuid_arg_def is_true_def)
  show ?thesis
    using run find_by_user_own_and_visible [OF e, of sample_env "''u''" no_filter sample_pg1]
    by (auto simp: sample_pg1_def sample_row_def new_task_row_def sample_defs)
qed

end
