(* ===== verification/SubtaskRepo.thy ===== *)
theory SubtaskRepo
  imports TaskRepo
begin

text \<open>
  The rest of \<open>tasks/repository/postgres/postgres.go\<close>: the subtasks of a task, and the
  administrator's soft deletion with the owner's acknowledgement and the restoration, for
  tasks and for shared tasks.
\<close>

section \<open>Subtasks\<close>

text \<open>The rows of the batch INSERT, numbered from \<open>i\<close>; \<open>n\<close> numbers their new ids.\<close>

fun subtask_rows :: "env \<Rightarrow> nat \<Rightarrow> nat \<Rightarrow> string \<Rightarrow> subtask list \<Rightarrow> subtask_row list" where
  "subtask_rows E n i tid [] = []"
| "subtask_rows E n i tid (s # ss) =
     \<lparr>sr_id = fresh E n, sr_task_id = tid, sr_title = sub_Title s, sr_is_done = False,
      sr_order_num = int i\<rparr> # subtask_rows E (Suc n) (Suc i) tid ss"

definition create_subtasks_sql :: "env \<Rightarrow> nat \<Rightarrow> string \<Rightarrow> subtask list \<Rightarrow> db \<Rightarrow> go_err + unit \<times> db" where
  "create_subtasks_sql E n taskID ss d =
     ebind (uuid_arg E taskID) (\<lambda>tid.
     ebind (ins_all ins_subtask (subtask_rows E n 0 tid ss) d) (\<lambda>d. Inr ((), d)))"

definition repo_CreateSubtasks :: "env \<Rightarrow> string \<Rightarrow> subtask list \<Rightarrow> pg \<Rightarrow> (go_err + unit) \<times> pg" where
  "repo_CreateSubtasks E taskID ss s =
     (if length ss = 0 then (Inr (), s)
      else let n = ctr s; s = s\<lparr>ctr := n + length ss\<rparr>
           in wrap_err ''batch insert subtasks'' (pg_run (create_subtasks_sql E n taskID ss) s))"

text \<open>\<open>COALESCE((SELECT MAX(order_num)+1 ...), 0)\<close>.\<close>

definition next_order :: "db \<Rightarrow> string \<Rightarrow> int" where
  "next_order d tid =
     (let os = map sr_order_num (filter (\<lambda>r. sr_task_id r = tid) (subtasks d))
      in if os = [] then 0 else Max (set os) + 1)"

definition create_subtask_sql ::
    "env \<Rightarrow> string \<Rightarrow> string \<Rightarrow> string \<Rightarrow> string \<Rightarrow> db \<Rightarrow> go_err + subtask_row \<times> db" where
  "create_subtask_sql E newID taskID ownerID title d =
     ebind (uuid_arg E taskID) (\<lambda>tid.
     ebind (uuid_arg E ownerID) (\<lambda>uid.
       if list_ex (\<lambda>t. tr_task_id t = tid \<and> tr_user_id t = uid) (tasks d)
       then (let row = \<lparr>sr_id = newID, sr_task_id = tid, sr_title = title, sr_is_done = False,
                        sr_order_num = next_order d tid\<rparr>
             in ebind (ins_subtask row d) (\<lambda>d. Inr (row, d)))
       else Inl PgxNoRows))"

definition repo_CreateSubtask ::
    "env \<Rightarrow> string \<Rightarrow> string \<Rightarrow> string \<Rightarrow> pg \<Rightarrow> (go_err + subtask) \<times> pg" where
  "repo_CreateSubtask E taskID ownerID title s =
     (let (newID, s) = take_id E s
      in case pg_run (create_subtask_sql E newID taskID ownerID title) s of
           (Inl e, s) \<Rightarrow>
             if e = PgxNoRows then (Inl (Msg ''task not found or access denied''), s)
             else (Inl (Wrap ''create subtask'' e), s)
         | (Inr r, s) \<Rightarrow> (Inr (subtaskModelToEntity r), s))"

definition repo_FindByTask :: "env \<Rightarrow> string \<Rightarrow> pg \<Rightarrow> (go_err + subtask list) \<times> pg" where
  "repo_FindByTask E taskID s =
     (case wrap_err ''find subtasks'' (pg_query (subtasks_of_sql E taskID) s) of
        (Inl e, s) \<Rightarrow> (Inl e, s)
      | (Inr rs, s) \<Rightarrow> (Inr (map subtaskModelToEntity rs), s))"

text \<open>
  The join of \<open>ToggleDone\<close>, \<open>DeleteSubtask\<close> and \<open>UpdateSubtask\<close>: the subtask of that id
  whose task belongs to the user.
\<close>

definition owned_subtask :: "db \<Rightarrow> string \<Rightarrow> string \<Rightarrow> subtask_row \<Rightarrow> bool" where
  "owned_subtask d sid uid r \<longleftrightarrow>
     sr_id r = sid \<and> list_ex (\<lambda>t. tr_task_id t = sr_task_id r \<and> tr_user_id t = uid) (tasks d)"

definition toggle_done_sql :: "env \<Rightarrow> string \<Rightarrow> string \<Rightarrow> db \<Rightarrow> go_err + subtask_row \<times> db" where
  "toggle_done_sql E subtaskID ownerID d =
     ebind (uuid_arg E subtaskID) (\<lambda>sid.
     ebind (uuid_arg E ownerID) (\<lambda>uid.
       case find_row (owned_subtask d sid uid) (subtasks d) of
         None \<Rightarrow> Inl PgxNoRows
       | Some r \<Rightarrow>
           Inr (r\<lparr>sr_is_done := \<not> sr_is_done r\<rparr>,
                d\<lparr>subtasks := update_where (owned_subtask d sid uid)
                     (\<lambda>r. r\<lparr>sr_is_done := \<not> sr_is_done r\<rparr>) (subtasks d)\<rparr>)))"

definition repo_ToggleDone :: "env \<Rightarrow> string \<Rightarrow> string \<Rightarrow> pg \<Rightarrow> (go_err + subtask) \<times> pg" where
  "repo_ToggleDone E subtaskID ownerID s =
     (case wrap_err ''toggle subtask'' (pg_run (toggle_done_sql E subtaskID ownerID) s) of
        (Inl e, s) \<Rightarrow> (Inl e, s)
      | (Inr r, s) \<Rightarrow> (Inr (subtaskModelToEntity r), s))"

definition count_open_sql :: "env \<Rightarrow> string \<Rightarrow> db \<Rightarrow> go_err + nat" where
  "count_open_sql E taskID d =
     ebind (uuid_arg E taskID) (\<lambda>tid.
       Inr (length (filter (\<lambda>r. sr_task_id r = tid \<and> \<not> sr_is_done r) (subtasks d))))"

definition repo_AreAllDone :: "env \<Rightarrow> string \<Rightarrow> pg \<Rightarrow> (go_err + bool) \<times> pg" where
  "repo_AreAllDone E taskID s =
     (case wrap_err ''check subtasks done'' (pg_query (count_open_sql E taskID) s) of
        (Inl e, s) \<Rightarrow> (Inl e, s)
      | (Inr n, s) \<Rightarrow> (Inr (n = 0), s))"

definition delete_subtask_sql :: "env \<Rightarrow> string \<Rightarrow> string \<Rightarrow> db \<Rightarrow> go_err + nat \<times> db" where
  "delete_subtask_sql E subtaskID ownerID d =
     ebind (uuid_arg E subtaskID) (\<lambda>sid.
     ebind (uuid_arg E ownerID) (\<lambda>uid.
       Inr (length (filter (owned_subtask d sid uid) (subtasks d)),
            d\<lparr>subtasks := filter (\<lambda>r. \<not> owned_subtask d sid uid r) (subtasks d)\<rparr>)))"

definition repo_DeleteSubtask :: "env \<Rightarrow> string \<Rightarrow> string \<Rightarrow> pg \<Rightarrow> (go_err + unit) \<times> pg" where
  "repo_DeleteSubtask E subtaskID ownerID s =
     (case wrap_err ''delete subtask'' (pg_run (delete_subtask_sql E subtaskID ownerID) s) of
        (Inl e, s) \<Rightarrow> (Inl e, s)
      | (Inr n, s) \<Rightarrow>
          if n = 0 then (Inl (Msg ''subtask not found or no access''), s) else (Inr (), s))"

definition update_subtask_sql ::
    "env \<Rightarrow> string \<Rightarrow> string \<Rightarrow> string \<Rightarrow> db \<Rightarrow> go_err + nat \<times> db" where
  "update_subtask_sql E subtaskID ownerID title d =
     ebind (uuid_arg E subtaskID) (\<lambda>sid.
     ebind (uuid_arg E ownerID) (\<lambda>uid.
       Inr (length (filter (owned_subtask d sid uid) (subtasks d)),
            d\<lparr>subtasks := update_where (owned_subtask d sid uid)
                 (\<lambda>r. r\<lparr>sr_title := title\<rparr>) (subtasks d)\<rparr>)))"

definition repo_UpdateSubtask ::
    "env \<Rightarrow> string \<Rightarrow> string \<Rightarrow> string \<Rightarrow> pg \<Rightarrow> (go_err + unit) \<times> pg" where
  "repo_UpdateSubtask E subtaskID ownerID title s =
     (case wrap_err ''update subtask'' (pg_run (update_subtask_sql E subtaskID ownerID title) s) of
        (Inl e, s) \<Rightarrow> (Inl e, s)
      | (Inr n, s) \<Rightarrow>
          if n = 0 then (Inl (Msg ''subtask not found or no access''), s) else (Inr (), s))"

section \<open>Soft deletion by the administrator\<close>

definition not_deleted :: "bool option \<Rightarrow> bool" where \<comment> \<open>\<open>b = FALSE OR b IS NULL\<close>\<close>
  "not_deleted b \<longleftrightarrow> b = Some False \<or> b = None"

definition admin_soft_delete_sql :: "env \<Rightarrow> string \<Rightarrow> db \<Rightarrow> go_err + string \<times> db" where
  "admin_soft_delete_sql E taskID d =
     ebind (uuid_arg E taskID) (\<lambda>tid.
       let hit = (\<lambda>r. tr_task_id r = tid \<and> not_deleted (tr_admin_deleted r))
       in case find_row hit (tasks d) of
            None \<Rightarrow> Inl PgxNoRows
          | Some r \<Rightarrow>
              Inr (tr_user_id r,
                   d\<lparr>tasks := update_where hit
                        (\<lambda>r. r\<lparr>tr_admin_deleted := Some True, tr_admin_deleted_at := Some (now E)\<rparr>)
                        (tasks d)\<rparr>))"

definition repo_AdminSoftDelete :: "env \<Rightarrow> string \<Rightarrow> pg \<Rightarrow> (go_err + string) \<times> pg" where
  "repo_AdminSoftDelete E taskID s =
     (if \<not> uuid_Parse E taskID then (Inl (Msg ''invalid uuid''), s)
      else wrap_err ''admin soft delete task'' (pg_run (admin_soft_delete_sql E taskID) s))"

definition ack_deletion_sql :: "env \<Rightarrow> string \<Rightarrow> string \<Rightarrow> db \<Rightarrow> go_err + unit \<times> db" where
  "ack_deletion_sql E taskID userID d =
     ebind (uuid_arg E taskID) (\<lambda>tid.
     ebind (uuid_arg E userID) (\<lambda>uid.
       Inr ((), d\<lparr>tasks := update_where
             (\<lambda>r. tr_task_id r = tid \<and> tr_user_id r = uid \<and> tr_admin_deleted r = Some True)
             (\<lambda>r. r\<lparr>tr_user_ack := Some True\<rparr>) (tasks d)\<rparr>)))"

definition repo_AcknowledgeAdminDeletion ::
    "env \<Rightarrow> string \<Rightarrow> string \<Rightarrow> pg \<Rightarrow> (go_err + unit) \<times> pg" where
  "repo_AcknowledgeAdminDeletion E taskID userID s =
     (if \<not> uuid_Parse E taskID then (Inl (Msg ''invalid uuid''), s)
      else wrap_err ''acknowledge admin deletion task'' (pg_run (ack_deletion_sql E taskID userID) s))"

definition admin_soft_delete_shared_sql ::
    "env \<Rightarrow> string \<Rightarrow> db \<Rightarrow> go_err + (string \<times> string \<times> string) \<times> db" where
  "admin_soft_delete_shared_sql E taskID d =
     ebind (uuid_arg E taskID) (\<lambda>tid.
       let hit = (\<lambda>r. sh_id r = tid \<and> not_deleted (sh_admin_deleted r))
       in case find_row hit (shared_tasks d) of
            None \<Rightarrow> Inl PgxNoRows
          | Some r \<Rightarrow>
              Inr ((sh_proposer_id r, sh_addressee_id r, sh_title r),
                   d\<lparr>shared_tasks := update_where hit
                        (\<lambda>r. r\<lparr>sh_admin_deleted := Some True, sh_admin_deleted_at := Some (now E)\<rparr>)
                        (shared_tasks d)\<rparr>))"

definition repo_AdminSoftDeleteShared ::
    "env \<Rightarrow> string \<Rightarrow> pg \<Rightarrow> (go_err + string \<times> string \<times> string) \<times> pg" where
  "repo_AdminSoftDeleteShared E taskID s =
     (if \<not> uuid_Parse E taskID then (Inl (Msg ''invalid uuid''), s)
      else wrap_err ''admin soft delete shared task'' (pg_run (admin_soft_delete_shared_sql E taskID) s))"

definition ack_deletion_shared_sql :: "env \<Rightarrow> string \<Rightarrow> string \<Rightarrow> db \<Rightarrow> go_err + unit \<times> db" where
  "ack_deletion_shared_sql E taskID userID d =
     ebind (uuid_arg E taskID) (\<lambda>tid.
     ebind (uuid_arg E userID) (\<lambda>uid.
       Inr ((), d\<lparr>shared_tasks := update_where
             (\<lambda>r. sh_id r = tid \<and> (sh_proposer_id r = uid \<or> sh_addressee_id r = uid)
                  \<and> sh_admin_deleted r = Some True)
             (\<lambda>r. r\<lparr>sh_user_ack := Some True\<rparr>) (shared_tasks d)\<rparr>)))"

definition repo_AcknowledgeAdminDeletionShared ::
    "env \<Rightarrow> string \<Rightarrow> string \<Rightarrow> pg \<Rightarrow> (go_err + unit) \<times> pg" where
  "repo_AcknowledgeAdminDeletionShared E taskID userID s =
     (if \<not> uuid_Parse E taskID then (Inl (Msg ''invalid uuid''), s)
      else wrap_err ''acknowledge admin deletion shared task''
             (pg_run (ack_deletion_shared_sql E taskID userID) s))"

definition restore_select_sql :: "env \<Rightarrow> string \<Rightarrow> db \<Rightarrow> go_err + string \<times> time" where
  "restore_select_sql E taskID d =
     ebind (uuid_arg E taskID) (\<lambda>tid.
       case find_row (\<lambda>r. tr_task_id r = tid) (tasks d) of
         None \<Rightarrow> Inl PgxNoRows
       | Some r \<Rightarrow> Inr (tr_user_id r, tr_due_date r))"

definition restore_update_sql :: "env \<Rightarrow> string \<Rightarrow> db \<Rightarrow> go_err + unit \<times> db" where
  "restore_update_sql E taskID d =
     ebind (uuid_arg E taskID) (\<lambda>tid.
       Inr ((), d\<lparr>tasks := update_where (\<lambda>r. tr_task_id r = tid)
             (\<lambda>r. r\<lparr>tr_admin_deleted := Some False, tr_admin_deleted_at := None,
                    tr_user_ack := Some False\<rparr>) (tasks d)\<rparr>))"

definition repo_AdminRestore :: "env \<Rightarrow> string \<Rightarrow> pg \<Rightarrow> (go_err + string) \<times> pg" where
  "repo_AdminRestore E taskID s =
     (if \<not> uuid_Parse E taskID then (Inl (Msg ''invalid uuid''), s)
      else case pg_query (restore_select_sql E taskID) s of
        (Inl e, s) \<Rightarrow>
          if e = PgxNoRows then (Inl (Wrap ''task not found'' ErrNotFound), s)
          else (Inl (Wrap ''admin restore get task'' e), s)
      | (Inr (userID, dueDate), s) \<Rightarrow>
          if dueDate < now E then (Inl (Wrap ''deadline passed'' ErrDeadlineExpired), s)
          else case wrap_err ''admin restore task'' (pg_run (restore_update_sql E taskID) s) of
            (Inl e, s) \<Rightarrow> (Inl e, s)
          | (Inr _, s) \<Rightarrow> (Inr userID, s))"

definition restore_select_shared_sql ::
    "env \<Rightarrow> string \<Rightarrow> db \<Rightarrow> go_err + string \<times> string \<times> time option" where
  "restore_select_shared_sql E taskID d =
     ebind (uuid_arg E taskID) (\<lambda>tid.
       case find_row (\<lambda>r. sh_id r = tid) (shared_tasks d) of
         None \<Rightarrow> Inl PgxNoRows
       | Some r \<Rightarrow> Inr (sh_proposer_id r, sh_addressee_id r, sh_due_date r))"

definition restore_update_shared_sql :: "env \<Rightarrow> string \<Rightarrow> db \<Rightarrow> go_err + unit \<times> db" where
  "restore_update_shared_sql E taskID d =
     ebind (uuid_arg E taskID) (\<lambda>tid.
       Inr ((), d\<lparr>shared_tasks := update_where (\<lambda>r. sh_id r = tid)
             (\<lambda>r. r\<lparr>sh_admin_deleted := Some False, sh_admin_deleted_at := None,
                    sh_user_ack := Some False\<rparr>) (shared_tasks d)\<rparr>))"

definition repo_AdminRestoreShared :: "env \<Rightarrow> string \<Rightarrow> pg \<Rightarrow> (go_err + string \<times> string) \<times> pg" where
  "repo_AdminRestoreShared E taskID s =
     (if \<not> uuid_Parse E taskID then (Inl (Msg ''invalid uuid''), s)
      else case pg_query (restore_select_shared_sql E taskID) s of
        (Inl e, s) \<Rightarrow>
          if e = PgxNoRows then (Inl (Wrap ''shared task not found'' ErrNotFound), s)
          else (Inl (Wrap ''admin restore get shared task'' e), s)
      | (Inr (proposerID, addresseeID, dueDate), s) \<Rightarrow>
          if (case dueDate of None \<Rightarrow> False | Some t \<Rightarrow> t < now E)
          then (Inl (Wrap ''deadline passed'' ErrDeadlineExpired), s)
          else case wrap_err ''admin restore shared task''
                      (pg_run (restore_update_shared_sql E taskID) s) of
            (Inl e, s) \<Rightarrow> (Inl e, s)
          | (Inr _, s) \<Rightarrow> (Inr (proposerID, addresseeID), s))"

section \<open>What the operations keep\<close>

lemma repo_CreateSubtasks_db_ok: "db_inv.keeps (repo_CreateSubtasks E i ss)"
proof -
  have "db_ok d \<longrightarrow> db_ok d'" if "create_subtasks_sql E n i ss d = Inr (x, d')" for n d x d'
    using that db_inv.ins_all_R [of _ ins_subtask d d'] ins_subtask_db_ok
    by (auto simp: create_subtasks_sql_def)
  then show ?thesis
    unfolding repo_CreateSubtasks_def Let_def
    by (intro db_inv.cond db_inv.fresh_ids db_inv.wrap db_inv.ret db_inv.run)
qed

lemma repo_CreateSubtask_db_ok: "db_inv.keeps (repo_CreateSubtask E i u t)"
  unfolding repo_CreateSubtask_def Let_def
  by (intro db_inv.cond db_inv.fresh_id db_inv.bind db_inv.ret db_inv.run)
    (auto simp: create_subtask_sql_def Let_def dest: ins_subtask_db_ok split: if_splits)

text \<open>UPDATE and DELETE on subtasks that leave ids and tasks alone.\<close>

lemma subtasks_db_ok:
  assumes "db_ok d" and "distinct (map sr_id ss)"
    and "\<forall>r \<in> set ss. sr_task_id r \<in> sr_task_id ` set (subtasks d)"
  shows "db_ok (d\<lparr>subtasks := ss\<rparr>)"
  using assms versions_ok_same_events [of "d\<lparr>subtasks := ss\<rparr>" d]
  by (auto simp: db_ok_def schema_ok_def acks_ok_def shared_status_ok_def)

lemma update_subtasks_db_ok:
  assumes "db_ok d" and "\<And>r. sr_id (f r) = sr_id r" "\<And>r. sr_task_id (f r) = sr_task_id r"
  shows "db_ok (d\<lparr>subtasks := update_where P f (subtasks d)\<rparr>)"
proof (rule subtasks_db_ok [OF assms(1)])
  show "distinct (map sr_id (update_where P f (subtasks d)))"
    using assms by (simp add: map_update_where db_ok_def schema_ok_def)
  show "\<forall>r \<in> set (update_where P f (subtasks d)). sr_task_id r \<in> sr_task_id ` set (subtasks d)"
    using assms(3) by (auto simp: set_update_where)
qed

lemma subtask_ids_distinct: "db_ok d \<Longrightarrow> distinct (map sr_id (subtasks d))"
  by (simp_all add: db_ok_def schema_ok_def)

lemma repo_ToggleDone_db_ok: "db_inv.keeps (repo_ToggleDone E i u)"
  unfolding repo_ToggleDone_def
  by (intro db_inv.bind db_inv.wrap db_inv.ret db_inv.run)
    (auto simp: toggle_done_sql_def split: option.splits intro!: update_subtasks_db_ok)

lemma repo_DeleteSubtask_db_ok: "db_inv.keeps (repo_DeleteSubtask E i u)"
  unfolding repo_DeleteSubtask_def
  by (intro db_inv.bind db_inv.wrap db_inv.ret db_inv.cond db_inv.run)
    (auto simp: delete_subtask_sql_def intro!: subtasks_db_ok distinct_map_filter
      dest: subtask_ids_distinct)

lemma repo_UpdateSubtask_db_ok: "db_inv.keeps (repo_UpdateSubtask E i u t)"
  unfolding repo_UpdateSubtask_def
  by (intro db_inv.bind db_inv.wrap db_inv.ret db_inv.cond db_inv.run)
    (auto simp: update_subtask_sql_def intro!: update_subtasks_db_ok)

lemma repo_AdminSoftDelete_db_ok: "db_inv.keeps (repo_AdminSoftDelete E i)"
  unfolding repo_AdminSoftDelete_def
  by (intro db_inv.wrap db_inv.ret db_inv.cond db_inv.run)
    (auto simp: admin_soft_delete_sql_def Let_def split: option.splits
      intro!: mark_tasks_db_ok)

lemma repo_AcknowledgeAdminDeletion_db_ok: "db_inv.keeps (repo_AcknowledgeAdminDeletion E i u)"
  unfolding repo_AcknowledgeAdminDeletion_def
  by (intro db_inv.wrap db_inv.ret db_inv.cond db_inv.run)
    (auto simp: ack_deletion_sql_def intro!: mark_tasks_db_ok)

lemma repo_AdminRestore_db_ok: "db_inv.keeps (repo_AdminRestore E i)"
  unfolding repo_AdminRestore_def
  by (intro db_inv.wrap db_inv.ret db_inv.cond db_inv.bind db_inv.query db_inv.run db_inv.pair)
    (auto simp: restore_update_sql_def intro!: mark_tasks_db_ok)

lemma repo_AdminSoftDeleteShared_db_ok: "db_inv.keeps (repo_AdminSoftDeleteShared E i)"
  unfolding repo_AdminSoftDeleteShared_def
  by (intro db_inv.wrap db_inv.ret db_inv.cond db_inv.run)
    (auto simp: admin_soft_delete_shared_sql_def Let_def split: option.splits
      intro!: mark_shared_db_ok)

lemma repo_AcknowledgeAdminDeletionShared_db_ok:
  "db_inv.keeps (repo_AcknowledgeAdminDeletionShared E i u)"
  unfolding repo_AcknowledgeAdminDeletionShared_def
  by (intro db_inv.wrap db_inv.ret db_inv.cond db_inv.run)
    (auto simp: ack_deletion_shared_sql_def intro!: mark_shared_db_ok)

lemma repo_AdminRestoreShared_db_ok: "db_inv.keeps (repo_AdminRestoreShared E i)"
  unfolding repo_AdminRestoreShared_def
  by (intro db_inv.wrap db_inv.ret db_inv.cond db_inv.bind db_inv.query db_inv.run db_inv.pair)
    (auto simp: restore_update_shared_sql_def intro!: mark_shared_db_ok)

text \<open>
  The contract of the ports \<open>TaskRepository\<close> and \<open>SubtaskRepository\<close> (\<open>tasks/port/task_repository.go\<close>)
  towards the tables, for a relation between the tables before and after: each method that
  writes stays within it. What the service, the handlers and the batch worker do to the tables is
  derived from this contract once, for every relation the repository satisfies.
\<close>

locale task_repository = store_rel +
  assumes keeps_repo_Create: "keeps (repo_Create E t)"
    and keeps_repo_CreateBatch: "keeps (repo_CreateBatch E ts)"
    and keeps_repo_Update: "keeps (repo_Update E i p)"
    and keeps_repo_Delete: "keeps (repo_Delete E i)"
    and keeps_repo_DeleteBatch: "keeps (repo_DeleteBatch E ids)"
    and keeps_repo_CreateSubtasks: "keeps (repo_CreateSubtasks E i ss)"
    and keeps_repo_CreateSubtask: "keeps (repo_CreateSubtask E i u ti)"
    and keeps_repo_ToggleDone: "keeps (repo_ToggleDone E i u)"
    and keeps_repo_DeleteSubtask: "keeps (repo_DeleteSubtask E i u)"
    and keeps_repo_UpdateSubtask: "keeps (repo_UpdateSubtask E i u ti)"
    and keeps_repo_AdminSoftDelete: "keeps (repo_AdminSoftDelete E i)"
    and keeps_repo_AcknowledgeAdminDeletion: "keeps (repo_AcknowledgeAdminDeletion E i u)"
    and keeps_repo_AdminRestore: "keeps (repo_AdminRestore E i)"
    and keeps_repo_AdminSoftDeleteShared: "keeps (repo_AdminSoftDeleteShared E i)"
    and keeps_repo_AcknowledgeAdminDeletionShared: "keeps (repo_AcknowledgeAdminDeletionShared E i u)"
    and keeps_repo_AdminRestoreShared: "keeps (repo_AdminRestoreShared E i)"

interpretation db_inv: task_repository "\<lambda>d d'. db_ok d \<longrightarrow> db_ok d'"
  by unfold_locales
    (fact repo_Create_db_ok repo_CreateBatch_db_ok repo_Update_db_ok repo_Delete_db_ok repo_DeleteBatch_db_ok
      repo_CreateSubtasks_db_ok repo_CreateSubtask_db_ok repo_ToggleDone_db_ok repo_DeleteSubtask_db_ok
      repo_UpdateSubtask_db_ok repo_AdminSoftDelete_db_ok repo_AcknowledgeAdminDeletion_db_ok
      repo_AdminRestore_db_ok repo_AdminSoftDeleteShared_db_ok repo_AcknowledgeAdminDeletionShared_db_ok
      repo_AdminRestoreShared_db_ok)+

section \<open>The life of an administrator's deletion\<close>

text \<open>
  What the three columns mean, and what each operation does to a task in that state:
  \<open>None\<close> where it is refused.
\<close>

datatype adm = Active | Removed | Acknowledged

datatype adm_op = SoftDelete | Acknowledge string | Restore

definition adm_of :: "task_row \<Rightarrow> adm" where
  "adm_of r =
     (if is_true (tr_admin_deleted r)
      then if is_true (tr_user_ack r) then Acknowledged else Removed
      else Active)"

definition adm_spec :: "env \<Rightarrow> adm_op \<Rightarrow> task_row \<Rightarrow> adm option" where
  "adm_spec E op r =
     (case op of
        SoftDelete \<Rightarrow> if adm_of r = Active then Some Removed else None
      | Acknowledge user \<Rightarrow>
          Some (if adm_of r = Removed \<and> pg_uuid E user = Some (tr_user_id r)
                then Acknowledged else adm_of r)
      | Restore \<Rightarrow> if tr_due_date r < now E then None else Some Active)"

definition adm_run :: "env \<Rightarrow> adm_op \<Rightarrow> string \<Rightarrow> pg \<Rightarrow> (go_err + string) \<times> pg" where
  "adm_run E op taskID s =
     (case op of
        SoftDelete \<Rightarrow> repo_AdminSoftDelete E taskID s
      | Acknowledge user \<Rightarrow>
          (case repo_AcknowledgeAdminDeletion E taskID user s of
             (Inl e, s) \<Rightarrow> (Inl e, s) | (Inr _, s) \<Rightarrow> (Inr [], s))
      | Restore \<Rightarrow> repo_AdminRestore E taskID s)"

definition adm_set :: "task_row \<Rightarrow> bool option \<Rightarrow> time option \<Rightarrow> bool option \<Rightarrow> task_row" where
  "adm_set r a t u = r\<lparr>tr_admin_deleted := a, tr_admin_deleted_at := t, tr_user_ack := u\<rparr>"

text \<open>The effect of an operation on a task is the one of the machine.\<close>

definition adm_refined :: "env \<Rightarrow> adm_op \<Rightarrow> string \<Rightarrow> string \<Rightarrow> task_row \<Rightarrow> pg \<Rightarrow> bool" where
  "adm_refined E op i tid row s \<longleftrightarrow>
     (case adm_spec E op row of
        None \<Rightarrow> (\<exists>e. fst (adm_run E op i s) = Inl e) \<and> store (snd (adm_run E op i s)) = store s
      | Some a \<Rightarrow> (\<exists>x. fst (adm_run E op i s) = Inr x)
          \<and> (\<exists>m t u. store (snd (adm_run E op i s)) = (store s)
                \<lparr>tasks := update_where (\<lambda>r. tr_task_id r = tid) (\<lambda>r. adm_set r m t u) (tasks (store s))\<rparr>
              \<and> adm_of (adm_set row m t u) = a))"

lemma adm_only:
  assumes "find_row (\<lambda>r. tr_task_id r = tid) (tasks d) = Some row" and "db_ok d"
    and "r \<in> set (tasks d)" and "tr_task_id r = tid"
  shows "r = row"
proof -
  have "distinct (map tr_task_id (tasks d))" using assms(2) by (simp add: db_ok_def schema_okD)
  moreover have "row \<in> set (tasks d)" "tr_task_id row = tid" using assms(1) by (auto dest: find_row_Some)
  ultimately show ?thesis using assms(3,4) by (metis eq_key_imp_eq_value zip_map_fst_snd distinct_map inj_onD)
qed

lemma adm_update:
  assumes "find_row (\<lambda>r. tr_task_id r = tid) (tasks d) = Some row" and "db_ok d"
    and "\<And>r. P r \<Longrightarrow> tr_task_id r = tid" and "(if P row then f row else row) = adm_set row m t u"
  shows "update_where P f (tasks d) = update_where (\<lambda>r. tr_task_id r = tid) (\<lambda>r. adm_set r m t u) (tasks d)"
proof (rule update_where_cong)
  fix r
  assume r: "r \<in> set (tasks d)"
  show "(if P r then f r else r) = (if tr_task_id r = tid then adm_set r m t u else r)"
  proof (cases "tr_task_id r = tid")
    case True
    then have "r = row" using adm_only [OF assms(1,2) r] by simp
    with True assms(4) show ?thesis by (cases "P row") simp_all
  next
    case False
    then have "\<not> P r" using assms(3) by blast
    with False show ?thesis by simp
  qed
qed

lemma not_deleted_iff: "not_deleted a \<longleftrightarrow> \<not> is_true a"
  by (cases a) (auto simp: not_deleted_def is_true_def)

lemma soft_delete_refines:
  assumes healthy: "faults s = []" and uuid: "uuid_Parse E i" "pg_uuid E i = Some tid"
    and row: "find_row (\<lambda>r. tr_task_id r = tid) (tasks (store s)) = Some row" and ok: "db_ok (store s)"
  shows "adm_refined E SoftDelete i tid row s"
proof -
  let ?hit = "\<lambda>r. tr_task_id r = tid \<and> not_deleted (tr_admin_deleted r)"
  note only = adm_only [OF row ok]
  have in_row: "row \<in> set (tasks (store s))" "tr_task_id row = tid" using row by (auto dest: find_row_Some)
  show ?thesis
  proof (cases "not_deleted (tr_admin_deleted row)")
    case False
    then have "find_row ?hit (tasks (store s)) = None" using only by (auto simp: find_row_None)
    then show ?thesis
      using False healthy uuid
      by (simp add: adm_refined_def adm_spec_def adm_run_def repo_AdminSoftDelete_def pg_run_healthy
          admin_soft_delete_sql_def uuid_arg_def not_deleted_iff adm_of_def)
  next
    case True
    let ?new = "update_where (\<lambda>r. tr_task_id r = tid) (\<lambda>r. adm_set r (Some True) (Some (now E)) (tr_user_ack row))
      (tasks (store s))"
    have hit: "find_row ?hit (tasks (store s)) = Some row"
    proof (rule find_row_only)
      show "row \<in> set (tasks (store s))" "?hit row" using True in_row by auto
      show "q = row" if "q \<in> set (tasks (store s))" "?hit q" for q by (rule only) (use that in auto)
    qed
    have u: "update_where ?hit (\<lambda>r. r\<lparr>tr_admin_deleted := Some True, tr_admin_deleted_at := Some (now E)\<rparr>)
        (tasks (store s)) = ?new"
      by (rule adm_update [OF row ok]) (use True in_row in \<open>auto simp: adm_set_def\<close>)
    have "adm_of (adm_set row (Some True) (Some (now E)) (tr_user_ack row)) = Removed"
      using True ok in_row by (auto simp: adm_of_def adm_set_def is_true_def not_deleted_def db_ok_def acks_ok_def)
    moreover have "adm_of row = Active" using True by (simp add: adm_of_def not_deleted_iff)
    moreover have "store (snd (repo_AdminSoftDelete E i s)) = (store s)\<lparr>tasks := ?new\<rparr>"
      "fst (repo_AdminSoftDelete E i s) = Inr (tr_user_id row)"
      using healthy uuid hit
      by (simp_all add: repo_AdminSoftDelete_def pg_run_healthy u admin_soft_delete_sql_def uuid_arg_def Let_def)
    ultimately show ?thesis by (auto simp: adm_refined_def adm_spec_def adm_run_def)
  qed
qed

lemma acknowledge_refines:
  assumes healthy: "faults s = []" and uuid: "pg_uuid E i = Some tid" "uuid_Parse E i"
    and row: "find_row (\<lambda>r. tr_task_id r = tid) (tasks (store s)) = Some row" and ok: "db_ok (store s)"
    and uid: "pg_uuid E user = Some uid"
  shows "adm_refined E (Acknowledge user) i tid row s"
proof -
  let ?hit = "\<lambda>r. tr_task_id r = tid \<and> tr_user_id r = uid \<and> tr_admin_deleted r = Some True"
  have in_row: "tr_task_id row = tid" using row by (auto dest: find_row_Some)
  define w where "w = (if ?hit row then Some True else tr_user_ack row)"
  let ?new = "update_where (\<lambda>r. tr_task_id r = tid)
    (\<lambda>r. adm_set r (tr_admin_deleted row) (tr_admin_deleted_at row) w) (tasks (store s))"
  have u: "update_where ?hit (\<lambda>r. r\<lparr>tr_user_ack := Some True\<rparr>) (tasks (store s)) = ?new"
    by (rule adm_update [OF row ok]) (auto simp: adm_set_def w_def)
  have "adm_of (adm_set row (tr_admin_deleted row) (tr_admin_deleted_at row) w)
      = (if adm_of row = Removed \<and> uid = tr_user_id row then Acknowledged else adm_of row)"
    using in_row by (auto simp: adm_of_def adm_set_def is_true_def w_def)
  moreover have "repo_AcknowledgeAdminDeletion E i user s = (Inr (), s\<lparr>store := (store s)\<lparr>tasks := ?new\<rparr>\<rparr>)"
    using healthy uuid uid
    by (simp add: repo_AcknowledgeAdminDeletion_def pg_run_healthy u ack_deletion_sql_def uuid_arg_def)
  ultimately show ?thesis
    using uid
    by (cases "adm_of row = Removed \<and> uid = tr_user_id row")
      (auto simp: adm_refined_def adm_spec_def adm_run_def)
qed

lemma restore_refines:
  assumes healthy: "faults s = []" and uuid: "uuid_Parse E i" "pg_uuid E i = Some tid"
    and row: "find_row (\<lambda>r. tr_task_id r = tid) (tasks (store s)) = Some row"
  shows "adm_refined E Restore i tid row s"
proof (cases "tr_due_date row < now E")
  case True
  with healthy uuid row show ?thesis
    by (simp add: adm_refined_def adm_spec_def adm_run_def repo_AdminRestore_def pg_query_healthy
        restore_select_sql_def uuid_arg_def)
next
  case False
  let ?new = "update_where (\<lambda>r. tr_task_id r = tid) (\<lambda>r. adm_set r (Some False) None (Some False)) (tasks (store s))"
  have "repo_AdminRestore E i s = (Inr (tr_user_id row), s\<lparr>store := (store s)\<lparr>tasks := ?new\<rparr>\<rparr>)"
    using False healthy uuid row
    by (simp add: repo_AdminRestore_def pg_query_healthy pg_run_healthy restore_select_sql_def
        restore_update_sql_def uuid_arg_def adm_set_def)
  moreover have "adm_of (adm_set row (Some False) None (Some False)) = Active"
    by (simp add: adm_of_def adm_set_def is_true_def)
  ultimately show ?thesis using False by (auto simp: adm_refined_def adm_spec_def adm_run_def)
qed

text \<open>C8: soft deletion, acknowledgement and restoration refine that three-state machine:
  run on a task that exists, over a healthy connection, each either is refused and changes
  nothing, or moves exactly this task to the state the machine gives and touches nothing
  but its three marking columns.\<close>

theorem admin_deletion_refines:
  assumes healthy: "faults s = []" and uuid: "uuid_Parse E i" "pg_uuid E i = Some tid"
    and row: "find_row (\<lambda>r. tr_task_id r = tid) (tasks (store s)) = Some row"
    and ok: "db_ok (store s)"
    and user: "\<forall>u. op = Acknowledge u \<longrightarrow> pg_uuid E u \<noteq> None"
  shows "case adm_spec E op row of
      None \<Rightarrow> (\<exists>e. fst (adm_run E op i s) = Inl e) \<and> store (snd (adm_run E op i s)) = store s
    | Some a \<Rightarrow> (\<exists>x. fst (adm_run E op i s) = Inr x)
        \<and> (\<exists>m t u. store (snd (adm_run E op i s)) = (store s)
              \<lparr>tasks := update_where (\<lambda>r. tr_task_id r = tid) (\<lambda>r. adm_set r m t u) (tasks (store s))\<rparr>
            \<and> adm_of (adm_set row m t u) = a)"
  unfolding adm_refined_def [symmetric]
  by (cases op) (use soft_delete_refines [OF healthy uuid row ok] restore_refines [OF healthy uuid row]
      acknowledge_refines [OF healthy uuid(2,1) row ok] user in auto)

theorem admin_deletion_refines_witness:
  "\<exists>m t u. store (snd (adm_run sample_env SoftDelete ''t'' sample_pg1))
     = (store sample_pg1)\<lparr>tasks := [adm_set sample_row m t u]\<rparr>
     \<and> adm_of (adm_set sample_row m t u) = Removed"
proof -
  have "db_ok (store sample_pg1)"
    by (simp add: db_ok_def schema_ok_def acks_ok_def shared_status_ok_def versions_ok_def
        sample_pg1_def sample_row_def sample_defs new_task_row_def status_check_def
        priory_check_def StorageCode_def)
  moreover have "find_row (\<lambda>r. tr_task_id r = ''t'') (tasks (store sample_pg1)) = Some sample_row"
    by (simp add: sample_pg1_def sample_row_def new_task_row_def)
  ultimately have "case adm_spec sample_env SoftDelete sample_row of
      None \<Rightarrow> (\<exists>e. fst (adm_run sample_env SoftDelete ''t'' sample_pg1) = Inl e)
        \<and> store (snd (adm_run sample_env SoftDelete ''t'' sample_pg1)) = store sample_pg1
    | Some a \<Rightarrow> (\<exists>x. fst (adm_run sample_env SoftDelete ''t'' sample_pg1) = Inr x)
        \<and> (\<exists>m t u. store (snd (adm_run sample_env SoftDelete ''t'' sample_pg1)) = (store sample_pg1)
              \<lparr>tasks := update_where (\<lambda>r. tr_task_id r = ''t'') (\<lambda>r. adm_set r m t u) (tasks (store sample_pg1))\<rparr>
            \<and> adm_of (adm_set sample_row m t u) = a)"
    by (intro admin_deletion_refines) (auto simp: sample_pg1_def sample_env_def)
  moreover have "adm_spec sample_env SoftDelete sample_row = Some Removed"
    by (simp add: adm_spec_def adm_of_def sample_row_def new_task_row_def is_true_def)
  moreover have "tr_task_id sample_row = ''t''" by (simp add: sample_row_def new_task_row_def)
  ultimately show ?thesis by (simp add: sample_pg1_def)
qed

section \<open>Properties of the subtasks\<close>

lemma foreign_create_refused:
  assumes "\<forall>t \<in> set (tasks (store s)). Some (tr_task_id t) = pg_uuid E j \<longrightarrow> Some (tr_user_id t) \<noteq> pg_uuid E u"
  shows "(\<exists>e. fst (repo_CreateSubtask E j u title s) = Inl e) \<and> store (snd (repo_CreateSubtask E j u title s)) = store s"
proof -
  obtain newID s1 where n: "take_id E s = (newID, s1)" and s1: "store s1 = store s" by (auto simp: take_id_def)
  have no: "\<not> create_subtask_sql E newID j u title (store s1) = Inr (row, d')" for row d'
    using assms by (auto simp: create_subtask_sql_def s1 list_ex_iff)
  obtain v s2 where v: "pg_run (create_subtask_sql E newID j u title) s1 = (v, s2)" by force
  have "store (snd (pg_run (create_subtask_sql E newID j u title) s1)) = store s1"
    "fst (pg_run (create_subtask_sql E newID j u title) s1) \<noteq> Inr x" for x
    using pg_run_noop [of "create_subtask_sql E newID j u title" s1 "\<lambda>_. False"] no by blast+
  with v s1 have "store s2 = store s" "\<exists>e. v = Inl e" by (cases v; auto)+
  then show ?thesis using n v by (auto simp: repo_CreateSubtask_def Let_def)
qed

text \<open>C21: only the owner of the task adds, toggles, renames or deletes a subtask: each of the four
  operations called for any other user is an error and leaves the tables alone, whatever happens to the
  connection. (\<open>CreateSubtasks\<close> takes no user: it is the second half of creating the task itself.)\<close>

theorem subtask_owner_only:
  assumes "\<forall>sub \<in> set (subtasks (store s)). \<forall>t \<in> set (tasks (store s)).
      Some (sr_id sub) = pg_uuid E i \<and> tr_task_id t = sr_task_id sub
        \<longrightarrow> Some (tr_user_id t) \<noteq> pg_uuid E u"
    and "\<forall>t \<in> set (tasks (store s)). Some (tr_task_id t) = pg_uuid E j \<longrightarrow> Some (tr_user_id t) \<noteq> pg_uuid E u"
  shows "(\<exists>e. fst (repo_ToggleDone E i u s) = Inl e) \<and> store (snd (repo_ToggleDone E i u s)) = store s
    \<and> (\<exists>e. fst (repo_DeleteSubtask E i u s) = Inl e) \<and> store (snd (repo_DeleteSubtask E i u s)) = store s
    \<and> (\<exists>e. fst (repo_UpdateSubtask E i u title s) = Inl e)
    \<and> store (snd (repo_UpdateSubtask E i u title s)) = store s
    \<and> (\<exists>e. fst (repo_CreateSubtask E j u title s) = Inl e)
    \<and> store (snd (repo_CreateSubtask E j u title s)) = store s"
proof -
  have none: "\<not> owned_subtask (store s) sid uid r"
    if "pg_uuid E i = Some sid" "pg_uuid E u = Some uid" "r \<in> set (subtasks (store s))" for sid uid r
    using assms(1) that by (auto simp: owned_subtask_def list_ex_iff)
  have rows: "find_row (owned_subtask (store s) sid uid) (subtasks (store s)) = None"
    "filter (owned_subtask (store s) sid uid) (subtasks (store s)) = []"
    "filter (\<lambda>r. \<not> owned_subtask (store s) sid uid r) (subtasks (store s)) = subtasks (store s)"
    "update_where (owned_subtask (store s) sid uid) f (subtasks (store s)) = subtasks (store s)"
    if "pg_uuid E i = Some sid" "pg_uuid E u = Some uid" for sid uid f
    using none [OF that] by (auto simp: find_row_None filter_empty_conv update_where_id)
  have t: "toggle_done_sql E i u (store s) = Inr (x, d') \<Longrightarrow> False \<and> d' = store s" for x d'
    by (auto simp: toggle_done_sql_def rows)
  have d: "delete_subtask_sql E i u (store s) = Inr (n, d') \<Longrightarrow> n = 0 \<and> d' = store s" for n d'
    by (auto simp: delete_subtask_sql_def rows)
  have q: "update_subtask_sql E i u title (store s) = Inr (n, d') \<Longrightarrow> n = 0 \<and> d' = store s" for n d'
    by (auto simp: update_subtask_sql_def rows)
  have T: "store (snd (pg_run (toggle_done_sql E i u) s)) = store s"
    "fst (pg_run (toggle_done_sql E i u) s) \<noteq> Inr x" for x
    using pg_run_noop [of "toggle_done_sql E i u" s "\<lambda>_. False"] t by blast+
  have "(\<exists>e. fst (repo_ToggleDone E i u s) = Inl e) \<and> store (snd (repo_ToggleDone E i u s)) = store s
    \<and> (\<exists>e. fst (repo_DeleteSubtask E i u s) = Inl e) \<and> store (snd (repo_DeleteSubtask E i u s)) = store s
    \<and> (\<exists>e. fst (repo_UpdateSubtask E i u title s) = Inl e)
    \<and> store (snd (repo_UpdateSubtask E i u title s)) = store s"
    using T
      pg_run_noop [where stmt = "delete_subtask_sql E i u" and s = s and Q = "\<lambda>n. n = 0", OF d]
      pg_run_noop [where stmt = "update_subtask_sql E i u title" and s = s and Q = "\<lambda>n. n = 0", OF q]
    by (cases "pg_run (toggle_done_sql E i u) s"; cases "fst (pg_run (toggle_done_sql E i u) s)";
        cases "pg_run (delete_subtask_sql E i u) s"; cases "fst (pg_run (delete_subtask_sql E i u) s)";
        cases "pg_run (update_subtask_sql E i u title) s"; cases "fst (pg_run (update_subtask_sql E i u title) s)")
      (auto simp: repo_ToggleDone_def repo_DeleteSubtask_def repo_UpdateSubtask_def)
  with foreign_create_refused [OF assms(2)] show ?thesis by simp
qed

definition sample_pg2 :: pg where
  "sample_pg2 = \<lparr>store = empty_db\<lparr>tasks := [sample_row],
     subtasks := [\<lparr>sr_id = ''s'', sr_task_id = ''t'', sr_title = ''x'', sr_is_done = False, sr_order_num = 0\<rparr>]\<rparr>,
     faults = [], ctr = 0\<rparr>"

theorem subtask_owner_only_witness:
  "(\<exists>e. fst (repo_ToggleDone sample_env ''s'' ''v'' sample_pg2) = Inl e)
   \<and> (\<exists>e. fst (repo_CreateSubtask sample_env ''t'' ''v'' ''x'' sample_pg2) = Inl e)
   \<and> fst (repo_ToggleDone sample_env ''s'' ''u'' sample_pg2) = Inr
        \<lparr>sub_ID = ''s'', sub_TaskID = ''t'', sub_Title = ''x'', sub_IsDone = True, sub_Order = 0\<rparr>"
proof -
  have "\<forall>sub \<in> set (subtasks (store sample_pg2)). \<forall>t \<in> set (tasks (store sample_pg2)).
      Some (sr_id sub) = pg_uuid sample_env ''s'' \<and> tr_task_id t = sr_task_id sub
        \<longrightarrow> Some (tr_user_id t) \<noteq> pg_uuid sample_env ''v''"
    "\<forall>t \<in> set (tasks (store sample_pg2)). Some (tr_task_id t) = pg_uuid sample_env ''t''
        \<longrightarrow> Some (tr_user_id t) \<noteq> pg_uuid sample_env ''v''"
    by (simp_all add: sample_pg2_def sample_row_def new_task_row_def sample_env_def sample_task_def)
  from subtask_owner_only [OF this, of "''x''"]
  have "(\<exists>e. fst (repo_ToggleDone sample_env ''s'' ''v'' sample_pg2) = Inl e)
   \<and> (\<exists>e. fst (repo_CreateSubtask sample_env ''t'' ''v'' ''x'' sample_pg2) = Inl e)" by blast
  moreover have "fst (repo_ToggleDone sample_env ''s'' ''u'' sample_pg2) = Inr
        \<lparr>sub_ID = ''s'', sub_TaskID = ''t'', sub_Title = ''x'', sub_IsDone = True, sub_Order = 0\<rparr>"
    by (simp add: repo_ToggleDone_def pg_run_healthy sample_pg2_def toggle_done_sql_def uuid_arg_def sample_env_def
        owned_subtask_def sample_row_def new_task_row_def sample_task_def subtaskModelToEntity_def)
  ultimately show ?thesis by blast
qed

text \<open>the owner toggling a subtask twice gets it back as it was, each answer shows the
  new mark, and no other row of any table changes.\<close>

theorem toggle_twice:
  assumes healthy: "faults s = []" and ids: "pg_uuid E i = Some sid" "pg_uuid E u = Some uid"
    and sub: "find_row (\<lambda>r. sr_id r = sid) (subtasks (store s)) = Some r"
    and owner: "find_row (\<lambda>t. tr_task_id t = sr_task_id r) (tasks (store s)) = Some t" "tr_user_id t = uid"
    and ok: "db_ok (store s)"
  shows "\<exists>s'. repo_ToggleDone E i u s = (Inr (subtaskModelToEntity (r\<lparr>sr_is_done := \<not> sr_is_done r\<rparr>)), s')
     \<and> store s' = (store s)\<lparr>subtasks := update_where (\<lambda>q. sr_id q = sid)
           (\<lambda>q. q\<lparr>sr_is_done := \<not> sr_is_done q\<rparr>) (subtasks (store s))\<rparr>
     \<and> repo_ToggleDone E i u s' = (Inr (subtaskModelToEntity r), s)"
proof -
  let ?flip = "\<lambda>q. q\<lparr>sr_is_done := \<not> sr_is_done q\<rparr>"
  have dist: "distinct (map sr_id (subtasks (store s)))" using ok by (rule subtask_ids_distinct)
  have r: "sr_id r = sid" "r \<in> set (subtasks (store s))" using sub by (auto dest: find_row_Some)
  have only: "q = r" if "q \<in> set (subtasks (store s))" "sr_id q = sid" for q
    using find_row_unique [OF dist that] sub by simp
  have own: "list_ex (\<lambda>t. tr_task_id t = sr_task_id r \<and> tr_user_id t = uid) (tasks (store s))"
    using owner by (auto simp: list_ex_iff dest: find_row_Some)
  have once: "toggle_done_sql E i u d = Inr (?flip q, d\<lparr>subtasks := update_where (\<lambda>p. sr_id p = sid) ?flip (subtasks d)\<rparr>)"
    if d: "tasks d = tasks (store s)" "\<forall>p \<in> set (subtasks d). sr_id p = sid \<longrightarrow> p = q"
      "q \<in> set (subtasks d)" "sr_id q = sid" "sr_task_id q = sr_task_id r" for d q
  proof -
    have eq: "owned_subtask d sid uid p \<longleftrightarrow> sr_id p = sid" if "p \<in> set (subtasks d)" for p
    proof
      assume "sr_id p = sid"
      then have "sr_task_id p = sr_task_id r" using d(2,5) that by blast
      with \<open>sr_id p = sid\<close> show "owned_subtask d sid uid p"
        using own d(1) by (simp add: owned_subtask_def)
    qed (simp add: owned_subtask_def)
    have "find_row (owned_subtask d sid uid) (subtasks d) = Some q"
    proof (rule find_row_only)
      show "q \<in> set (subtasks d)" by (rule d(3))
      then show "owned_subtask d sid uid q" using d(4) eq by simp
      show "p = q" if "p \<in> set (subtasks d)" "owned_subtask d sid uid p" for p
      proof -
        have "sr_id p = sid" using eq [OF that(1)] that(2) by simp
        with d(2) that(1) show ?thesis by simp
      qed
    qed
    moreover have "update_where (owned_subtask d sid uid) ?flip (subtasks d)
        = update_where (\<lambda>p. sr_id p = sid) ?flip (subtasks d)"
      by (rule update_where_cong) (simp add: eq)
    ultimately show ?thesis using ids by (simp add: toggle_done_sql_def uuid_arg_def)
  qed
  let ?d = "(store s)\<lparr>subtasks := update_where (\<lambda>p. sr_id p = sid) ?flip (subtasks (store s))\<rparr>"
  have first: "toggle_done_sql E i u (store s) = Inr (?flip r, ?d)"
  proof (rule once)
    show "\<forall>p \<in> set (subtasks (store s)). sr_id p = sid \<longrightarrow> p = r" by (intro ballI impI only)
  qed (use r in simp_all)
  have rows: "\<forall>p \<in> set (subtasks ?d). sr_id p = sid \<longrightarrow> p = ?flip r" "?flip r \<in> set (subtasks ?d)"
    using r by (auto simp: set_update_where dest: only)
  have "toggle_done_sql E i u ?d = Inr (?flip (?flip r),
      ?d\<lparr>subtasks := update_where (\<lambda>p. sr_id p = sid) ?flip (subtasks ?d)\<rparr>)"
  proof (rule once)
    show "\<forall>p \<in> set (subtasks ?d). sr_id p = sid \<longrightarrow> p = ?flip r" "?flip r \<in> set (subtasks ?d)"
      by (rule rows)+
  qed (use r in simp_all)
  moreover have "update_where (\<lambda>p. sr_id p = sid) ?flip (subtasks ?d) = subtasks (store s)"
    by (simp add: update_where_def comp_def) (rule map_idI, simp)
  ultimately have second: "toggle_done_sql E i u ?d = Inr (r, store s)" by simp
  show ?thesis
    using first second healthy
    by (intro exI [of _ "s\<lparr>store := ?d\<rparr>"]) (simp add: repo_ToggleDone_def pg_run_healthy)
qed

theorem toggle_twice_witness:
  "\<exists>r s'. repo_ToggleDone sample_env ''s'' ''u'' sample_pg2 = (Inr r, s')
     \<and> repo_ToggleDone sample_env ''s'' ''u'' s' = (Inr (r\<lparr>sub_IsDone := False\<rparr>), sample_pg2)"
proof -
  let ?r = "\<lparr>sr_id = ''s'', sr_task_id = ''t'', sr_title = ''x'', sr_is_done = False, sr_order_num = 0\<rparr>"
  have "db_ok (store sample_pg2)"
    by (simp add: db_ok_def schema_ok_def acks_ok_def shared_status_ok_def versions_ok_def
        sample_pg2_def sample_row_def sample_defs new_task_row_def status_check_def
        priory_check_def StorageCode_def)
  then have "\<exists>s'. repo_ToggleDone sample_env ''s'' ''u'' sample_pg2
      = (Inr (subtaskModelToEntity (?r\<lparr>sr_is_done := \<not> sr_is_done ?r\<rparr>)), s')
     \<and> store s' = (store sample_pg2)\<lparr>subtasks := update_where (\<lambda>q. sr_id q = ''s'')
           (\<lambda>q. q\<lparr>sr_is_done := \<not> sr_is_done q\<rparr>) (subtasks (store sample_pg2))\<rparr>
     \<and> repo_ToggleDone sample_env ''s'' ''u'' s' = (Inr (subtaskModelToEntity ?r), sample_pg2)"
    by (intro toggle_twice [where uid = "''u''" and t = sample_row])
      (auto simp: sample_pg2_def sample_row_def new_task_row_def sample_env_def sample_task_def)
  then show ?thesis by (auto simp: subtaskModelToEntity_def)
qed

end
