(* ===== verification/Subscriptions.thy ===== *)
theory Subscriptions
  imports Store
begin

text \<open>
  The local copy of the users' subscriptions (\<open>tasks/repository/postgres/subscription.go\<close>,
  \<open>tasks/service/subscription.go\<close>) and the reminder queries on it.
\<close>

section \<open>Subscriptions\<close>

text \<open>\<open>port.UserSubscription\<close> has the columns of its row, so the row stands for it.\<close>

definition upsert_subscription_sql :: "env \<Rightarrow> subscription_row \<Rightarrow> db \<Rightarrow> go_err + unit \<times> db" where
  "upsert_subscription_sql E sub d =
     ebind (uuid_arg E (us_user_id sub)) (\<lambda>uid.
       let excluded = sub\<lparr>us_user_id := uid, us_updated_at := now E\<rparr>;
           merge = (\<lambda>old. old
             \<lparr>us_name := (if us_name excluded \<noteq> [] then us_name excluded else us_name old),
              us_has_subscription := us_has_subscription excluded,
              us_expires_at := us_expires_at excluded,
              us_telegram_chat_id := (case us_telegram_chat_id excluded of
                 None \<Rightarrow> us_telegram_chat_id old | Some c \<Rightarrow> Some c),
              us_updated_at := now E\<rparr>)
       in if list_ex (\<lambda>r. us_user_id r = uid) (user_subscriptions d)
          then Inr ((), d\<lparr>user_subscriptions :=
                 update_where (\<lambda>r. us_user_id r = uid) merge (user_subscriptions d)\<rparr>)
          else Inr ((), d\<lparr>user_subscriptions := user_subscriptions d @ [excluded]\<rparr>))"

definition repo_UpsertSubscription :: "env \<Rightarrow> subscription_row \<Rightarrow> pg \<Rightarrow> (go_err + unit) \<times> pg" where
  "repo_UpsertSubscription E sub s =
     wrap_err ''upsert subscription'' (pg_run (upsert_subscription_sql E sub) s)"

definition get_subscription_sql :: "env \<Rightarrow> string \<Rightarrow> db \<Rightarrow> go_err + subscription_row" where
  "get_subscription_sql E userID d =
     ebind (uuid_arg E userID) (\<lambda>uid.
       case find_row (\<lambda>r. us_user_id r = uid) (user_subscriptions d) of
         None \<Rightarrow> Inl PgxNoRows | Some r \<Rightarrow> Inr r)"

text \<open>
  The code compares with \<open>sql.ErrNoRows\<close>, while pgx reports \<open>pgx.ErrNoRows\<close>.
\<close>

definition repo_GetSubscription ::
    "env \<Rightarrow> string \<Rightarrow> pg \<Rightarrow> (go_err + subscription_row option) \<times> pg" where
  "repo_GetSubscription E userID s =
     (case pg_query (get_subscription_sql E userID) s of
        (Inl e, s) \<Rightarrow>
          if e = ErrNoRows then (Inr None, s) else (Inl (Wrap ''get subscription'' e), s)
      | (Inr r, s) \<Rightarrow> (Inr (Some r), s))"

definition SyncSubscription :: "env \<Rightarrow> subscription_row \<Rightarrow> pg \<Rightarrow> (go_err + unit) \<times> pg" where
  "SyncSubscription E sub s = repo_UpsertSubscription E sub s"

definition IsActive :: "env \<Rightarrow> string \<Rightarrow> pg \<Rightarrow> bool \<times> pg" where
  "IsActive E userID s =
     (case repo_GetSubscription E userID s of
        (Inl e, s) \<Rightarrow> (False, s)
      | (Inr None, s) \<Rightarrow> (False, s)
      | (Inr (Some sub), s) \<Rightarrow>
          (us_has_subscription sub
           \<and> (case us_expires_at sub of None \<Rightarrow> False | Some t \<Rightarrow> t > now E), s))"

section \<open>Reminders\<close>

datatype reminder_window = Window60m | Window15m | Window5m | OtherWindow int

text \<open>
  \<open>reminderSentCol\<close> names the column of a window, with the 60-minute one for any other
  number; reading and marking a row by that name are the two functions after it.
\<close>

definition reminderSentCol :: "reminder_window \<Rightarrow> string" where
  "reminderSentCol w =
     (case w of
        Window60m \<Rightarrow> ''reminder_60m_sent_at''
      | Window15m \<Rightarrow> ''reminder_15m_sent_at''
      | Window5m \<Rightarrow> ''reminder_5m_sent_at''
      | OtherWindow _ \<Rightarrow> ''reminder_60m_sent_at'')"

definition sent_at :: "string \<Rightarrow> task_row \<Rightarrow> time option" where
  "sent_at col r =
     (if col = ''reminder_15m_sent_at'' then tr_reminder_15m_sent_at r
      else if col = ''reminder_5m_sent_at'' then tr_reminder_5m_sent_at r
      else tr_reminder_60m_sent_at r)"

definition set_sent_at :: "string \<Rightarrow> time \<Rightarrow> task_row \<Rightarrow> task_row" where
  "set_sent_at col t r =
     (if col = ''reminder_15m_sent_at'' then r\<lparr>tr_reminder_15m_sent_at := Some t\<rparr>
      else if col = ''reminder_5m_sent_at'' then r\<lparr>tr_reminder_5m_sent_at := Some t\<rparr>
      else r\<lparr>tr_reminder_60m_sent_at := Some t\<rparr>)"

record reminder_info =
  ri_TaskID :: string
  ri_Title :: string
  ri_DueDate :: time
  ri_UserID :: string
  ri_TelegramChatID :: int

text \<open>
  The join of tasks and subscriptions: a row of the result, when both sides qualify. A
  user has at most one subscription row.
\<close>

definition due_info :: "env \<Rightarrow> db \<Rightarrow> time \<Rightarrow> time \<Rightarrow> string \<Rightarrow> task_row \<Rightarrow> reminder_info option" where
  "due_info E d from to col t =
     (case find_row (\<lambda>u. us_user_id u = tr_user_id t) (user_subscriptions d) of
        None \<Rightarrow> None
      | Some u \<Rightarrow>
          (case us_telegram_chat_id u of
             None \<Rightarrow> None
           | Some chat \<Rightarrow>
               if tr_status t \<noteq> ''3'' \<and> us_has_subscription u
                  \<and> (case us_expires_at u of None \<Rightarrow> False | Some x \<Rightarrow> x > now E)
                  \<and> from \<le> tr_due_date t \<and> tr_due_date t \<le> to
                  \<and> sent_at col t = None
               then Some \<lparr>ri_TaskID = tr_task_id t, ri_Title = tr_title t,
                           ri_DueDate = tr_due_date t, ri_UserID = tr_user_id t,
                           ri_TelegramChatID = chat\<rparr>
               else None))"

text \<open>
  The query. The callers take \<open>from\<close> and \<open>to\<close> from \<open>time.Now()\<close> in the zone of the process, and
  \<open>due_date\<close> is a \<open>TIMESTAMP\<close>, so it is the clock that counts.
\<close>

definition find_due_sql :: "env \<Rightarrow> time \<Rightarrow> time \<Rightarrow> string \<Rightarrow> db \<Rightarrow> go_err + reminder_info list" where
  "find_due_sql E from to col d = Inr (List.map_filter (due_info E d (wall_clock E from) (wall_clock E to) col) (tasks d))"

definition repo_FindTasksDueForReminder ::
    "env \<Rightarrow> time \<Rightarrow> time \<Rightarrow> reminder_window \<Rightarrow> pg \<Rightarrow> (go_err + reminder_info list) \<times> pg" where
  "repo_FindTasksDueForReminder E from to window s =
     (let sentCol = reminderSentCol window
      in wrap_err ''find tasks due for reminder'' (pg_query (find_due_sql E from to sentCol) s))"

definition mark_sent_sql :: "env \<Rightarrow> string \<Rightarrow> string \<Rightarrow> db \<Rightarrow> go_err + unit \<times> db" where
  "mark_sent_sql E col taskID d =
     ebind (uuid_arg E taskID) (\<lambda>tid.
       Inr ((), d\<lparr>tasks := update_where (\<lambda>r. tr_task_id r = tid)
                    (set_sent_at col (now E)) (tasks d)\<rparr>))"

definition repo_MarkReminderSent ::
    "env \<Rightarrow> string \<Rightarrow> reminder_window \<Rightarrow> pg \<Rightarrow> (go_err + unit) \<times> pg" where
  "repo_MarkReminderSent E taskID window s =
     (let sentCol = reminderSentCol window
      in wrap_err ''mark reminder sent'' (pg_run (mark_sent_sql E sentCol taskID) s))"

section \<open>What the operations keep\<close>

lemma upsert_subscription_db_ok:
  assumes "upsert_subscription_sql E sub d = Inr (x, d')" and "db_ok d"
  shows "db_ok d'"
proof -
  have "map us_user_id (user_subscriptions d') = map us_user_id (user_subscriptions d)
      \<or> (\<exists>r. us_user_id r \<notin> us_user_id ` set (user_subscriptions d) \<and> user_subscriptions d' = user_subscriptions d @ [r])"
    and same: "\<exists>us. d' = d\<lparr>user_subscriptions := us\<rparr>"
    using assms(1)
    by (auto simp: upsert_subscription_sql_def uuid_arg_def Let_def list_ex_iff map_update_where
        split: option.splits if_splits)
  then have "distinct (map us_user_id (user_subscriptions d'))"
    using assms(2) by (auto simp: db_ok_def schema_ok_def)
  moreover obtain us where "d' = d\<lparr>user_subscriptions := us\<rparr>" using same by blast
  ultimately show ?thesis
    using assms(2) versions_ok_same_events [of d' d]
    by (simp add: db_ok_def schema_ok_def acks_ok_def shared_status_ok_def)
qed

lemma repo_UpsertSubscription_db_ok: "db_inv.keeps (repo_UpsertSubscription E sub)"
  unfolding repo_UpsertSubscription_def
  by (intro db_inv.wrap db_inv.run) (use upsert_subscription_db_ok in blast)

lemma set_sent_at_keeps [simp]:
  "tr_task_id (set_sent_at c t r) = tr_task_id r" "tr_title (set_sent_at c t r) = tr_title r"
  "tr_user_id (set_sent_at c t r) = tr_user_id r" "tr_status (set_sent_at c t r) = tr_status r"
  "tr_due_date (set_sent_at c t r) = tr_due_date r" "tr_priory (set_sent_at c t r) = tr_priory r"
  "tr_user_ack (set_sent_at c t r) = tr_user_ack r"
  "tr_admin_deleted (set_sent_at c t r) = tr_admin_deleted r"
  by (simp_all add: set_sent_at_def)

lemma mark_sent_db_ok: "mark_sent_sql E c i d = Inr (x, d') \<Longrightarrow> db_ok d \<Longrightarrow> db_ok d'"
  by (auto simp: mark_sent_sql_def uuid_arg_def split: option.splits
      intro!: update_tasks_db_ok)
    (auto simp: db_ok_def schema_ok_def)

lemma repo_MarkReminderSent_db_ok: "db_inv.keeps (repo_MarkReminderSent E i w)"
  unfolding repo_MarkReminderSent_def Let_def
  by (intro db_inv.wrap db_inv.run) (use mark_sent_db_ok in blast)

text \<open>
  The contract of the port \<open>SubscriptionRepository\<close> (\<open>tasks/port/subscription_repository.go\<close>) towards
  the tables, and the subscription service over it.
\<close>

locale subscription_repository = store_rel +
  assumes keeps_repo_UpsertSubscription: "keeps (repo_UpsertSubscription E sub)"
    and keeps_repo_MarkReminderSent: "keeps (repo_MarkReminderSent E i w)"
begin

lemma keeps_SyncSubscription: "keeps (SyncSubscription E sub)"
  using keeps_repo_UpsertSubscription by (simp add: SyncSubscription_def [abs_def])

lemma keeps_IsActive: "keeps (IsActive E u)"
  by (rule quiet)
    (auto simp: IsActive_def repo_GetSubscription_def wrap_err_def
      split: prod.splits sum.splits option.splits if_splits dest: pg_query_store)

lemma keeps_repo_FindTasksDueForReminder: "keeps (repo_FindTasksDueForReminder E a b w)"
  unfolding repo_FindTasksDueForReminder_def Let_def by (intro wrap query)

end

interpretation db_inv: subscription_repository "\<lambda>d d'. db_ok d \<longrightarrow> db_ok d'"
  by unfold_locales (fact repo_UpsertSubscription_db_ok repo_MarkReminderSent_db_ok)+

end
