(* ===== verification/SharedTasks.thy ===== *)
theory SharedTasks
  imports SubtaskRepo
begin

text \<open>
  Shared tasks: the domain (\<open>shared_tasks/domain\<close>), the repository
  (\<open>shared_tasks/repository/postgres\<close>) and the service (\<open>shared_tasks/service\<close>). A task
  is proposed by one user to another, who accepts, rejects or counters it (the two then
  swap roles).
\<close>

section \<open>Domain\<close>

definition StatusPending :: string where [simp]: "StatusPending = ''pending''"
definition StatusAccepted :: string where [simp]: "StatusAccepted = ''accepted''"
definition StatusRejected :: string where [simp]: "StatusRejected = ''rejected''"

definition shared_IsValid :: "string \<Rightarrow> bool" where
  "shared_IsValid s \<longleftrightarrow> s = StatusPending \<or> s = StatusAccepted \<or> s = StatusRejected"

record subtask_input =
  si_Title :: string
  si_AssigneeID :: string

record update_input =
  ui_Title :: string
  ui_Description :: string
  ui_Priority :: string
  ui_DueDate :: string
  ui_Subtasks :: "subtask_input list option"

record shared_subtask =
  xs_ID :: string
  xs_SharedTaskID :: string
  xs_Title :: string
  xs_AssigneeID :: string
  xs_AssigneeName :: string
  xs_IsDone :: bool
  xs_Order :: int

record shared_task =
  x_ID :: string
  x_ProposerID :: string
  x_AddresseeID :: string
  x_Title :: string
  x_Description :: string
  x_Priority :: string
  x_Status :: string
  x_DueDate :: "time option"
  x_CreatedAt :: time
  x_ProposerName :: string
  x_AddresseeName :: string
  x_Subtasks :: "shared_subtask list"
  x_AdminDeleted :: bool

definition ErrNoOwnSubtask :: go_err where [simp]: "ErrNoOwnSubtask = Msg ''no own subtask''"
definition ErrNoFriendSubtask :: go_err where [simp]: "ErrNoFriendSubtask = Msg ''no friend subtask''"

text \<open>The loop of \<open>ValidateSubtasksForProposal\<close> over the assignees, with its two flags.\<close>

fun validate_loop :: "string \<Rightarrow> string \<Rightarrow> string list \<Rightarrow> bool \<Rightarrow> bool \<Rightarrow> bool \<times> bool" where
  "validate_loop p a [] own friend = (own, friend)"
| "validate_loop p a (s # ss) own friend =
     validate_loop p a ss (if s = p then True else own) (if s = a then True else friend)"

definition ValidateSubtasksForProposal :: "string \<Rightarrow> string \<Rightarrow> string list \<Rightarrow> go_err + unit" where
  "ValidateSubtasksForProposal p a cands =
     (case validate_loop p a cands False False of
        (hasOwn, hasFriend) \<Rightarrow>
          if \<not> hasOwn then Inl ErrNoOwnSubtask
          else if \<not> hasFriend then Inl ErrNoFriendSubtask
          else Inr ())"

lemma validate_loop_eq:
  "validate_loop p a ss own friend = (own \<or> p \<in> set ss, friend \<or> a \<in> set ss)"
  by (induction ss arbitrary: own friend) auto

lemma ValidateSubtasks_iff:
  "ValidateSubtasksForProposal p a ss = Inr () \<longleftrightarrow> p \<in> set ss \<and> a \<in> set ss"
  by (simp add: ValidateSubtasksForProposal_def validate_loop_eq)

section \<open>Repository: writing\<close>

text \<open>
  A \<open>VARCHAR(n)\<close> column takes at most \<open>n\<close> characters; characters beyond are dropped when
  they are all blanks and an error otherwise. Characters are counted in UTF-8.
\<close>

definition continuation :: "char \<Rightarrow> bool" where
  "continuation c \<longleftrightarrow> CHR 0x80 \<le> c \<and> c < CHR 0xC0"

fun chars_take :: "nat \<Rightarrow> string \<Rightarrow> string \<times> string" where
  "chars_take n [] = ([], [])"
| "chars_take n (c # s) =
     (if continuation c then (case chars_take n s of (a, b) \<Rightarrow> (c # a, b))
      else case n of
        0 \<Rightarrow> ([], c # s)
      | Suc m \<Rightarrow> (case chars_take m s of (a, b) \<Rightarrow> (c # a, b)))"

definition varchar :: "nat \<Rightarrow> string \<Rightarrow> go_err + string" where
  "varchar n s =
     (case chars_take n s of
        (a, b) \<Rightarrow>
          if list_all (\<lambda>c. c = CHR '' '') b then Inr a
          else Inl (DbError ''value too long for type character varying''))"

text \<open>\<open>dueDateArg\<close>: the empty text becomes NULL.\<close>

definition due_arg :: "env \<Rightarrow> string \<Rightarrow> go_err + time option" where
  "due_arg E v =
     (if v \<noteq> [] then ebind (timestamp_arg E v) (\<lambda>t. Inr (Some t)) else Inr None)"

text \<open>The row of the INSERT, with the defaults of the columns it leaves out.\<close>

definition new_shared_row ::
    "env \<Rightarrow> string \<Rightarrow> string \<Rightarrow> string \<Rightarrow> string \<Rightarrow> string \<Rightarrow> string \<Rightarrow> time option \<Rightarrow> shared_task_row" where
  "new_shared_row E newID p a title desc pr due =
     \<lparr>sh_id = newID, sh_proposer_id = p, sh_addressee_id = a, sh_title = title,
      sh_description = desc, sh_priority = pr, sh_due_date = due, sh_status = ''pending'',
      sh_created_at = now E, sh_updated_at = now E, sh_admin_deleted = Some False,
      sh_admin_deleted_at = None, sh_user_ack = Some False\<rparr>"

definition insert_shared_sql ::
    "env \<Rightarrow> string \<Rightarrow> string \<Rightarrow> string \<Rightarrow> string \<Rightarrow> string \<Rightarrow> string \<Rightarrow> string \<Rightarrow> db \<Rightarrow> go_err + string \<times> db" where
  "insert_shared_sql E newID proposerID addresseeID title desc priority dueDate d =
     ebind (uuid_arg E proposerID) (\<lambda>p.
     ebind (uuid_arg E addresseeID) (\<lambda>a.
     ebind (varchar 10 priority) (\<lambda>pr.
     ebind (due_arg E dueDate) (\<lambda>due.
     ebind (check (newID \<notin> sh_id ` set (shared_tasks d)) (DbError ''shared_tasks_pkey'')) (\<lambda>_.
       Inr (newID, d\<lparr>shared_tasks := shared_tasks d @
         [new_shared_row E newID p a title desc pr due]\<rparr>))))))"

definition insert_shared_subtask_sql ::
    "env \<Rightarrow> string \<Rightarrow> string \<Rightarrow> subtask_input \<Rightarrow> nat \<Rightarrow> db \<Rightarrow> go_err + unit \<times> db" where
  "insert_shared_subtask_sql E newID taskID s i d =
     ebind (uuid_arg E taskID) (\<lambda>tid.
     ebind (uuid_arg E (si_AssigneeID s)) (\<lambda>a.
     ebind (check (int4_ok (int i)) (DbError ''integer out of range'')) (\<lambda>_.
     ebind (check (newID \<notin> ss_id ` set (shared_subtasks d)) (DbError ''shared_subtasks_pkey'')) (\<lambda>_.
     ebind (check (tid \<in> sh_id ` set (shared_tasks d)) (DbError ''shared_subtasks_fkey'')) (\<lambda>_.
       Inr ((), d\<lparr>shared_subtasks := shared_subtasks d @
         [\<lparr>ss_id = newID, ss_shared_task_id = tid, ss_title = si_Title s, ss_assignee_id = a,
           ss_is_done = False, ss_order_num = int i\<rparr>]\<rparr>))))))"

text \<open>
  The loop over the subtasks, from index \<open>i\<close> on: one INSERT each, the incomplete ones
  skipped but counted.
\<close>

fun insert_subtasks_loop ::
    "env \<Rightarrow> string \<Rightarrow> string \<Rightarrow> nat \<Rightarrow> subtask_input list \<Rightarrow> pg \<Rightarrow> (go_err + unit) \<times> pg" where
  "insert_subtasks_loop E msg taskID i [] s = (Inr (), s)"
| "insert_subtasks_loop E msg taskID i (x # xs) s =
     (if si_Title x = [] \<or> si_AssigneeID x = [] then insert_subtasks_loop E msg taskID (Suc i) xs s
      else case take_id E s of (newID, s) \<Rightarrow>
        (case wrap_err msg (pg_run (insert_shared_subtask_sql E newID taskID x i) s) of
           (Inl e, s) \<Rightarrow> (Inl e, s)
         | (Inr _, s) \<Rightarrow> insert_subtasks_loop E msg taskID (Suc i) xs s))"

definition propose_body ::
    "env \<Rightarrow> string \<Rightarrow> string \<Rightarrow> string \<Rightarrow> string \<Rightarrow> string \<Rightarrow> string \<Rightarrow> subtask_input list
      \<Rightarrow> pg \<Rightarrow> (go_err + string) \<times> pg" where
  "propose_body E proposerID addresseeID title desc priority dueDate subs s =
     (let priority = (if priority = [] then ''red'' else priority);
          (newID, s) = take_id E s
      in case wrap_err ''insert shared_task''
               (pg_run (insert_shared_sql E newID proposerID addresseeID title desc priority dueDate) s) of
           (Inl e, s) \<Rightarrow> (Inl e, s)
         | (Inr taskID, s) \<Rightarrow>
             (case insert_subtasks_loop E ''insert shared_subtask'' taskID 0 subs s of
                (Inl e, s) \<Rightarrow> (Inl e, s)
              | (Inr _, s) \<Rightarrow> (Inr taskID, s)))"

definition repo_Propose ::
    "env \<Rightarrow> string \<Rightarrow> string \<Rightarrow> string \<Rightarrow> string \<Rightarrow> string \<Rightarrow> string \<Rightarrow> subtask_input list
      \<Rightarrow> pg \<Rightarrow> (go_err + string) \<times> pg" where
  "repo_Propose E proposerID addresseeID title desc priority dueDate subs s =
     pg_tx ''begin tx'' (Wrap ''commit tx'')
       (propose_body E proposerID addresseeID title desc priority dueDate subs) s"

section \<open>Repository: reading\<close>

definition sub_name :: "db \<Rightarrow> string \<Rightarrow> string" where \<comment> \<open>\<open>COALESCE(us.name, '')\<close> of the joined user\<close>
  "sub_name d u =
     (case find_row (\<lambda>r. us_user_id r = u) (user_subscriptions d) of None \<Rightarrow> [] | Some r \<Rightarrow> us_name r)"

definition scanSharedTask :: "db \<Rightarrow> shared_task_row \<Rightarrow> shared_task" where
  "scanSharedTask d r =
     \<lparr>x_ID = sh_id r, x_ProposerID = sh_proposer_id r, x_AddresseeID = sh_addressee_id r,
      x_Title = sh_title r, x_Description = sh_description r, x_Priority = sh_priority r,
      x_Status = sh_status r, x_DueDate = sh_due_date r, x_CreatedAt = sh_created_at r,
      x_ProposerName = sub_name d (sh_proposer_id r),
      x_AddresseeName = sub_name d (sh_addressee_id r), x_Subtasks = [],
      x_AdminDeleted = is_true (sh_admin_deleted r)\<rparr>"

definition scanSharedSubtask :: "db \<Rightarrow> shared_subtask_row \<Rightarrow> shared_subtask" where
  "scanSharedSubtask d r =
     \<lparr>xs_ID = ss_id r, xs_SharedTaskID = ss_shared_task_id r, xs_Title = ss_title r,
      xs_AssigneeID = ss_assignee_id r, xs_AssigneeName = sub_name d (ss_assignee_id r),
      xs_IsDone = ss_is_done r, xs_Order = ss_order_num r\<rparr>"

definition participant :: "string \<Rightarrow> shared_task_row \<Rightarrow> bool" where
  "participant u r \<longleftrightarrow> sh_proposer_id r = u \<or> sh_addressee_id r = u"

definition find_shared_by_user_sql :: "env \<Rightarrow> string \<Rightarrow> db \<Rightarrow> go_err + shared_task list" where
  "find_shared_by_user_sql E userID d =
     ebind (uuid_arg E userID) (\<lambda>u.
       Inr (map (scanSharedTask d)
             (sort_key (\<lambda>r. - sh_created_at r)
               (filter (\<lambda>r. participant u r
                          \<and> \<not> (is_true (sh_admin_deleted r) \<and> is_true (sh_user_ack r)))
                  (shared_tasks d)))))"

definition find_shared_all_sql :: "db \<Rightarrow> go_err + shared_task list" where
  "find_shared_all_sql d =
     Inr (map (scanSharedTask d) (sort_key (\<lambda>r. - sh_created_at r) (shared_tasks d)))"

definition shared_subtasks_sql :: "env \<Rightarrow> string list \<Rightarrow> db \<Rightarrow> go_err + shared_subtask list" where
  "shared_subtasks_sql E ids d =
     ebind (uuid_args E ids) (\<lambda>tids.
       Inr (map (scanSharedSubtask d)
             (sort_key ss_order_num
               (filter (\<lambda>r. ss_shared_task_id r \<in> set tids) (shared_subtasks d)))))"

text \<open>
  The map \<open>idx\<close> from task ids to positions (a later duplicate wins), and one round of the
  loop that hands a subtask to its task.
\<close>

definition idx_of :: "shared_task list \<Rightarrow> string \<Rightarrow> nat option" where
  "idx_of ts = map_of (rev (zip (map x_ID ts) [0..<length ts]))"

definition attach :: "(string \<Rightarrow> nat option) \<Rightarrow> shared_subtask \<Rightarrow> shared_task list \<Rightarrow> shared_task list" where
  "attach idx s ts =
     (case idx (xs_SharedTaskID s) of
        None \<Rightarrow> ts
      | Some i \<Rightarrow> ts[i := (ts ! i)\<lparr>x_Subtasks := x_Subtasks (ts ! i) @ [s]\<rparr>])"

definition findTasksWithSubtasks ::
    "env \<Rightarrow> (db \<Rightarrow> go_err + shared_task list) \<Rightarrow> pg \<Rightarrow> (go_err + shared_task list) \<times> pg" where
  "findTasksWithSubtasks E query s =
     (case wrap_err ''query shared tasks'' (pg_query query s) of
        (Inl e, s) \<Rightarrow> (Inl e, s)
      | (Inr ts, s) \<Rightarrow>
          if length ts = 0 then (Inr ts, s)
          else let ids = map x_ID ts
            in case wrap_err ''get subtasks'' (pg_query (shared_subtasks_sql E ids) s) of
                 (Inl e, s) \<Rightarrow> (Inl e, s)
               | (Inr subs, s) \<Rightarrow> (Inr (fold (attach (idx_of ts)) subs ts), s))"

definition shared_FindByUser :: "env \<Rightarrow> string \<Rightarrow> pg \<Rightarrow> (go_err + shared_task list) \<times> pg" where
  "shared_FindByUser E userID s = findTasksWithSubtasks E (find_shared_by_user_sql E userID) s"

definition shared_FindAll :: "env \<Rightarrow> pg \<Rightarrow> (go_err + shared_task list) \<times> pg" where
  "shared_FindAll E s = findTasksWithSubtasks E find_shared_all_sql s"

definition find_shared_sql :: "env \<Rightarrow> string \<Rightarrow> string \<Rightarrow> db \<Rightarrow> go_err + shared_task" where
  "find_shared_sql E taskID userID d =
     ebind (uuid_arg E taskID) (\<lambda>tid.
     ebind (uuid_arg E userID) (\<lambda>u.
       case find_row (\<lambda>r. sh_id r = tid \<and> participant u r) (shared_tasks d) of
         None \<Rightarrow> Inl PgxNoRows
       | Some r \<Rightarrow> Inr (scanSharedTask d r)))"

definition shared_FindByID :: "env \<Rightarrow> string \<Rightarrow> string \<Rightarrow> pg \<Rightarrow> (go_err + shared_task option) \<times> pg" where
  "shared_FindByID E taskID userID s =
     (case pg_query (find_shared_sql E taskID userID) s of
        (Inl e, s) \<Rightarrow>
          if errors_Is e PgxNoRows then (Inr None, s)
          else (Inl (Wrap ''get shared task detail'' e), s)
      | (Inr t, s) \<Rightarrow>
          (case wrap_err ''get subtasks detail'' (pg_query (shared_subtasks_sql E [taskID]) s) of
             (Inl e, s) \<Rightarrow> (Inl e, s)
           | (Inr subs, s) \<Rightarrow> (Inr (Some (t\<lparr>x_Subtasks := subs\<rparr>)), s)))"

section \<open>Repository: answering, editing, deleting\<close>

definition respond_sql :: "env \<Rightarrow> string \<Rightarrow> string \<Rightarrow> string \<Rightarrow> db \<Rightarrow> go_err + nat \<times> db" where
  "respond_sql E taskID userID status d =
     ebind (uuid_arg E taskID) (\<lambda>tid.
     ebind (uuid_arg E userID) (\<lambda>u.
     ebind (varchar 20 status) (\<lambda>st.
       let hit = (\<lambda>r. sh_id r = tid \<and> sh_addressee_id r = u \<and> sh_status r = ''pending'')
       in Inr (length (filter hit (shared_tasks d)),
               d\<lparr>shared_tasks := update_where hit
                   (\<lambda>r. r\<lparr>sh_status := st, sh_updated_at := now E\<rparr>) (shared_tasks d)\<rparr>))))"

definition shared_Respond :: "env \<Rightarrow> string \<Rightarrow> string \<Rightarrow> string \<Rightarrow> pg \<Rightarrow> (go_err + unit) \<times> pg" where
  "shared_Respond E taskID userID status s =
     (case wrap_err ''respond shared task'' (pg_run (respond_sql E taskID userID status) s) of
        (Inl e, s) \<Rightarrow> (Inl e, s)
      | (Inr n, s) \<Rightarrow>
          if n = 0 then (Inl (Msg ''task not found or already handled''), s) else (Inr (), s))"

text \<open>The fields an edit sets; a counter-proposal also swaps the two participants.\<close>

definition edit_row :: "env \<Rightarrow> update_input \<Rightarrow> string \<Rightarrow> time option \<Rightarrow> shared_task_row \<Rightarrow> shared_task_row" where
  "edit_row E inp pr due r =
     r\<lparr>sh_title := ui_Title inp, sh_description := ui_Description inp, sh_priority := pr,
       sh_due_date := due, sh_updated_at := now E\<rparr>"

definition swap_row :: "shared_task_row \<Rightarrow> shared_task_row" where
  "swap_row r = r\<lparr>sh_proposer_id := sh_addressee_id r, sh_addressee_id := sh_proposer_id r\<rparr>"

definition update_shared_sql :: "env \<Rightarrow> string \<Rightarrow> string \<Rightarrow> update_input \<Rightarrow> db \<Rightarrow> go_err + nat \<times> db" where
  "update_shared_sql E taskID userID inp d =
     ebind (uuid_arg E taskID) (\<lambda>tid.
     ebind (uuid_arg E userID) (\<lambda>u.
     ebind (varchar 10 (ui_Priority inp)) (\<lambda>pr.
     ebind (due_arg E (ui_DueDate inp)) (\<lambda>due.
       let hit = (\<lambda>r. sh_id r = tid \<and> participant u r)
       in Inr (length (filter hit (shared_tasks d)),
               d\<lparr>shared_tasks := update_where hit (edit_row E inp pr due) (shared_tasks d)\<rparr>)))))"

definition counter_sql :: "env \<Rightarrow> string \<Rightarrow> string \<Rightarrow> update_input \<Rightarrow> db \<Rightarrow> go_err + nat \<times> db" where
  "counter_sql E taskID addresseeID inp d =
     ebind (uuid_arg E taskID) (\<lambda>tid.
     ebind (uuid_arg E addresseeID) (\<lambda>u.
     ebind (varchar 10 (ui_Priority inp)) (\<lambda>pr.
     ebind (due_arg E (ui_DueDate inp)) (\<lambda>due.
       let hit = (\<lambda>r. sh_id r = tid \<and> sh_addressee_id r = u \<and> sh_status r = ''pending'')
       in Inr (length (filter hit (shared_tasks d)),
               d\<lparr>shared_tasks := update_where hit (\<lambda>r. swap_row (edit_row E inp pr due r))
                   (shared_tasks d)\<rparr>)))))"

definition clear_subtasks_sql :: "env \<Rightarrow> string \<Rightarrow> db \<Rightarrow> go_err + unit \<times> db" where
  "clear_subtasks_sql E taskID d =
     ebind (uuid_arg E taskID) (\<lambda>tid.
       Inr ((), d\<lparr>shared_subtasks := filter (\<lambda>r. ss_shared_task_id r \<noteq> tid) (shared_subtasks d)\<rparr>))"

text \<open>The part the two edits share: replacing the subtasks when some are given.\<close>

definition rewrite_subtasks :: "env \<Rightarrow> string \<Rightarrow> update_input \<Rightarrow> pg \<Rightarrow> (go_err + unit) \<times> pg" where
  "rewrite_subtasks E taskID inp s =
     (case ui_Subtasks inp of
        None \<Rightarrow> (Inr (), s)
      | Some subs \<Rightarrow>
          (case wrap_err ''delete subtasks'' (pg_run (clear_subtasks_sql E taskID) s) of
             (Inl e, s) \<Rightarrow> (Inl e, s)
           | (Inr _, s) \<Rightarrow> insert_subtasks_loop E ''insert subtask'' taskID 0 subs s))"

definition shared_update_body :: "env \<Rightarrow> string \<Rightarrow> string \<Rightarrow> update_input \<Rightarrow> pg \<Rightarrow> (go_err + unit) \<times> pg" where
  "shared_update_body E taskID userID inp s =
     (case wrap_err ''update shared_task'' (pg_run (update_shared_sql E taskID userID inp) s) of
        (Inl e, s) \<Rightarrow> (Inl e, s)
      | (Inr n, s) \<Rightarrow>
          if n = 0 then (Inl (Msg ''task not found or no right to edit''), s)
          else rewrite_subtasks E taskID inp s)"

definition shared_Update :: "env \<Rightarrow> string \<Rightarrow> string \<Rightarrow> update_input \<Rightarrow> pg \<Rightarrow> (go_err + unit) \<times> pg" where
  "shared_Update E taskID userID inp s =
     pg_tx ''begin tx'' (\<lambda>e. e) (shared_update_body E taskID userID inp) s"

definition counter_body :: "env \<Rightarrow> string \<Rightarrow> string \<Rightarrow> update_input \<Rightarrow> pg \<Rightarrow> (go_err + unit) \<times> pg" where
  "counter_body E taskID addresseeID inp s =
     (case wrap_err ''counter propose'' (pg_run (counter_sql E taskID addresseeID inp) s) of
        (Inl e, s) \<Rightarrow> (Inl e, s)
      | (Inr n, s) \<Rightarrow>
          if n = 0 then (Inl (Msg ''task not found or already handled''), s)
          else rewrite_subtasks E taskID inp s)"

definition shared_CounterPropose :: "env \<Rightarrow> string \<Rightarrow> string \<Rightarrow> update_input \<Rightarrow> pg \<Rightarrow> (go_err + unit) \<times> pg" where
  "shared_CounterPropose E taskID addresseeID inp s =
     pg_tx ''begin tx'' (\<lambda>e. e) (counter_body E taskID addresseeID inp) s"

definition select_shared_sql ::
    "env \<Rightarrow> string \<Rightarrow> string \<Rightarrow> db \<Rightarrow> go_err + string \<times> string \<times> string \<times> string" where
  "select_shared_sql E taskID userID d =
     ebind (uuid_arg E taskID) (\<lambda>tid.
     ebind (uuid_arg E userID) (\<lambda>u.
       case find_row (\<lambda>r. sh_id r = tid \<and> participant u r) (shared_tasks d) of
         None \<Rightarrow> Inl PgxNoRows
       | Some r \<Rightarrow> Inr (sh_proposer_id r, sh_addressee_id r, sh_title r, sh_status r)))"

definition delete_shared_sql :: "env \<Rightarrow> string \<Rightarrow> string \<Rightarrow> db \<Rightarrow> go_err + nat \<times> db" where
  "delete_shared_sql E taskID userID d =
     ebind (uuid_arg E taskID) (\<lambda>tid.
     ebind (uuid_arg E userID) (\<lambda>u.
       let hit = (\<lambda>r. sh_id r = tid \<and> participant u r);
           gone = filter hit (shared_tasks d)
       in Inr (length gone,
               d\<lparr>shared_tasks := filter (\<lambda>r. \<not> hit r) (shared_tasks d),
                 shared_subtasks := filter (\<lambda>r. ss_shared_task_id r \<notin> sh_id ` set gone)
                   (shared_subtasks d)\<rparr>)))"

definition shared_Delete :: "env \<Rightarrow> string \<Rightarrow> string \<Rightarrow> pg \<Rightarrow> (go_err + string \<times> string) \<times> pg" where
  "shared_Delete E taskID userID s =
     (case pg_query (select_shared_sql E taskID userID) s of
        (Inl e, s) \<Rightarrow>
          if errors_Is e PgxNoRows then (Inl (Msg ''task not found or no access''), s)
          else (Inl (Wrap ''get shared task for delete'' e), s)
      | (Inr (proposerID, addresseeID, title, status), s) \<Rightarrow>
          if status = ''pending'' \<and> userID = addresseeID
          then (Inl (Msg ''cannot delete a task you have not accepted yet''), s)
          else let partnerID = (if userID = proposerID then addresseeID else proposerID)
            in case wrap_err ''delete shared_task'' (pg_run (delete_shared_sql E taskID userID) s) of
                 (Inl e, s) \<Rightarrow> (Inl e, s)
               | (Inr n, s) \<Rightarrow>
                   if n = 0 then (Inl (Msg ''task not found or no right to delete''), s)
                   else if status \<noteq> ''accepted'' then (Inr ([], []), s)
                   else (Inr (partnerID, title), s))"

definition toggle_shared_sql :: "env \<Rightarrow> string \<Rightarrow> string \<Rightarrow> db \<Rightarrow> go_err + shared_subtask_row \<times> db" where
  "toggle_shared_sql E subtaskID userID d =
     ebind (uuid_arg E subtaskID) (\<lambda>sid.
     ebind (uuid_arg E userID) (\<lambda>u.
       let hit = (\<lambda>r. ss_id r = sid \<and> list_ex (\<lambda>t. sh_id t = ss_shared_task_id r \<and> participant u t)
                                       (shared_tasks d))
       in case find_row hit (shared_subtasks d) of
            None \<Rightarrow> Inl PgxNoRows
          | Some r \<Rightarrow>
              Inr (r\<lparr>ss_is_done := \<not> ss_is_done r\<rparr>,
                   d\<lparr>shared_subtasks := update_where hit
                       (\<lambda>r. r\<lparr>ss_is_done := \<not> ss_is_done r\<rparr>) (shared_subtasks d)\<rparr>)))"

definition shared_ToggleSubtaskDone ::
    "env \<Rightarrow> string \<Rightarrow> string \<Rightarrow> pg \<Rightarrow> (go_err + shared_subtask) \<times> pg" where
  "shared_ToggleSubtaskDone E subtaskID assigneeID s =
     (case pg_run (toggle_shared_sql E subtaskID assigneeID) s of
        (Inl e, s) \<Rightarrow>
          if errors_Is e PgxNoRows then (Inl (Msg ''subtask not found or no access''), s)
          else (Inl (Wrap ''toggle subtask'' e), s)
      | (Inr r, s) \<Rightarrow>
          (Inr \<lparr>xs_ID = ss_id r, xs_SharedTaskID = ss_shared_task_id r, xs_Title = ss_title r,
                xs_AssigneeID = ss_assignee_id r, xs_AssigneeName = [], xs_IsDone = ss_is_done r,
                xs_Order = ss_order_num r\<rparr>, s))"

section \<open>Service\<close>

text \<open>
  The service only adds logging to the repository calls it forwards; \<open>Propose\<close> and
  \<open>Update\<close> have logic of their own.
\<close>

definition svc_Propose ::
    "env \<Rightarrow> string \<Rightarrow> string \<Rightarrow> string \<Rightarrow> string \<Rightarrow> string \<Rightarrow> string \<Rightarrow> subtask_input list
      \<Rightarrow> pg \<Rightarrow> (go_err + string) \<times> pg" where
  "svc_Propose E proposerID addresseeID title desc priority dueDate subs s =
     (if proposerID = addresseeID then (Inl (Msg ''shared task with oneself''), s)
      else let candidates = map si_AssigneeID (filter (\<lambda>x. si_Title x \<noteq> []) subs)
        in case ValidateSubtasksForProposal proposerID addresseeID candidates of
             Inl e \<Rightarrow> (Inl e, s)
           | Inr _ \<Rightarrow> repo_Propose E proposerID addresseeID title desc priority dueDate subs s)"

text \<open>The operations the service only forwards.\<close>

definition sharedsvc_FindByUser :: "env \<Rightarrow> string \<Rightarrow> pg \<Rightarrow> (go_err + shared_task list) \<times> pg" where
  [simp]: "sharedsvc_FindByUser E userID = shared_FindByUser E userID"

definition sharedsvc_AdminFindAll :: "env \<Rightarrow> pg \<Rightarrow> (go_err + shared_task list) \<times> pg" where
  [simp]: "sharedsvc_AdminFindAll E = shared_FindAll E"

definition sharedsvc_FindByID :: "env \<Rightarrow> string \<Rightarrow> string \<Rightarrow> pg \<Rightarrow> (go_err + shared_task option) \<times> pg" where
  [simp]: "sharedsvc_FindByID E taskID userID = shared_FindByID E taskID userID"

definition sharedsvc_Delete :: "env \<Rightarrow> string \<Rightarrow> string \<Rightarrow> pg \<Rightarrow> (go_err + string \<times> string) \<times> pg" where
  [simp]: "sharedsvc_Delete E taskID userID = shared_Delete E taskID userID"

definition sharedsvc_ToggleSubtaskDone ::
    "env \<Rightarrow> string \<Rightarrow> string \<Rightarrow> pg \<Rightarrow> (go_err + shared_subtask) \<times> pg" where
  [simp]: "sharedsvc_ToggleSubtaskDone E subtaskID assigneeID = shared_ToggleSubtaskDone E subtaskID assigneeID"

definition svc_Accept :: "env \<Rightarrow> string \<Rightarrow> string \<Rightarrow> pg \<Rightarrow> (go_err + unit) \<times> pg" where
  "svc_Accept E taskID userID s = shared_Respond E taskID userID StatusAccepted s"

definition svc_Reject :: "env \<Rightarrow> string \<Rightarrow> string \<Rightarrow> pg \<Rightarrow> (go_err + unit) \<times> pg" where
  "svc_Reject E taskID userID s = shared_Respond E taskID userID StatusRejected s"

definition svc_Update :: "env \<Rightarrow> string \<Rightarrow> string \<Rightarrow> update_input \<Rightarrow> pg \<Rightarrow> (go_err + bool) \<times> pg" where
  "svc_Update E taskID userID inp s =
     (case shared_FindByID E taskID userID s of
        (Inl e, s) \<Rightarrow> (Inl e, s)
      | (Inr None, s) \<Rightarrow> (Inl (Msg ''task not found''), s)
      | (Inr (Some task), s) \<Rightarrow>
          if x_Status task = StatusPending \<and> x_AddresseeID task = userID
          then (case shared_CounterPropose E taskID userID inp s of
                  (Inl e, s) \<Rightarrow> (Inl e, s) | (Inr _, s) \<Rightarrow> (Inr True, s))
          else (case shared_Update E taskID userID inp s of
                  (Inl e, s) \<Rightarrow> (Inl e, s) | (Inr _, s) \<Rightarrow> (Inr False, s)))"

section \<open>What the operations keep\<close>

text \<open>Changes to the subtasks of shared tasks leave the rest of the invariant alone.\<close>

lemma shared_subtasks_db_ok:
  assumes "db_ok d" and "distinct (map ss_id ss)"
    and "\<forall>r \<in> set ss. ss_shared_task_id r \<in> sh_id ` set (shared_tasks d)"
  shows "db_ok (d\<lparr>shared_subtasks := ss\<rparr>)"
  using assms versions_ok_same_events [of "d\<lparr>shared_subtasks := ss\<rparr>" d]
  by (auto simp: db_ok_def schema_ok_def acks_ok_def shared_status_ok_def)

lemma shared_subtasks_rows:
  "db_ok d \<Longrightarrow> distinct (map ss_id (shared_subtasks d))"
  "db_ok d \<Longrightarrow> r \<in> set (shared_subtasks d) \<Longrightarrow> ss_shared_task_id r \<in> sh_id ` set (shared_tasks d)"
  by (auto simp: db_ok_def schema_ok_def)

lemma insert_shared_sql_db_ok:
  assumes "insert_shared_sql E n p a ti de pr du d = Inr (x, d')" and "db_ok d"
  shows "db_ok d'"
proof -
  obtain r where d': "d' = d\<lparr>shared_tasks := shared_tasks d @ [r]\<rparr>"
    and r: "sh_id r \<notin> sh_id ` set (shared_tasks d)" "sh_status r = ''pending''" "sh_user_ack r = Some False"
    using assms(1) by (auto simp: insert_shared_sql_def new_shared_row_def)
  then show ?thesis
    using assms(2) versions_ok_same_events [of d' d]
    by (auto simp: db_ok_def schema_ok_def acks_ok_def shared_status_ok_def)
qed

lemma insert_shared_subtask_sql_db_ok:
  "insert_shared_subtask_sql E n i x k d = Inr (u, d') \<Longrightarrow> db_ok d \<Longrightarrow> db_ok d'"
  by (auto simp: insert_shared_subtask_sql_def shared_subtasks_rows intro!: shared_subtasks_db_ok)

lemma chars_take_short: "length s \<le> n \<Longrightarrow> chars_take n s = (s, [])"
  by (induction n s rule: chars_take.induct) (auto split: nat.splits)

lemma varchar_short [simp]: "length s \<le> n \<Longrightarrow> varchar n s = Inr s"
  by (simp add: varchar_def chars_take_short)

lemma respond_sql_db_ok:
  assumes "respond_sql E i u st d = Inr (n, d')" and "shared_IsValid st" and "db_ok d"
  shows "db_ok d'"
proof -
  have "length st \<le> 20" using assms(2) by (auto simp: shared_IsValid_def)
  then have "varchar 20 st = Inr st" by (rule varchar_short)
  with assms show ?thesis
    by (auto simp: respond_sql_def Let_def shared_IsValid_def intro!: update_shared_db_ok)
qed

lemma edit_rows_db_ok:
  assumes "db_ok d"
  shows "db_ok (d\<lparr>shared_tasks := update_where P (edit_row E inp pr due) (shared_tasks d)\<rparr>)"
    and "db_ok (d\<lparr>shared_tasks := update_where P (\<lambda>r. swap_row (edit_row E inp pr due r)) (shared_tasks d)\<rparr>)"
  by (rule mark_shared_db_ok; use assms in \<open>simp add: edit_row_def swap_row_def\<close>)+

lemma edit_sql_db_ok:
  "update_shared_sql E i u inp d = Inr (n, d') \<Longrightarrow> db_ok d \<Longrightarrow> db_ok d'"
  "counter_sql E i u inp d = Inr (n, d') \<Longrightarrow> db_ok d \<Longrightarrow> db_ok d'"
  by (auto simp: update_shared_sql_def counter_sql_def Let_def intro: edit_rows_db_ok)

lemma clear_subtasks_sql_db_ok: "clear_subtasks_sql E i d = Inr (x, d') \<Longrightarrow> db_ok d \<Longrightarrow> db_ok d'"
  by (auto simp: clear_subtasks_sql_def shared_subtasks_rows intro!: shared_subtasks_db_ok distinct_map_filter)

lemma delete_shared_db_ok:
  assumes "db_ok d"
  shows "db_ok (d\<lparr>shared_tasks := filter (\<lambda>r. \<not> hit r) (shared_tasks d),
     shared_subtasks := filter (\<lambda>r. ss_shared_task_id r \<notin> sh_id ` set (filter hit (shared_tasks d)))
       (shared_subtasks d)\<rparr>)"
    (is "db_ok ?d")
proof -
  have "schema_ok ?d" using assms
    by (auto simp: db_ok_def schema_ok_def image_iff) blast
  then show ?thesis
    using assms versions_ok_same_events [of ?d d]
    by (auto simp: db_ok_def acks_ok_def shared_status_ok_def)
qed

lemma delete_shared_sql_db_ok:
  assumes "delete_shared_sql E i u d = Inr (n, d')" and "db_ok d"
  shows "db_ok d'"
proof -
  obtain tid uid where "d' = d\<lparr>shared_tasks := filter (\<lambda>r. \<not> (sh_id r = tid \<and> participant uid r)) (shared_tasks d),
     shared_subtasks := filter (\<lambda>r. ss_shared_task_id r
         \<notin> sh_id ` set (filter (\<lambda>r. sh_id r = tid \<and> participant uid r) (shared_tasks d)))
       (shared_subtasks d)\<rparr>"
    using assms(1) by (auto simp: delete_shared_sql_def Let_def)
  with delete_shared_db_ok [OF assms(2), of "\<lambda>r. sh_id r = tid \<and> participant uid r"]
  show ?thesis by (simp only:)
qed

lemma toggle_shared_db_ok:
  assumes "db_ok d"
  shows "db_ok (d\<lparr>shared_subtasks := update_where P (\<lambda>r. r\<lparr>ss_is_done := \<not> ss_is_done r\<rparr>) (shared_subtasks d)\<rparr>)"
proof (rule shared_subtasks_db_ok [OF assms])
  let ?f = "\<lambda>r. r\<lparr>ss_is_done := \<not> ss_is_done r\<rparr>"
  have "map ss_id (update_where P ?f (shared_subtasks d)) = map ss_id (shared_subtasks d)"
    by (rule map_update_where) simp
  then show "distinct (map ss_id (update_where P ?f (shared_subtasks d)))"
    using shared_subtasks_rows(1) [OF assms] by simp
  show "\<forall>r \<in> set (update_where P ?f (shared_subtasks d)). ss_shared_task_id r \<in> sh_id ` set (shared_tasks d)"
    using shared_subtasks_rows(2) [OF assms] by (auto simp: set_update_where)
qed

lemma toggle_shared_sql_db_ok: "toggle_shared_sql E i u d = Inr (r, d') \<Longrightarrow> db_ok d \<Longrightarrow> db_ok d'"
  by (auto simp: toggle_shared_sql_def Let_def split: option.splits intro!: toggle_shared_db_ok)

lemma shared_FindByID_store: "shared_FindByID E i u s = (r, s') \<Longrightarrow> store s' = store s"
  by (auto simp: shared_FindByID_def wrap_err_def split: prod.splits sum.splits if_splits
      dest!: pg_query_store)

text \<open>
  The contract of the port \<open>SharedTaskRepository\<close> (\<open>shared_tasks/port/repository.go\<close>) towards the
  tables, statement by statement; the transactions of the repository and the service over it
  follow once for every relation.
\<close>

locale shared_task_repository = store_rel +
  assumes insert_shared: "insert_shared_sql E n p a ti de pr du d = Inr (newID, d') \<Longrightarrow> R d d'"
    and insert_shared_subtask: "insert_shared_subtask_sql E n i sub k d = Inr (x, d') \<Longrightarrow> R d d'"
    and respond: "respond_sql E i u st d = Inr (m, d') \<Longrightarrow> shared_IsValid st \<Longrightarrow> R d d'"
    and update_shared: "update_shared_sql E i u inp d = Inr (m, d') \<Longrightarrow> R d d'"
    and counter: "counter_sql E i u inp d = Inr (m, d') \<Longrightarrow> R d d'"
    and clear_subtasks: "clear_subtasks_sql E i d = Inr (x, d') \<Longrightarrow> R d d'"
    and delete_shared: "delete_shared_sql E i u d = Inr (m, d') \<Longrightarrow> R d d'"
    and toggle_shared: "toggle_shared_sql E i u d = Inr (row, d') \<Longrightarrow> R d d'"
begin

lemma keeps_insert_subtasks_loop: "keeps (insert_subtasks_loop E m i k xs)"
proof (induction xs arbitrary: k)
  case Nil
  then show ?case by (simp add: keeps_def R_refl)
next
  case (Cons x xs)
  have "keeps (\<lambda>s. if si_Title x = [] \<or> si_AssigneeID x = [] then insert_subtasks_loop E m i (Suc k) xs s
      else case take_id E s of (newID, s) \<Rightarrow>
        (case wrap_err m (pg_run (insert_shared_subtask_sql E newID i x k) s) of
           (Inl e, s) \<Rightarrow> (Inl e, s)
         | (Inr _, s) \<Rightarrow> insert_subtasks_loop E m i (Suc k) xs s))"
    by (intro cond Cons.IH fresh_id bind wrap run ret) (rule insert_shared_subtask)
  then show ?case by (simp add: keeps_def)
qed

lemma keeps_repo_Propose: "keeps (repo_Propose E p a ti de pr du subs)"
  unfolding repo_Propose_def propose_body_def Let_def
  by (intro tx fresh_id bind wrap run ret keeps_insert_subtasks_loop) (rule insert_shared)

lemma keeps_svc_Propose: "keeps (svc_Propose E p a ti de pr du subs)"
proof -
  have "keeps (\<lambda>s. case v of Inl e \<Rightarrow> (Inl e, s)
      | Inr _ \<Rightarrow> repo_Propose E p a ti de pr du subs s)" for v :: "go_err + unit"
    by (cases v) (simp_all add: ret keeps_repo_Propose)
  then show ?thesis
    unfolding svc_Propose_def Let_def by (intro cond ret)
qed

lemma keeps_svc_respond: "keeps (svc_Accept E i u)" "keeps (svc_Reject E i u)"
  unfolding svc_Accept_def svc_Reject_def shared_Respond_def
  by (intro bind wrap run ret cond; auto simp: shared_IsValid_def dest: respond)+

lemma keeps_rewrite_subtasks: "keeps (rewrite_subtasks E i inp)"
  by (cases "ui_Subtasks inp")
    (auto simp: rewrite_subtasks_def [abs_def]
      intro!: ret bind wrap run keeps_insert_subtasks_loop clear_subtasks)

lemma keeps_shared_Update: "keeps (shared_Update E i u inp)"
  unfolding shared_Update_def shared_update_body_def
  by (intro tx bind wrap run ret cond keeps_rewrite_subtasks) (rule update_shared)

lemma keeps_shared_CounterPropose: "keeps (shared_CounterPropose E i u inp)"
  unfolding shared_CounterPropose_def counter_body_def
  by (intro tx bind wrap run ret cond keeps_rewrite_subtasks) (rule counter)

lemma keeps_svc_Update: "keeps (svc_Update E i u inp)"
  unfolding svc_Update_def shared_FindByID_def
  by (intro bind opt cond wrap ret query keeps_shared_Update keeps_shared_CounterPropose)

lemma keeps_shared_Delete: "keeps (shared_Delete E i u)"
  unfolding shared_Delete_def Let_def
  by (intro bind query cond ret pair wrap run) (rule delete_shared)

lemma keeps_shared_ToggleSubtaskDone: "keeps (shared_ToggleSubtaskDone E i u)"
  unfolding shared_ToggleSubtaskDone_def
  by (intro bind run ret cond) (rule toggle_shared)

lemma keeps_shared_reads:
  "keeps (shared_FindByUser E u)" "keeps (shared_FindAll E)" "keeps (shared_FindByID E i u)"
proof -
  have "keeps (findTasksWithSubtasks E q)" for q
    unfolding findTasksWithSubtasks_def Let_def by (intro keeps_rules)
  then show "keeps (shared_FindByUser E u)" "keeps (shared_FindAll E)"
    by (simp_all add: shared_FindByUser_def [abs_def] shared_FindAll_def [abs_def])
  show "keeps (shared_FindByID E i u)" by (rule quiet) (rule shared_FindByID_store)
qed

lemmas keeps_shared_service = keeps_svc_Propose keeps_svc_respond keeps_svc_Update keeps_shared_Delete
  keeps_shared_ToggleSubtaskDone keeps_shared_reads

end

interpretation db_inv: shared_task_repository "\<lambda>d d'. db_ok d \<longrightarrow> db_ok d'"
  by unfold_locales
    (rule impI, erule (1) insert_shared_sql_db_ok insert_shared_subtask_sql_db_ok edit_sql_db_ok
        clear_subtasks_sql_db_ok delete_shared_sql_db_ok toggle_shared_sql_db_ok
      | rule impI, erule (2) respond_sql_db_ok)+

section \<open>The life of a shared task\<close>

text \<open>
  How the row of a shared task may change: the two participants stay the same two, they
  swap roles only while the proposal is pending, and once it is accepted or rejected
  neither the answer nor the roles change any more.
\<close>

definition evolves :: "shared_task_row \<Rightarrow> shared_task_row \<Rightarrow> bool" where
  "evolves r r' \<longleftrightarrow>
     sh_id r' = sh_id r
     \<and> (sh_proposer_id r' = sh_proposer_id r \<and> sh_addressee_id r' = sh_addressee_id r
        \<or> sh_proposer_id r' = sh_addressee_id r \<and> sh_addressee_id r' = sh_proposer_id r
          \<and> sh_status r = ''pending'')
     \<and> (sh_status r' = sh_status r \<or> sh_status r = ''pending'')"

lemma evolves_refl [simp]: "evolves r r"
  by (simp add: evolves_def)

lemma evolves_trans: "evolves a b \<Longrightarrow> evolves b c \<Longrightarrow> evolves a c"
  by (auto simp: evolves_def)

text \<open>What the participants agreed on, and the pairs of a task and a user who may change it.\<close>

definition shared_content :: "shared_task_row \<Rightarrow> string \<times> string \<times> string \<times> string \<times> string \<times> time option \<times> string" where
  "shared_content r = (sh_proposer_id r, sh_addressee_id r, sh_title r, sh_description r, sh_priority r,
     sh_due_date r, sh_status r)"

definition may_change :: "(string \<times> string) option \<Rightarrow> shared_task_row \<Rightarrow> bool" where
  "may_change A r \<longleftrightarrow> (\<exists>u. A = Some (sh_id r, u) \<and> participant u r)"

definition actor :: "env \<Rightarrow> string \<Rightarrow> string \<Rightarrow> (string \<times> string) option" where
  "actor E i u = (case pg_uuid E i of None \<Rightarrow> None | Some t \<Rightarrow> map_option (Pair t) (pg_uuid E u))"

lemma may_change_evolves: "evolves a b \<Longrightarrow> may_change A b = may_change A a"
  by (auto simp: may_change_def evolves_def participant_def)

definition rows_evolve :: "(string \<times> string) option \<Rightarrow> db \<Rightarrow> db \<Rightarrow> bool" where
  "rows_evolve A d d' \<longleftrightarrow> (\<forall>r' \<in> set (shared_tasks d'). \<exists>r \<in> set (shared_tasks d).
     evolves r r' \<and> (shared_content r' = shared_content r \<or> may_change A r))"

interpretation life: store_rel "rows_evolve A" for A
proof
  show "rows_evolve A d d" for d by (auto simp: rows_evolve_def intro: evolves_refl)
  show "rows_evolve A a c" if ab: "rows_evolve A a b" and bc: "rows_evolve A b c" for a b c
    unfolding rows_evolve_def
  proof
    fix z assume "z \<in> set (shared_tasks c)"
    then obtain y where y: "y \<in> set (shared_tasks b)" "evolves y z" "shared_content z = shared_content y \<or> may_change A y"
      using bc by (auto simp: rows_evolve_def)
    then obtain x where x: "x \<in> set (shared_tasks a)" "evolves x y" "shared_content y = shared_content x \<or> may_change A x"
      using ab by (auto simp: rows_evolve_def)
    with y may_change_evolves [OF x(2)] show "\<exists>r \<in> set (shared_tasks a). evolves r z
        \<and> (shared_content z = shared_content r \<or> may_change A r)"
      by (intro bexI [of _ x]) (auto intro: evolves_trans)
  qed
qed

lemma rows_evolve_update:
  assumes "\<And>r. r \<in> set (shared_tasks d) \<Longrightarrow> P r \<Longrightarrow>
    evolves r (f r) \<and> (shared_content (f r) = shared_content r \<or> may_change A r)"
  shows "rows_evolve A d (d\<lparr>shared_tasks := update_where P f (shared_tasks d)\<rparr>)"
  using assms by (fastforce simp: rows_evolve_def set_update_where intro: evolves_refl)

lemma rows_evolve_subset: "set (shared_tasks d') \<subseteq> set (shared_tasks d) \<Longrightarrow> rows_evolve A d d'"
  by (auto simp: rows_evolve_def intro: evolves_refl)

lemma insert_subtasks_loop_life: "life.keeps A (insert_subtasks_loop E m i k xs)"
proof (induction xs arbitrary: k)
  case Nil
  then show ?case by (simp add: life.keeps_def life.R_refl)
next
  case (Cons x xs)
  have "life.keeps A (\<lambda>s. if si_Title x = [] \<or> si_AssigneeID x = [] then insert_subtasks_loop E m i (Suc k) xs s
      else case take_id E s of (newID, s) \<Rightarrow>
        (case wrap_err m (pg_run (insert_shared_subtask_sql E newID i x k) s) of
           (Inl e, s) \<Rightarrow> (Inl e, s)
         | (Inr _, s) \<Rightarrow> insert_subtasks_loop E m i (Suc k) xs s))"
    by (intro life.cond Cons.IH life.fresh_id life.bind life.wrap life.run life.ret)
      (auto simp: insert_shared_subtask_sql_def intro!: rows_evolve_subset)
  then show ?case by (simp add: life.keeps_def)
qed

lemma shared_Respond_life: "life.keeps (actor E i u) (shared_Respond E i u st)"
  unfolding shared_Respond_def
  by (intro life.bind life.wrap life.run life.ret life.cond)
    (auto simp: respond_sql_def Let_def evolves_def actor_def may_change_def participant_def intro!: rows_evolve_update)

lemma rewrite_subtasks_life: "life.keeps A (rewrite_subtasks E i inp)"
  by (cases "ui_Subtasks inp")
    (auto simp: rewrite_subtasks_def [abs_def] clear_subtasks_sql_def
      intro!: life.ret life.bind life.wrap life.run insert_subtasks_loop_life rows_evolve_subset)

lemma shared_Update_life: "life.keeps (actor E i u) (shared_Update E i u inp)"
  unfolding shared_Update_def shared_update_body_def
  by (intro life.tx life.bind life.wrap life.run life.ret life.cond rewrite_subtasks_life)
    (auto simp: update_shared_sql_def Let_def evolves_def edit_row_def actor_def may_change_def intro!: rows_evolve_update)

lemma shared_CounterPropose_life: "life.keeps (actor E i u) (shared_CounterPropose E i u inp)"
  unfolding shared_CounterPropose_def counter_body_def
  by (intro life.tx life.bind life.wrap life.run life.ret life.cond rewrite_subtasks_life)
    (auto simp: counter_sql_def Let_def evolves_def edit_row_def swap_row_def actor_def may_change_def participant_def
      intro!: rows_evolve_update)

lemma svc_Update_life: "life.keeps (actor E i u) (svc_Update E i u inp)"
  unfolding svc_Update_def shared_FindByID_def
  by (intro life.bind life.opt life.cond life.wrap life.ret life.query
      shared_Update_life shared_CounterPropose_life)

lemma shared_Delete_life: "life.keeps A (shared_Delete E i u)"
  unfolding shared_Delete_def Let_def
  by (intro life.bind life.query life.cond life.ret life.pair life.wrap life.run)
    (auto simp: delete_shared_sql_def Let_def intro!: rows_evolve_subset)

lemma shared_ToggleSubtaskDone_life: "life.keeps A (shared_ToggleSubtaskDone E i u)"
  unfolding shared_ToggleSubtaskDone_def
  by (intro life.bind life.run life.ret life.cond)
    (auto simp: toggle_shared_sql_def Let_def split: option.splits intro!: rows_evolve_subset)

lemma admin_shared_life:
  "life.keeps A (repo_AdminSoftDeleteShared E i)"
  "life.keeps A (repo_AcknowledgeAdminDeletionShared E i u)"
  "life.keeps A (repo_AdminRestoreShared E i)"
proof -
  show "life.keeps A (repo_AdminSoftDeleteShared E i)"
    unfolding repo_AdminSoftDeleteShared_def
    by (intro life.wrap life.ret life.cond life.run)
      (auto simp: admin_soft_delete_shared_sql_def Let_def evolves_def shared_content_def split: option.splits
        intro!: rows_evolve_update)
  show "life.keeps A (repo_AcknowledgeAdminDeletionShared E i u)"
    unfolding repo_AcknowledgeAdminDeletionShared_def
    by (intro life.wrap life.ret life.cond life.run)
      (auto simp: ack_deletion_shared_sql_def evolves_def shared_content_def intro!: rows_evolve_update)
  show "life.keeps A (repo_AdminRestoreShared E i)"
    unfolding repo_AdminRestoreShared_def
    by (intro life.wrap life.ret life.cond life.bind life.query life.run life.pair)
      (auto simp: restore_update_shared_sql_def evolves_def shared_content_def intro!: rows_evolve_update)
qed

text \<open>A proposal adds one row, pending, under an identifier no other row has.\<close>

definition proposes :: "db \<Rightarrow> db \<Rightarrow> bool" where
  "proposes d d' \<longleftrightarrow> shared_tasks d' = shared_tasks d \<or>
     (\<exists>r. shared_tasks d' = shared_tasks d @ [r] \<and> sh_status r = ''pending''
        \<and> sh_id r \<notin> sh_id ` set (shared_tasks d))"

interpretation same_rows: store_rel "\<lambda>d d'. shared_tasks d' = shared_tasks d"
  by unfold_locales auto

lemma insert_subtasks_loop_rows: "same_rows.keeps (insert_subtasks_loop E m i k xs)"
proof (induction xs arbitrary: k)
  case Nil
  then show ?case by (simp add: same_rows.keeps_def)
next
  case (Cons x xs)
  have "same_rows.keeps (\<lambda>s. if si_Title x = [] \<or> si_AssigneeID x = [] then insert_subtasks_loop E m i (Suc k) xs s
      else case take_id E s of (newID, s) \<Rightarrow>
        (case wrap_err m (pg_run (insert_shared_subtask_sql E newID i x k) s) of
           (Inl e, s) \<Rightarrow> (Inl e, s)
         | (Inr _, s) \<Rightarrow> insert_subtasks_loop E m i (Suc k) xs s))"
    by (intro same_rows.cond Cons.IH same_rows.fresh_id same_rows.bind same_rows.wrap same_rows.run same_rows.ret)
      (auto simp: insert_shared_subtask_sql_def)
  then show ?case by (simp add: same_rows.keeps_def)
qed

lemma insert_shared_sql_proposes:
  "insert_shared_sql E n p a ti de pr du d = Inr (x, d') \<Longrightarrow> proposes d d'"
  by (auto simp: insert_shared_sql_def proposes_def new_shared_row_def)

lemma propose_body_proposes:
  assumes "propose_body E p a ti de pr du subs s = (r, s')"
  shows "proposes (store s) (store s')"
proof -
  obtain n s1 where n: "take_id E s = (n, s1)" "store s1 = store s" by (auto simp: take_id_def)
  obtain v s2 where v: "pg_run (insert_shared_sql E n p a ti de (if pr = [] then ''red'' else pr) du) s1 = (v, s2)"
    by force
  then have ins: "proposes (store s) (store s2)"
    using n(2) by (cases rule: pg_run_cases) (auto dest: insert_shared_sql_proposes, simp_all add: proposes_def)
  have "shared_tasks (store s') = shared_tasks (store s2)"
    using assms n(1) v same_rows.keepsD [OF insert_subtasks_loop_rows]
    by (fastforce simp: propose_body_def Let_def wrap_err_def split: sum.splits prod.splits)
  with ins show ?thesis by (simp add: proposes_def)
qed

lemma svc_Propose_proposes:
  "svc_Propose E p a ti de pr du subs s = (r, s') \<Longrightarrow> proposes (store s) (store s')"
proof -
  have refl: "proposes d d" for d by (simp add: proposes_def)
  have "proposes (store s) (store s')" if "repo_Propose E p a ti de pr du subs s = (r, s')"
    using that unfolding repo_Propose_def
    by (cases rule: pg_tx_cases) (auto dest: propose_body_proposes simp: refl)
  then show "svc_Propose E p a ti de pr du subs s = (r, s') \<Longrightarrow> ?thesis"
    by (auto simp: svc_Propose_def Let_def refl split: if_splits sum.splits)
qed

text \<open>
  Everything the service does to shared tasks; the two edits of the repository also by themselves,
  without the look at the task \<open>svc_Update\<close> takes first.
\<close>

datatype shared_op =
    OpPropose string string string string string string "subtask_input list"
  | OpAccept string string
  | OpReject string string
  | OpEdit string string update_input
  | OpUpdate string string update_input
  | OpCounter string string update_input
  | OpDelete string string
  | OpToggle string string
  | OpAdmDelete string
  | OpAdmAck string string
  | OpAdmRestore string

definition shared_exec :: "env \<Rightarrow> shared_op \<Rightarrow> pg \<Rightarrow> pg" where
  "shared_exec E op s =
     (case op of
        OpPropose p a ti de pr du subs \<Rightarrow> snd (svc_Propose E p a ti de pr du subs s)
      | OpAccept i u \<Rightarrow> snd (svc_Accept E i u s)
      | OpReject i u \<Rightarrow> snd (svc_Reject E i u s)
      | OpEdit i u inp \<Rightarrow> snd (svc_Update E i u inp s)
      | OpUpdate i u inp \<Rightarrow> snd (shared_Update E i u inp s)
      | OpCounter i u inp \<Rightarrow> snd (shared_CounterPropose E i u inp s)
      | OpDelete i u \<Rightarrow> snd (shared_Delete E i u s)
      | OpToggle i u \<Rightarrow> snd (shared_ToggleSubtaskDone E i u s)
      | OpAdmDelete i \<Rightarrow> snd (repo_AdminSoftDeleteShared E i s)
      | OpAdmAck i u \<Rightarrow> snd (repo_AcknowledgeAdminDeletionShared E i u s)
      | OpAdmRestore i \<Rightarrow> snd (repo_AdminRestoreShared E i s))"

lemma shared_exec_db_ok: "db_ok (store s) \<Longrightarrow> db_ok (store (shared_exec E op s))"
  using db_inv.keeps_shared_service db_inv.keeps_shared_Update db_inv.keeps_shared_CounterPropose
    repo_AdminSoftDeleteShared_db_ok repo_AcknowledgeAdminDeletionShared_db_ok repo_AdminRestoreShared_db_ok
  by (cases op) (simp_all add: shared_exec_def db_inv.keeps_def)

text \<open>Only answers and edits change what a shared task says; this is who makes them.\<close>

definition actor_of :: "env \<Rightarrow> shared_op \<Rightarrow> (string \<times> string) option" where
  "actor_of E op = (case op of OpAccept i u \<Rightarrow> actor E i u | OpReject i u \<Rightarrow> actor E i u
     | OpEdit i u inp \<Rightarrow> actor E i u | OpUpdate i u inp \<Rightarrow> actor E i u | OpCounter i u inp \<Rightarrow> actor E i u
     | _ \<Rightarrow> None)"

lemma shared_exec_rows:
  "rows_evolve (actor_of E op) (store s) (store (shared_exec E op s))
   \<or> proposes (store s) (store (shared_exec E op s))"
proof (cases op)
  case OpPropose
  then show ?thesis
    by (simp add: shared_exec_def) (metis svc_Propose_proposes surjective_pairing)
qed (use shared_Respond_life svc_Update_life shared_Update_life shared_CounterPropose_life shared_Delete_life shared_ToggleSubtaskDone_life
       admin_shared_life in \<open>simp_all add: shared_exec_def svc_Accept_def svc_Reject_def actor_of_def life.keeps_def\<close>)

lemma actor_of_cases:
  assumes "may_change (actor_of E op) r"
  shows "\<exists>i u. (op = OpAccept i u \<or> op = OpReject i u
      \<or> (\<exists>inp. op = OpEdit i u inp \<or> op = OpUpdate i u inp \<or> op = OpCounter i u inp))
    \<and> pg_uuid E i = Some (sh_id r) \<and> pg_uuid E u \<in> {Some (sh_proposer_id r), Some (sh_addressee_id r)}"
  using assms
  by (cases op) (auto simp: may_change_def actor_of_def actor_def participant_def split: option.splits)

text \<open>
  A run during which the shared task \<open>i\<close> exists: any operations by anybody on any task,
  with any failures of the connection, at any times.
\<close>

inductive shared_run :: "string \<Rightarrow> (env \<times> shared_op) list \<Rightarrow> pg \<Rightarrow> pg \<Rightarrow> bool" for i where
  start: "i \<in> sh_id ` set (shared_tasks (store s)) \<Longrightarrow> shared_run i [] s s"
| step: "shared_run i ops s s' \<Longrightarrow> i \<in> sh_id ` set (shared_tasks (store (shared_exec E op s')))
    \<Longrightarrow> shared_run i (ops @ [(E, op)]) s (shared_exec E op s')"

text \<open>One step, for one row: it may change only at the hand of a participant.\<close>

lemma shared_exec_row:
  assumes ok: "db_ok (store s)" and r: "r \<in> set (shared_tasks (store s))"
    and r': "r' \<in> set (shared_tasks (store (shared_exec E op s)))" and id: "sh_id r' = sh_id r"
  shows "evolves r r' \<and> (shared_content r' = shared_content r \<or> may_change (actor_of E op) r)"
proof -
  have dist: "distinct (map sh_id (shared_tasks (store s)))" using ok by (simp add: db_ok_def schema_ok_def)
  have same: "q = r" if "q \<in> set (shared_tasks (store s))" "sh_id q = sh_id r" for q
    using that dist r by (metis distinct_map inj_onD)
  consider "rows_evolve (actor_of E op) (store s) (store (shared_exec E op s))"
    | "proposes (store s) (store (shared_exec E op s))"
    using shared_exec_rows by blast
  then show ?thesis
  proof cases
    case 1
    then obtain q where q: "q \<in> set (shared_tasks (store s))" "evolves q r'"
      "shared_content r' = shared_content q \<or> may_change (actor_of E op) q"
      using r' by (auto simp: rows_evolve_def)
    moreover have "q = r" by (rule same) (use q id in \<open>simp_all add: evolves_def\<close>)
    ultimately show ?thesis by simp
  next
    case 2
    then have "r' \<in> set (shared_tasks (store s))"
      using r' id r by (auto simp: proposes_def image_iff)
    then have "r' = r" using same id by simp
    then show ?thesis by simp
  qed
qed

lemma shared_run_evolves:
  assumes "shared_run i ops s s'" and "db_ok (store s)"
    and "r \<in> set (shared_tasks (store s))" "sh_id r = i"
  shows "db_ok (store s') \<and>
    (\<forall>r' \<in> set (shared_tasks (store s')). sh_id r' = i \<longrightarrow> evolves r r'
       \<and> (shared_content r' = shared_content r \<or> (\<exists>(E, op) \<in> set ops. may_change (actor_of E op) r)))
    \<and> i \<in> sh_id ` set (shared_tasks (store s'))"
  using assms
proof (induction rule: shared_run.induct)
  case (start s)
  have "r' = r" if "r' \<in> set (shared_tasks (store s))" "sh_id r' = i" for r'
    using start.prems that by (metis db_ok_def schema_ok_def distinct_map inj_onD)
  with start show ?case by auto
next
  case (step ops s s1 E op)
  then have ok: "db_ok (store s1)" by simp
  obtain r1 where r1: "r1 \<in> set (shared_tasks (store s1))" "sh_id r1 = i" using step by auto
  then have e: "evolves r r1"
    and c: "shared_content r1 = shared_content r \<or> (\<exists>(E, op) \<in> set ops. may_change (actor_of E op) r)"
    using step by auto
  have "evolves r r2 \<and> (shared_content r2 = shared_content r
      \<or> (\<exists>(E', op') \<in> set (ops @ [(E, op)]). may_change (actor_of E' op') r))"
    if "r2 \<in> set (shared_tasks (store (shared_exec E op s1)))" "sh_id r2 = i" for r2
    using shared_exec_row [OF ok r1(1) that(1)] that(2) r1(2) evolves_trans [OF e, of r2] c
      may_change_evolves [OF e, of "actor_of E op"] by auto
  then show ?case using shared_exec_db_ok [OF ok] step.hyps(2) by blast
qed

section \<open>Properties of shared tasks\<close>

text \<open>C1: in every run, however operations are interleaved and whichever round trips fail,
  a shared task that exists throughout keeps its two participants, and once it has been
  accepted or rejected neither the answer nor the roles ever change; while it is pending it
  can only stay pending, with the roles possibly swapped, or be answered. And only its participants
  change what it says: if its title, description, priority, deadline, status or roles are different in the
  end, then one of the operations of the run is an answer or an edit of this very task, through the service or
  by the repository alone, in the name of its proposer or its addressee. Administrators can mark it deleted, and that is all.\<close>

theorem shared_task_life:
  assumes "shared_run i ops s s'" and "db_ok (store s)"
    and "r \<in> set (shared_tasks (store s))" "sh_id r = i"
    and "r' \<in> set (shared_tasks (store s'))" "sh_id r' = i"
  shows "{sh_proposer_id r', sh_addressee_id r'} = {sh_proposer_id r, sh_addressee_id r}
    \<and> (sh_status r \<noteq> ''pending'' \<longrightarrow> sh_status r' = sh_status r
         \<and> sh_proposer_id r' = sh_proposer_id r \<and> sh_addressee_id r' = sh_addressee_id r)
    \<and> shared_IsValid (sh_status r')
    \<and> ((sh_title r', sh_description r', sh_priority r', sh_due_date r', sh_status r', sh_proposer_id r')
         \<noteq> (sh_title r, sh_description r, sh_priority r, sh_due_date r, sh_status r, sh_proposer_id r)
       \<longrightarrow> (\<exists>E j u op. (E, op) \<in> set ops
             \<and> (op = OpAccept j u \<or> op = OpReject j u
               \<or> (\<exists>inp. op = OpEdit j u inp \<or> op = OpUpdate j u inp \<or> op = OpCounter j u inp))
             \<and> pg_uuid E j = Some (sh_id r)
             \<and> pg_uuid E u \<in> {Some (sh_proposer_id r), Some (sh_addressee_id r)}))"
proof -
  have ok: "db_ok (store s')" and e: "evolves r r'"
    and c: "shared_content r' = shared_content r \<or> (\<exists>(E, op) \<in> set ops. may_change (actor_of E op) r)"
    using shared_run_evolves [OF assms(1-4)] assms(5,6) by auto
  have "shared_IsValid (sh_status r')"
    using ok assms(5) by (auto simp: db_ok_def shared_status_ok_def shared_IsValid_def)
  moreover have "\<exists>E j u op. (E, op) \<in> set ops
       \<and> (op = OpAccept j u \<or> op = OpReject j u
               \<or> (\<exists>inp. op = OpEdit j u inp \<or> op = OpUpdate j u inp \<or> op = OpCounter j u inp))
       \<and> pg_uuid E j = Some (sh_id r) \<and> pg_uuid E u \<in> {Some (sh_proposer_id r), Some (sh_addressee_id r)}"
    if "shared_content r' \<noteq> shared_content r"
    using c that actor_of_cases by (clarsimp, blast)
  moreover have "{sh_proposer_id r', sh_addressee_id r'} = {sh_proposer_id r, sh_addressee_id r}"
    "sh_status r \<noteq> ''pending'' \<longrightarrow> sh_status r' = sh_status r
         \<and> sh_proposer_id r' = sh_proposer_id r \<and> sh_addressee_id r' = sh_addressee_id r"
    using e by (auto simp: evolves_def)
  ultimately show ?thesis unfolding shared_content_def by (simp del: insert_iff) blast
qed

definition sample_shared :: shared_task_row where
  "sample_shared = \<lparr>sh_id = ''x'', sh_proposer_id = ''p'', sh_addressee_id = ''a'', sh_title = ''t'',
     sh_description = [], sh_priority = ''red'', sh_due_date = None, sh_status = ''pending'',
     sh_created_at = 0, sh_updated_at = 0, sh_admin_deleted = Some False,
     sh_admin_deleted_at = None, sh_user_ack = Some False\<rparr>"

definition sample_pg3 :: pg where
  "sample_pg3 = \<lparr>store = empty_db\<lparr>shared_tasks := [sample_shared]\<rparr>, faults = [], ctr = 0\<rparr>"

lemma sample_pg3_ok: "db_ok (store sample_pg3)"
  by (simp add: db_ok_def schema_ok_def acks_ok_def shared_status_ok_def versions_ok_def
      sample_pg3_def sample_shared_def empty_db_def)

lemma sample_accept:
  "shared_tasks (store (shared_exec sample_env (OpAccept ''x'' ''a'') sample_pg3))
   = [sample_shared\<lparr>sh_status := ''accepted'', sh_updated_at := 1000\<rparr>]"
  by (simp add: shared_exec_def svc_Accept_def shared_Respond_def pg_run_healthy sample_pg3_def
      respond_sql_def uuid_arg_def sample_env_def sample_shared_def empty_db_def Let_def)

theorem shared_task_life_witness:
  "\<exists>E j u op. (E, op) \<in> set [(sample_env, OpAdmDelete ''x''), (sample_env, OpAccept ''x'' ''a'')]
     \<and> (op = OpAccept j u \<or> op = OpReject j u
               \<or> (\<exists>inp. op = OpEdit j u inp \<or> op = OpUpdate j u inp \<or> op = OpCounter j u inp))
     \<and> pg_uuid E j = Some ''x'' \<and> pg_uuid E u \<in> {Some ''p'', Some ''a''}
     \<and> sh_status (hd (shared_tasks (store (shared_exec sample_env (OpAccept ''x'' ''a'')
          (shared_exec sample_env (OpAdmDelete ''x'') sample_pg3))))) = ''accepted''"
proof -
  let ?s1 = "shared_exec sample_env (OpAdmDelete ''x'') sample_pg3"
  let ?s2 = "shared_exec sample_env (OpAccept ''x'' ''a'') ?s1"
  let ?r1 = "sample_shared\<lparr>sh_admin_deleted := Some True, sh_admin_deleted_at := Some 1000,
     sh_user_ack := Some False\<rparr>"
  let ?r2 = "?r1\<lparr>sh_status := ''accepted'', sh_updated_at := 1000\<rparr>"
  have 1: "shared_tasks (store ?s1) = [?r1]" "faults ?s1 = []"
    by (simp_all add: shared_exec_def repo_AdminSoftDeleteShared_def pg_run_healthy sample_pg3_def
        admin_soft_delete_shared_sql_def not_deleted_def uuid_arg_def sample_env_def sample_shared_def empty_db_def Let_def)
  have 2: "shared_tasks (store ?s2) = [?r2]"
    using 1 by (simp add: shared_exec_def svc_Accept_def shared_Respond_def pg_run_healthy
        respond_sql_def uuid_arg_def sample_env_def sample_shared_def Let_def)
  have "shared_run ''x'' [] sample_pg3 sample_pg3"
    by (rule shared_run.start) (simp add: sample_pg3_def sample_shared_def)
  then have "shared_run ''x'' ([] @ [(sample_env, OpAdmDelete ''x'')]) sample_pg3 ?s1"
    by (rule shared_run.step) (simp add: 1 sample_shared_def)
  then have run: "shared_run ''x'' (([] @ [(sample_env, OpAdmDelete ''x'')]) @ [(sample_env, OpAccept ''x'' ''a'')]) sample_pg3 ?s2"
    by (rule shared_run.step) (simp add: 2 sample_shared_def)
  have m: "sample_shared \<in> set (shared_tasks (store sample_pg3))" "sh_id sample_shared = ''x''"
    "?r2 \<in> set (shared_tasks (store ?s2))" "sh_id ?r2 = ''x''"
    by (simp_all only: 2) (simp_all add: sample_pg3_def sample_shared_def)
  have "sh_status ?r2 \<noteq> sh_status sample_shared" by (simp add: sample_shared_def)
  with shared_task_life [OF run sample_pg3_ok m] 2 show ?thesis
    by (simp add: sample_shared_def)
qed

lemma shared_ids_distinct: "db_ok d \<Longrightarrow> distinct (map sh_id (shared_tasks d))"
  by (simp add: db_ok_def schema_ok_def)

lemma shared_Respond_spec:
  assumes "faults s = []" and "pg_uuid E i = Some tid" "pg_uuid E u = Some uid"
    and "find_row (\<lambda>r. sh_id r = tid) (shared_tasks (store s)) = Some r"
    and "db_ok (store s)" and "shared_IsValid st"
  shows "shared_Respond E i u st s =
     (if sh_addressee_id r = uid \<and> sh_status r = ''pending''
      then (Inr (), s\<lparr>store := (store s)\<lparr>shared_tasks :=
              update_where (\<lambda>q. sh_id q = tid) (\<lambda>q. q\<lparr>sh_status := st, sh_updated_at := now E\<rparr>)
                (shared_tasks (store s))\<rparr>\<rparr>)
      else (Inl (Msg ''task not found or already handled''), s))"
proof -
  have st: "varchar 20 st = Inr st" using assms(6) by (auto simp: shared_IsValid_def)
  note key = keyed_update [OF shared_ids_distinct [OF assms(5)] assms(4),
      where P = "\<lambda>q. sh_addressee_id q = uid \<and> sh_status q = ''pending''"]
  show ?thesis
    using assms(1-3) st key
    by (simp add: shared_Respond_def pg_run_healthy respond_sql_def uuid_arg_def Let_def)
qed

text \<open>C11: over a healthy connection an answer takes effect exactly when it comes from the
  current addressee and the proposal is still pending; it then sets the status of that task
  alone. In every other case (the proposer, a third party, a second answer) it is an error
  that changes nothing.\<close>

theorem only_addressee_answers_once:
  assumes "faults s = []" and "pg_uuid E i = Some tid" "pg_uuid E u = Some uid"
    and "find_row (\<lambda>r. sh_id r = tid) (shared_tasks (store s)) = Some r"
    and "db_ok (store s)"
  shows "if sh_addressee_id r = uid \<and> sh_status r = ''pending''
     then \<exists>s'. svc_Accept E i u s = (Inr (), s')
        \<and> find_row (\<lambda>r. sh_id r = tid) (shared_tasks (store s'))
            = Some (r\<lparr>sh_status := ''accepted'', sh_updated_at := now E\<rparr>)
        \<and> (\<exists>e. svc_Reject E i u s' = (Inl e, s')) \<and> (\<exists>e. svc_Accept E i u s' = (Inl e, s'))
     else (\<exists>e. svc_Accept E i u s = (Inl e, s)) \<and> (\<exists>e. svc_Reject E i u s = (Inl e, s))"
proof (cases "sh_addressee_id r = uid \<and> sh_status r = ''pending''")
  case False
  then show ?thesis
    using shared_Respond_spec [OF assms] by (auto simp: svc_Accept_def svc_Reject_def shared_IsValid_def)
next
  case True
  let ?f = "\<lambda>q. q\<lparr>sh_status := ''accepted'', sh_updated_at := now E\<rparr>"
  let ?s = "s\<lparr>store := (store s)\<lparr>shared_tasks := update_where (\<lambda>q. sh_id q = tid) ?f (shared_tasks (store s))\<rparr>\<rparr>"
  have acc: "svc_Accept E i u s = (Inr (), ?s)"
    using shared_Respond_spec [OF assms, of "''accepted''"] True
    by (simp add: svc_Accept_def shared_IsValid_def)
  have ok: "db_ok (store ?s)"
    using db_inv.keepsD [OF db_inv.keeps_svc_respond(1) acc] assms(5) by blast
  have row: "find_row (\<lambda>r. sh_id r = tid) (shared_tasks (store ?s)) = Some (?f r)"
    using assms(4) by (simp add: find_row_update_hit)
  have healthy: "faults ?s = []" using assms(1) by simp
  note again = shared_Respond_spec [OF healthy assms(2,3) row ok]
  show ?thesis
    using True acc row again [of "''accepted''"] again [of "''rejected''"]
    by (auto simp: svc_Accept_def svc_Reject_def shared_IsValid_def)
qed

theorem only_addressee_answers_once_witness:
  "(\<exists>s'. svc_Accept sample_env ''x'' ''a'' sample_pg3 = (Inr (), s'))
   \<and> (\<exists>e. svc_Accept sample_env ''x'' ''p'' sample_pg3 = (Inl e, sample_pg3))"
proof -
  have pre: "faults sample_pg3 = []" "pg_uuid sample_env ''x'' = Some ''x''"
    "pg_uuid sample_env ''a'' = Some ''a''" "pg_uuid sample_env ''p'' = Some ''p''"
    "find_row (\<lambda>r. sh_id r = ''x'') (shared_tasks (store sample_pg3)) = Some sample_shared"
    by (simp_all add: sample_pg3_def sample_env_def sample_shared_def)
  have addr: "sh_addressee_id sample_shared = ''a''" "sh_status sample_shared = ''pending''"
    by (simp_all add: sample_shared_def)
  show ?thesis
    using only_addressee_answers_once [OF pre(1,2,3,5) sample_pg3_ok]
      only_addressee_answers_once [OF pre(1,2,4,5) sample_pg3_ok]
    by (auto simp: addr)
qed

definition complete :: "subtask_input \<Rightarrow> bool" where
  "complete x \<longleftrightarrow> si_Title x \<noteq> [] \<and> si_AssigneeID x \<noteq> []"

text \<open>The subtask rows a request stands for: its complete entries under their positions.\<close>

definition subtask_rows_of ::
    "env \<Rightarrow> string \<Rightarrow> nat \<Rightarrow> subtask_input list \<Rightarrow> shared_subtask_row list \<Rightarrow> bool" where
  "subtask_rows_of E tid k xs rows \<longleftrightarrow>
     map (\<lambda>r. (ss_order_num r, ss_title r, Some (ss_assignee_id r))) rows
       = map (\<lambda>(n, x). (int n, si_Title x, pg_uuid E (si_AssigneeID x)))
           (filter (\<lambda>(n, x). complete x) (List.enumerate k xs))
     \<and> list_all (\<lambda>r. ss_shared_task_id r = tid \<and> \<not> ss_is_done r) rows"

lemma insert_subtasks_loop_Inr:
  assumes "insert_subtasks_loop E m i k xs s = (Inr u, s')" and "pg_uuid E i = Some tid"
  shows "\<exists>rows. store s' = (store s)\<lparr>shared_subtasks := shared_subtasks (store s) @ rows\<rparr>
     \<and> subtask_rows_of E tid k xs rows"
  using assms(1)
proof (induction xs arbitrary: k s)
  case Nil
  then show ?case by (intro exI [of _ "[]"]) (auto simp: subtask_rows_of_def)
next
  case (Cons x xs)
  show ?case
  proof (cases "complete x")
    case False
    then have "insert_subtasks_loop E m i (Suc k) xs s = (Inr u, s')"
      using Cons.prems by (simp add: complete_def)
    then show ?thesis using Cons.IH False by (simp add: subtask_rows_of_def)
  next
    case True
    let ?stmt = "insert_shared_subtask_sql E (fresh E (ctr s)) i x k"
    obtain v s1 where run: "pg_run ?stmt (s\<lparr>ctr := Suc (ctr s)\<rparr>) = (Inr v, s1)"
      and rest: "insert_subtasks_loop E m i (Suc k) xs s1 = (Inr u, s')"
      using Cons.prems True
      by (auto simp: complete_def take_id_def wrap_err_def split: prod.splits sum.splits)
    obtain a where a: "pg_uuid E (si_AssigneeID x) = Some a"
      and s1: "store s1 = (store s)\<lparr>shared_subtasks := shared_subtasks (store s)
        @ [\<lparr>ss_id = fresh E (ctr s), ss_shared_task_id = tid, ss_title = si_Title x,
            ss_assignee_id = a, ss_is_done = False, ss_order_num = int k\<rparr>]\<rparr>"
      using run assms(2)
      by (cases rule: pg_run_cases) (auto simp: insert_shared_subtask_sql_def)
    obtain rows where rows: "store s' = (store s1)\<lparr>shared_subtasks := shared_subtasks (store s1) @ rows\<rparr>"
      "subtask_rows_of E tid (Suc k) xs rows"
      using Cons.IH [OF rest] by blast
    show ?thesis
      using rows s1 a True
      by (intro exI [of _ "\<lparr>ss_id = fresh E (ctr s), ss_shared_task_id = tid, ss_title = si_Title x,
            ss_assignee_id = a, ss_is_done = False, ss_order_num = int k\<rparr> # rows"])
        (simp add: subtask_rows_of_def)
  qed
qed

lemma subtask_rows_of_assignee:
  assumes "subtask_rows_of E tid k xs rows" and "x \<in> set xs" "complete x"
    and "pg_uuid E (si_AssigneeID x) = Some a"
  shows "\<exists>r \<in> set rows. ss_shared_task_id r = tid \<and> ss_assignee_id r = a \<and> ss_title r = si_Title x"
proof -
  have "\<exists>n. (n, x) \<in> set (List.enumerate k xs)"
    using assms(2) by (induction xs arbitrary: k) auto
  then obtain n where "(n, x) \<in> set (filter (\<lambda>(n, x). complete x) (List.enumerate k xs))"
    using assms(3) by auto
  then have "(int n, si_Title x, Some a) \<in> set (map (\<lambda>r. (ss_order_num r, ss_title r, Some (ss_assignee_id r))) rows)"
    using assms(1,4) by (force simp: subtask_rows_of_def)
  then show ?thesis using assms(1) by (auto simp: subtask_rows_of_def list_all_iff)
qed

lemma insert_shared_sql_Inr:
  assumes "insert_shared_sql E n p a ti de pr du d = Inr (x, d')"
  shows "\<exists>pu au pr' due. pg_uuid E p = Some pu \<and> pg_uuid E a = Some au \<and> x = n
    \<and> d' = d\<lparr>shared_tasks := shared_tasks d @ [new_shared_row E x pu au ti de pr' due]\<rparr>"
  using assms by (auto simp: insert_shared_sql_def)

text \<open>C28: a successful proposal creates one pending task between two distinct users, owned
  by the caller as proposer, with one subtask row per complete entry of the request, in its
  order; at least one of them is assigned to the proposer and one to the addressee.\<close>

theorem propose_establishes_task:
  assumes "svc_Propose E p a ti de pr du subs s = (Inr i, s')" and "uuid_laws E"
  shows "p \<noteq> a \<and> (\<exists>row rows pu au.
      pg_uuid E p = Some pu \<and> pg_uuid E a = Some au
      \<and> shared_tasks (store s') = shared_tasks (store s) @ [row]
      \<and> sh_id row = i \<and> sh_proposer_id row = pu \<and> sh_addressee_id row = au
      \<and> sh_status row = ''pending'' \<and> sh_title row = ti
      \<and> shared_subtasks (store s') = shared_subtasks (store s) @ rows
      \<and> subtask_rows_of E i 0 subs rows
      \<and> (\<exists>r \<in> set rows. ss_assignee_id r = pu) \<and> (\<exists>r \<in> set rows. ss_assignee_id r = au))"
proof -
  let ?cands = "map si_AssigneeID (filter (\<lambda>x. si_Title x \<noteq> []) subs)"
  have ne: "p \<noteq> a" and val: "ValidateSubtasksForProposal p a ?cands = Inr ()"
    and run: "repo_Propose E p a ti de pr du subs s = (Inr i, s')"
    using assms(1) by (auto simp: svc_Propose_def Let_def split: if_splits sum.splits)
  obtain s1 s2 where body: "propose_body E p a ti de pr du subs s1 = (Inr i, s2)"
    and st: "store s1 = store s" "store s' = store s2"
    using run unfolding repo_Propose_def by (cases rule: pg_tx_cases) auto
  let ?pr = "if pr = [] then ''red'' else pr"
  let ?s1 = "s1\<lparr>ctr := Suc (ctr s1)\<rparr>"
  obtain s3 where ins: "pg_run (insert_shared_sql E (fresh E (ctr s1)) p a ti de ?pr du) ?s1 = (Inr i, s3)"
    and loop: "insert_subtasks_loop E ''insert shared_subtask'' i 0 subs s3 = (Inr (), s2)"
    using body
    by (auto simp: propose_body_def Let_def take_id_def wrap_err_def split: prod.splits sum.splits)
  have "insert_shared_sql E (fresh E (ctr s1)) p a ti de ?pr du (store s) = Inr (i, store s3)"
    using ins st(1) by (cases rule: pg_run_cases) auto
  then obtain pu au pr' due where ids: "pg_uuid E p = Some pu" "pg_uuid E a = Some au" "i = fresh E (ctr s1)"
    and s3: "store s3 = (store s)\<lparr>shared_tasks := shared_tasks (store s) @ [new_shared_row E i pu au ti de pr' due]\<rparr>"
    using insert_shared_sql_Inr by blast
  define row where "row = new_shared_row E i pu au ti de pr' due"
  have row: "sh_id row = i" "sh_proposer_id row = pu" "sh_addressee_id row = au"
      "sh_status row = ''pending''" "sh_title row = ti"
    by (simp_all add: row_def new_shared_row_def)
  note s3 = s3 [folded row_def]
  have "pg_uuid E i = Some i" using uuid_lawsD(2) [OF assms(2)] ids(3) by simp
  then obtain rows where rows: "store s2 = (store s3)\<lparr>shared_subtasks := shared_subtasks (store s3) @ rows\<rparr>"
    "subtask_rows_of E i 0 subs rows"
    using insert_subtasks_loop_Inr [OF loop] by blast
  have some: "\<exists>r \<in> set rows. ss_assignee_id r = c" if "u \<in> set ?cands" "pg_uuid E u = Some c" for u c
  proof -
    from that(1) obtain x where x: "x \<in> set subs" "si_Title x \<noteq> []" "si_AssigneeID x = u" by auto
    have "u \<noteq> []" using that(2) uuid_lawsD(4) [OF assms(2)] by auto
    then show ?thesis
      using subtask_rows_of_assignee [OF rows(2) x(1)] x that(2) by (auto simp: complete_def)
  qed
  have "p \<in> set ?cands" "a \<in> set ?cands" using val by (simp_all only: ValidateSubtasks_iff)
  then show ?thesis
    using ne ids row rows s3 st(2) some by auto
qed


definition sample_subs :: "subtask_input list" where
  "sample_subs = [\<lparr>si_Title = ''m'', si_AssigneeID = ''p''\<rparr>, \<lparr>si_Title = [], si_AssigneeID = ''q''\<rparr>,
     \<lparr>si_Title = ''n'', si_AssigneeID = ''a''\<rparr>]"

lemma sample_propose:
  "\<exists>s'. svc_Propose sample_env ''p'' ''a'' ''t'' [] [] [] sample_subs sample_pg = (Inr ''i'', s')"
  by (simp add: svc_Propose_def sample_subs_def ValidateSubtasksForProposal_def repo_Propose_def
      pg_tx_def next_net_def sample_pg_def propose_body_def take_id_def sample_env_def pg_run_def
      insert_shared_sql_def uuid_arg_def due_arg_def new_shared_row_def empty_db_def check_def
      insert_shared_subtask_sql_def int4_ok_def wrap_err_def)

theorem propose_establishes_task_witness:
  "\<exists>s' row. svc_Propose sample_env ''p'' ''a'' ''t'' [] [] [] sample_subs sample_pg = (Inr ''i'', s')
     \<and> shared_tasks (store s') = [row] \<and> sh_addressee_id row = ''a''"
proof -
  obtain s' where s': "svc_Propose sample_env ''p'' ''a'' ''t'' [] [] [] sample_subs sample_pg = (Inr ''i'', s')"
    using sample_propose by blast
  obtain row au where "shared_tasks (store s') = shared_tasks (store sample_pg) @ [row]"
    "pg_uuid sample_env ''a'' = Some au" "sh_addressee_id row = au"
    using propose_establishes_task [OF s' sample_env_laws] by auto
  with s' show ?thesis by (simp add: sample_env_def empty_db_def)
qed

text \<open>The shared statement of an edit, over a healthy connection.\<close>

lemma rewrite_subtasks_rows: "same_rows.keeps (rewrite_subtasks E i inp)"
  by (cases "ui_Subtasks inp")
    (auto simp: rewrite_subtasks_def [abs_def] clear_subtasks_sql_def
      intro!: same_rows.ret same_rows.bind same_rows.wrap same_rows.run insert_subtasks_loop_rows)

lemma counter_sql_Inr:
  assumes "counter_sql E i u inp d = Inr (n, d')" and "pg_uuid E i = Some tid" "pg_uuid E u = Some uid"
  shows "\<exists>pr due. shared_tasks d'
      = update_where (\<lambda>q. sh_id q = tid \<and> sh_addressee_id q = uid \<and> sh_status q = ''pending'')
          (\<lambda>q. swap_row (edit_row E inp pr due q)) (shared_tasks d)"
  using assms by (auto simp: counter_sql_def Let_def) (rule exI, rule exI, rule refl)

text \<open>A counter-proposal that went through has swapped the roles of its row.\<close>

lemma counter_row:
  assumes "shared_CounterPropose E i u inp s = (Inr (), s')" and uuid: "pg_uuid E i = Some tid" "pg_uuid E u = Some u"
    and row: "find_row (\<lambda>r. sh_id r = tid) (shared_tasks (store s)) = Some r"
    and addressee: "sh_addressee_id r = u" "sh_status r = ''pending''" and ok: "db_ok (store s)"
  obtains pr due where "find_row (\<lambda>r. sh_id r = tid) (shared_tasks (store s')) = Some (swap_row (edit_row E inp pr due r))"
proof -
  obtain s2 s3 where body: "counter_body E i u inp s2 = (Inr (), s3)"
    and st: "store s2 = store s" "store s' = store s3"
    using assms(1) unfolding shared_CounterPropose_def by (cases rule: pg_tx_cases) auto
  obtain n s4 where upd: "pg_run (counter_sql E i u inp) s2 = (Inr n, s4)"
    and rew: "rewrite_subtasks E i inp s4 = (Inr (), s3)"
    using body by (auto simp: counter_body_def wrap_err_def split: prod.splits sum.splits if_splits)
  have "counter_sql E i u inp (store s) = Inr (n, store s4)"
    using upd st(1) by (cases rule: pg_run_cases) auto
  then obtain pr due where "shared_tasks (store s4)
      = update_where (\<lambda>q. sh_id q = tid \<and> sh_addressee_id q = u \<and> sh_status q = ''pending'')
          (\<lambda>q. swap_row (edit_row E inp pr due q)) (shared_tasks (store s))"
    using counter_sql_Inr [OF _ uuid] by blast
  also have "\<dots> = update_where (\<lambda>q. sh_id q = tid) (\<lambda>q. swap_row (edit_row E inp pr due q)) (shared_tasks (store s))"
    using keyed_update(1) [OF shared_ids_distinct [OF ok] row,
        of "\<lambda>q. sh_addressee_id q = u \<and> sh_status q = ''pending''"] addressee by simp
  finally have "shared_tasks (store s')
      = update_where (\<lambda>q. sh_id q = tid) (\<lambda>q. swap_row (edit_row E inp pr due q)) (shared_tasks (store s))"
    using same_rows.keepsD [OF rewrite_subtasks_rows rew] st(2) by simp
  then show thesis
    using row by (intro that [of pr due]) (simp add: find_row_update_hit swap_row_def edit_row_def)
qed

text \<open>C18: when the addressee of a pending proposal edits it (under the identifier the
  server shows, a canonical UUID), the edit is a counter-proposal: the roles are swapped,
  the proposal stays pending with the new fields, and from then on the answer is the
  partner's, no longer the editor's.\<close>

theorem counter_proposal_hands_over:
  assumes "svc_Update E i u inp s = (Inr b, s')" and "faults s' = []"
    and "pg_uuid E i = Some tid" "pg_uuid E u = Some u"
    and row: "find_row (\<lambda>r. sh_id r = tid) (shared_tasks (store s)) = Some r"
    and addressee: "sh_addressee_id r = u" "sh_status r = ''pending''"
    and partner: "sh_proposer_id r \<noteq> u" "pg_uuid E (sh_proposer_id r) = Some (sh_proposer_id r)"
    and ok: "db_ok (store s)"
  shows "b \<and> (\<exists>pr due. find_row (\<lambda>r. sh_id r = tid) (shared_tasks (store s'))
        = Some (swap_row (edit_row E inp pr due r)))
     \<and> (\<exists>e. svc_Accept E i u s' = (Inl e, s'))
     \<and> (\<exists>s''. svc_Accept E i (sh_proposer_id r) s' = (Inr (), s''))"
proof -
  obtain t s1 where find: "shared_FindByID E i u s = (Inr (Some t), s1)"
    and rest: "x_Status t = ''pending'' \<Longrightarrow> x_AddresseeID t = u
      \<Longrightarrow> b \<and> shared_CounterPropose E i u inp s1 = (Inr (), s')"
    using assms(1)
    by (auto simp: svc_Update_def split: prod.splits sum.splits option.splits if_splits)
  have s1: "store s1 = store s" using find by (rule shared_FindByID_store)
  have key: "find_row (\<lambda>q. sh_id q = tid \<and> participant u q) (shared_tasks (store s)) = Some r"
    using keyed_update(3) [OF shared_ids_distinct [OF ok] row] addressee by (simp add: participant_def)
  have "x_Status t = ''pending'' \<and> x_AddresseeID t = u"
  proof -
    obtain t0 s0 where "pg_query (find_shared_sql E i u) s = (Inr t0, s0)"
      and t: "x_Status t = x_Status t0" "x_AddresseeID t = x_AddresseeID t0"
      using find by (auto simp: shared_FindByID_def wrap_err_def split: prod.splits sum.splits if_splits)
    then have "find_shared_sql E i u (store s) = Inr t0" by (auto dest: pg_query_Inr)
    then have "t0 = scanSharedTask (store s) r"
      using assms(3,4) key by (simp add: find_shared_sql_def uuid_arg_def)
    with t addressee show ?thesis by (simp add: scanSharedTask_def)
  qed
  with rest have b: "b" and counter: "shared_CounterPropose E i u inp s1 = (Inr (), s')"
    by auto
  obtain pr due where row': "find_row (\<lambda>r. sh_id r = tid) (shared_tasks (store s')) = Some (swap_row (edit_row E inp pr due r))"
    using counter_row [OF counter assms(3,4), of r] row addressee ok s1 by auto
  have ok': "db_ok (store s')"
    using db_inv.keepsD [OF db_inv.keeps_svc_Update assms(1)] ok by blast
  note spec = shared_Respond_spec [OF assms(2,3) _ row' ok', where st = "''accepted''"]
  have "\<exists>e. svc_Accept E i u s' = (Inl e, s')"
    using spec [OF assms(4)] partner addressee
    by (simp add: svc_Accept_def shared_IsValid_def swap_row_def edit_row_def)
  moreover have "\<exists>s''. svc_Accept E i (sh_proposer_id r) s' = (Inr (), s'')"
    using spec [OF partner(2)] addressee
    by (simp add: svc_Accept_def shared_IsValid_def swap_row_def edit_row_def)
  ultimately show ?thesis using b row' by blast
qed


definition sample_edit :: update_input where
  "sample_edit = \<lparr>ui_Title = ''new'', ui_Description = [], ui_Priority = ''blue'', ui_DueDate = [],
     ui_Subtasks = Some []\<rparr>"

lemma sample_counter:
  "\<exists>s'. svc_Update sample_env ''x'' ''a'' sample_edit sample_pg3 = (Inr True, s') \<and> faults s' = []"
  by (simp add: svc_Update_def shared_FindByID_def find_shared_sql_def pg_query_healthy sample_pg3_def
      uuid_arg_def sample_env_def participant_def sample_shared_def shared_subtasks_sql_def
      scanSharedTask_def shared_CounterPropose_def pg_tx_def next_net_def counter_body_def pg_run_def
      counter_sql_def sample_edit_def due_arg_def rewrite_subtasks_def clear_subtasks_sql_def
      edit_row_def swap_row_def wrap_err_def)

theorem counter_proposal_hands_over_witness:
  "\<exists>s' s''. svc_Update sample_env ''x'' ''a'' sample_edit sample_pg3 = (Inr True, s')
     \<and> svc_Accept sample_env ''x'' ''p'' s' = (Inr (), s'')"
proof -
  obtain s' where s': "svc_Update sample_env ''x'' ''a'' sample_edit sample_pg3 = (Inr True, s')"
    "faults s' = []" using sample_counter by blast
  have "True \<and> (\<exists>pr due. find_row (\<lambda>r. sh_id r = ''x'') (shared_tasks (store s'))
        = Some (swap_row (edit_row sample_env sample_edit pr due sample_shared)))
     \<and> (\<exists>e. svc_Accept sample_env ''x'' ''a'' s' = (Inl e, s'))
     \<and> (\<exists>s''. svc_Accept sample_env ''x'' (sh_proposer_id sample_shared) s' = (Inr (), s''))"
    by (rule counter_proposal_hands_over [OF s' _ _ _ _ _ _ _ sample_pg3_ok])
      (simp_all add: sample_pg3_def sample_env_def sample_shared_def)
  with s' show ?thesis by (auto simp: sample_shared_def)
qed

text \<open>C30: deleting a shared task: only a participant can, and the addressee of a pending
  proposal cannot (identified as the server shows it); otherwise the task goes with its
  subtasks and the partner is named for notification exactly when the task had been
  accepted.\<close>

theorem shared_delete_rules:
  assumes "faults s = []" and "pg_uuid E i = Some tid" "pg_uuid E u = Some u"
    and row: "find_row (\<lambda>r. sh_id r = tid) (shared_tasks (store s)) = Some r"
    and ok: "db_ok (store s)"
  shows "if participant u r \<and> \<not> (sh_status r = ''pending'' \<and> sh_addressee_id r = u)
     then \<exists>s'. shared_Delete E i u s
          = (Inr (if sh_status r = ''accepted''
                  then (if sh_proposer_id r = u then sh_addressee_id r else sh_proposer_id r, sh_title r)
                  else ([], [])), s')
        \<and> shared_tasks (store s') = filter (\<lambda>q. sh_id q \<noteq> tid) (shared_tasks (store s))
        \<and> shared_subtasks (store s') = filter (\<lambda>q. ss_shared_task_id q \<noteq> tid) (shared_subtasks (store s))
     else \<exists>e. shared_Delete E i u s = (Inl e, s)"
proof -
  have dist: "distinct (map sh_id (shared_tasks (store s)))" using ok by (rule shared_ids_distinct)
  note key = keyed_update [OF dist row, where P = "participant u"]
  have r: "sh_id r = tid" "r \<in> set (shared_tasks (store s))" using row by (auto dest: find_row_Some)
  show ?thesis
  proof (cases "participant u r")
    case False
    then show ?thesis
      using assms(1-3) key
      by (simp add: shared_Delete_def pg_query_healthy select_shared_sql_def uuid_arg_def)
  next
    case True
    have only: "q = r" if "q \<in> set (shared_tasks (store s))" "sh_id q = tid" for q
      using find_row_unique [OF dist that] row by simp
    have keep: "filter (\<lambda>q. \<not> (sh_id q = tid \<and> participant u q)) (shared_tasks (store s))
        = filter (\<lambda>q. sh_id q \<noteq> tid) (shared_tasks (store s))"
    proof (rule filter_cong [OF refl])
      show "(\<not> (sh_id q = tid \<and> participant u q)) = (sh_id q \<noteq> tid)"
        if "q \<in> set (shared_tasks (store s))" for q
        using only [OF that] True by auto
    qed
    have gone: "sh_id ` set (filter (\<lambda>q. sh_id q = tid \<and> participant u q) (shared_tasks (store s))) = {tid}"
      using r True by auto
    have n: "length (filter (\<lambda>q. sh_id q = tid \<and> participant u q) (shared_tasks (store s))) = 1"
      using key(2) True by simp
    have del: "delete_shared_sql E i u (store s) = Inr (1, (store s)
        \<lparr>shared_tasks := filter (\<lambda>q. sh_id q \<noteq> tid) (shared_tasks (store s)),
         shared_subtasks := filter (\<lambda>q. ss_shared_task_id q \<noteq> tid) (shared_subtasks (store s))\<rparr>)"
      by (simp only: delete_shared_sql_def uuid_arg_def assms(2,3) option.case ebind.simps Let_def
          keep gone n) simp
    show ?thesis
      using True assms(1-3) key(3) del
      by (auto simp: shared_Delete_def pg_query_healthy pg_run_healthy select_shared_sql_def
          uuid_arg_def Let_def participant_def)
  qed
qed

theorem shared_delete_rules_witness:
  "(\<exists>e. shared_Delete sample_env ''x'' ''a'' sample_pg3 = (Inl e, sample_pg3))
   \<and> (\<exists>s'. shared_Delete sample_env ''x'' ''p'' sample_pg3 = (Inr ([], []), s') \<and> shared_tasks (store s') = [])"
proof -
  have pre: "faults sample_pg3 = []" "pg_uuid sample_env ''x'' = Some ''x''"
    "pg_uuid sample_env ''a'' = Some ''a''" "pg_uuid sample_env ''p'' = Some ''p''"
    "find_row (\<lambda>r. sh_id r = ''x'') (shared_tasks (store sample_pg3)) = Some sample_shared"
    by (simp_all add: sample_pg3_def sample_env_def sample_shared_def)
  show ?thesis
    using shared_delete_rules [OF pre(1,2,3,5) sample_pg3_ok]
      shared_delete_rules [OF pre(1,2,4,5) sample_pg3_ok]
    by (auto simp: participant_def sample_shared_def sample_pg3_def)
qed

lemma idx_of_distinct:
  assumes "distinct (map x_ID ts)" and "k < length ts"
  shows "idx_of ts (x_ID (ts ! k)) = Some k"
proof -
  have "distinct (map fst (rev (zip (map x_ID ts) [0..<length ts])))"
    using assms(1) by (simp add: rev_map [symmetric])
  moreover have "(x_ID (ts ! k), k) \<in> set (rev (zip (map x_ID ts) [0..<length ts]))"
    using assms(2) by (force simp: set_zip)
  ultimately show ?thesis by (simp add: idx_of_def)
qed

lemma idx_of_None: "i \<notin> x_ID ` set ts \<Longrightarrow> idx_of ts i = None"
  by (auto simp: idx_of_def map_of_eq_None_iff dest!: set_zip_leftD)


text \<open>
  Handing the subtasks out one by one is the same as giving each task its own, in order.
\<close>

lemma attach_keeps_ids: "map x_ID (attach idx s ts) = map x_ID ts"
  by (cases "idx (xs_SharedTaskID s)")
    (simp_all add: attach_def map_update, metis list_update_id map_update nth_map list_update_beyond not_le)

lemma idx_of_ids: "map x_ID ts0 = map x_ID ts \<Longrightarrow> idx_of ts0 = idx_of ts"
  unfolding idx_of_def by (metis length_map)

lemma attach_distinct:
  assumes "distinct (map x_ID ts)"
  shows "attach (idx_of ts) s ts
    = map (\<lambda>t. if x_ID t = xs_SharedTaskID s then t\<lparr>x_Subtasks := x_Subtasks t @ [s]\<rparr> else t) ts"
proof (cases "xs_SharedTaskID s \<in> x_ID ` set ts")
  case False
  then have "idx_of ts (xs_SharedTaskID s) = None" by (rule idx_of_None)
  moreover have "map (\<lambda>t. if x_ID t = xs_SharedTaskID s then t\<lparr>x_Subtasks := x_Subtasks t @ [s]\<rparr> else t) ts = ts"
  proof (rule map_idI)
    fix t assume "t \<in> set ts"
    then have "x_ID t \<noteq> xs_SharedTaskID s" using False by (metis imageI)
    then show "(if x_ID t = xs_SharedTaskID s then t\<lparr>x_Subtasks := x_Subtasks t @ [s]\<rparr> else t) = t" by simp
  qed
  ultimately show ?thesis by (simp add: attach_def)
next
  case True
  then obtain k where k: "k < length ts" "xs_SharedTaskID s = x_ID (ts ! k)"
    by (auto simp: in_set_conv_nth)
  have "x_ID (ts ! m) = x_ID (ts ! k) \<longleftrightarrow> m = k" if "m < length ts" for m
    using assms k(1) that by (metis length_map nth_eq_iff_index_eq nth_map)
  then show ?thesis
    using k idx_of_distinct [OF assms k(1)]
    by (intro nth_equalityI) (auto simp: attach_def nth_list_update)
qed

lemma fold_attach:
  assumes "distinct (map x_ID ts)"
  shows "fold (attach (idx_of ts)) subs ts
    = map (\<lambda>t. t\<lparr>x_Subtasks := x_Subtasks t @ filter (\<lambda>s. xs_SharedTaskID s = x_ID t) subs\<rparr>) ts"
  using assms
proof (induction subs arbitrary: ts)
  case Nil
  then show ?case by simp
next
  case (Cons s subs)
  let ?ts = "attach (idx_of ts) s ts"
  have ids: "map x_ID ?ts = map x_ID ts" by (rule attach_keeps_ids)
  have "idx_of ?ts = idx_of ts" by (rule idx_of_ids [OF ids])
  then have "fold (attach (idx_of ts)) (s # subs) ts = fold (attach (idx_of ?ts)) subs ?ts"
    by simp
  also have "\<dots> = map (\<lambda>t. t\<lparr>x_Subtasks := x_Subtasks t @ filter (\<lambda>s. xs_SharedTaskID s = x_ID t) subs\<rparr>) ?ts"
    using Cons.IH [of ?ts] Cons.prems ids by simp
  also have "\<dots> = map (\<lambda>t. t\<lparr>x_Subtasks := x_Subtasks t @ filter (\<lambda>s. xs_SharedTaskID s = x_ID t) (s # subs)\<rparr>) ts"
    unfolding attach_distinct [OF Cons.prems] map_map by (rule map_cong [OF refl]) simp
  finally show ?case .
qed

text \<open>
  Attaching the subtasks of all tasks at once gives every task its own, in their order.
\<close>

lemma attached_rows:
  assumes args: "uuid_args E (map x_ID us) = Inr (map sh_id rows)" and dist: "distinct (map sh_id rows)"
    and us: "us = map (scanSharedTask d) rows"
    and subs: "shared_subtasks_sql E (map x_ID us) d = Inr subs"
  shows "fold (attach (idx_of us)) subs us = map (\<lambda>r. (scanSharedTask d r)
     \<lparr>x_Subtasks := map (scanSharedSubtask d)
        (filter (\<lambda>q. ss_shared_task_id q = sh_id r) (sort_key ss_order_num (shared_subtasks d)))\<rparr>) rows"
proof -
  have ids: "map x_ID us = map sh_id rows" by (simp add: us scanSharedTask_def)
  have subs': "subs = map (scanSharedSubtask d) (sort_key ss_order_num
      (filter (\<lambda>q. ss_shared_task_id q \<in> set (map sh_id rows)) (shared_subtasks d)))"
    using subs args by (simp add: shared_subtasks_sql_def)
  have own: "filter (\<lambda>x. xs_SharedTaskID x = sh_id r) subs = map (scanSharedSubtask d)
      (filter (\<lambda>q. ss_shared_task_id q = sh_id r) (sort_key ss_order_num (shared_subtasks d)))"
    if "r \<in> set rows" for r
  proof -
    have "filter (\<lambda>q. ss_shared_task_id q = sh_id r) (filter (\<lambda>q. ss_shared_task_id q \<in> set (map sh_id rows)) (shared_subtasks d))
        = filter (\<lambda>q. ss_shared_task_id q = sh_id r) (shared_subtasks d)"
      using that by (auto intro!: filter_cong)
    then show ?thesis
      by (simp add: subs' filter_map comp_def filter_sort scanSharedSubtask_def del: filter_filter)
  qed
  have "fold (attach (idx_of us)) subs us
      = map (\<lambda>t. t\<lparr>x_Subtasks := x_Subtasks t @ filter (\<lambda>s. xs_SharedTaskID s = x_ID t) subs\<rparr>) us"
    using dist ids by (simp add: fold_attach)
  also have "\<dots> = map (\<lambda>r. (scanSharedTask d r)
     \<lparr>x_Subtasks := map (scanSharedSubtask d)
        (filter (\<lambda>q. ss_shared_task_id q = sh_id r) (sort_key ss_order_num (shared_subtasks d)))\<rparr>) rows"
    unfolding us map_map by (rule map_cong [OF refl]) (simp add: own scanSharedTask_def)
  finally show ?thesis .
qed

text \<open>C29: the list of a user's shared tasks holds exactly the tasks the user takes part in
  and that are not hidden, newest first, each with exactly its own subtasks in their order,
  although the server is asked for the subtasks of all tasks at once.\<close>

theorem shared_list_correct:
  assumes "shared_FindByUser E u s = (Inr ts, s')" and "db_ok (store s)"
    and "\<forall>r \<in> set (shared_tasks (store s)). pg_uuid E (sh_id r) = Some (sh_id r)"
  shows "\<exists>uid rows. pg_uuid E u = Some uid
     \<and> mset rows = mset (filter (\<lambda>r. participant uid r
           \<and> \<not> (is_true (sh_admin_deleted r) \<and> is_true (sh_user_ack r))) (shared_tasks (store s)))
     \<and> sorted (map (\<lambda>r. - sh_created_at r) rows)
     \<and> ts = map (\<lambda>r. (scanSharedTask (store s) r)
           \<lparr>x_Subtasks := map (scanSharedSubtask (store s))
              (filter (\<lambda>q. ss_shared_task_id q = sh_id r)
                (sort_key ss_order_num (shared_subtasks (store s))))\<rparr>) rows"
proof -
  let ?d = "store s"
  obtain us s1 where q1: "pg_query (find_shared_by_user_sql E u) s = (Inr us, s1)"
    and rest: "us = [] \<and> ts = [] \<or> (\<exists>subs s2. pg_query (shared_subtasks_sql E (map x_ID us)) s1 = (Inr subs, s2)
        \<and> ts = fold (attach (idx_of us)) subs us)"
    using assms(1)
    by (auto simp: shared_FindByUser_def findTasksWithSubtasks_def Let_def wrap_err_def
        split: prod.splits sum.splits if_splits)
  have s1: "store s1 = ?d" using pg_query_store [OF q1] by simp
  obtain uid where uid: "pg_uuid E u = Some uid" and us: "us = map (scanSharedTask ?d)
      (sort_key (\<lambda>r. - sh_created_at r) (filter (\<lambda>r. participant uid r
         \<and> \<not> (is_true (sh_admin_deleted r) \<and> is_true (sh_user_ack r))) (shared_tasks ?d)))"
    using pg_query_Inr [OF q1] by (auto simp: find_shared_by_user_sql_def)
  define rows where "rows = sort_key (\<lambda>r. - sh_created_at r) (filter (\<lambda>r. participant uid r
         \<and> \<not> (is_true (sh_admin_deleted r) \<and> is_true (sh_user_ack r))) (shared_tasks ?d))"
  have us: "us = map (scanSharedTask ?d) rows" by (simp add: us rows_def)
  have ids: "map x_ID us = map sh_id rows" by (simp add: us scanSharedTask_def)
  have "distinct (map sh_id (filter (\<lambda>r. participant uid r
         \<and> \<not> (is_true (sh_admin_deleted r) \<and> is_true (sh_user_ack r))) (shared_tasks ?d)))"
    using shared_ids_distinct [OF assms(2)] by (rule distinct_map_filter)
  then have dist: "distinct (map sh_id rows)"
    by (simp add: rows_def distinct_map)
  have rows: "r \<in> set (shared_tasks ?d)" if "r \<in> set rows" for r
    using that by (auto simp: rows_def)
  have "ts = map (\<lambda>r. (scanSharedTask ?d r)
           \<lparr>x_Subtasks := map (scanSharedSubtask ?d)
              (filter (\<lambda>q. ss_shared_task_id q = sh_id r)
                (sort_key ss_order_num (shared_subtasks ?d)))\<rparr>) rows"
    using rest
  proof (elim disjE exE conjE)
    assume "us = []" "ts = []"
    then show ?thesis by (simp add: us)
  next
    fix subs s2
    assume q2: "pg_query (shared_subtasks_sql E (map x_ID us)) s1 = (Inr subs, s2)"
      and ts: "ts = fold (attach (idx_of us)) subs us"
    have args: "uuid_args E (map x_ID us) = Inr (map sh_id rows)"
      using assms(3) rows by (auto simp: uuid_args_Inr ids)
    have "shared_subtasks_sql E (map x_ID us) ?d = Inr subs" using pg_query_Inr [OF q2] s1 by simp
    from attached_rows [OF args dist us this] ts show ?thesis by simp
  qed
  moreover have "mset rows = mset (filter (\<lambda>r. participant uid r
           \<and> \<not> (is_true (sh_admin_deleted r) \<and> is_true (sh_user_ack r))) (shared_tasks ?d))"
    "sorted (map (\<lambda>r. - sh_created_at r) rows)"
    unfolding rows_def by simp_all
  ultimately show ?thesis using uid by blast
qed


lemma sample_shared_list:
  "\<exists>ts s'. shared_FindByUser sample_env ''a'' sample_pg3 = (Inr ts, s') \<and> length ts = 1"
  by (simp add: shared_FindByUser_def findTasksWithSubtasks_def pg_query_healthy sample_pg3_def
      find_shared_by_user_sql_def uuid_arg_def sample_env_def participant_def sample_shared_def
      is_true_def shared_subtasks_sql_def scanSharedTask_def empty_db_def)

theorem shared_list_correct_witness:
  "\<exists>t s'. shared_FindByUser sample_env ''a'' sample_pg3 = (Inr [t], s') \<and> x_ID t = ''x'' \<and> x_Subtasks t = []"
proof -
  obtain ts s' where run: "shared_FindByUser sample_env ''a'' sample_pg3 = (Inr ts, s')" "length ts = 1"
    using sample_shared_list by blast
  have "\<forall>r \<in> set (shared_tasks (store sample_pg3)). pg_uuid sample_env (sh_id r) = Some (sh_id r)"
    by (simp add: sample_pg3_def sample_shared_def sample_env_def)
  from shared_list_correct [OF run(1) sample_pg3_ok this]
  obtain uid rows where uid: "pg_uuid sample_env ''a'' = Some uid"
    and rows: "mset rows = mset (filter (\<lambda>r. participant uid r
           \<and> \<not> (is_true (sh_admin_deleted r) \<and> is_true (sh_user_ack r))) (shared_tasks (store sample_pg3)))"
    and ts: "ts = map (\<lambda>r. (scanSharedTask (store sample_pg3) r)
           \<lparr>x_Subtasks := map (scanSharedSubtask (store sample_pg3))
              (filter (\<lambda>q. ss_shared_task_id q = sh_id r)
                (sort_key ss_order_num (shared_subtasks (store sample_pg3))))\<rparr>) rows"
    by blast
  have "uid = ''a''" using uid by (simp add: sample_env_def)
  then have "mset rows = {#sample_shared#}"
    using rows by (simp add: sample_pg3_def participant_def sample_shared_def is_true_def)
  then have "rows = [sample_shared]" by simp
  with run ts show ?thesis
    by (simp add: scanSharedTask_def sample_shared_def sample_pg3_def empty_db_def)
qed

end
