(* ===== verification/Outbox.thy ===== *)
theory Outbox
  imports Mapper GoTime "HOL-Library.Sublist"
begin

text \<open>
  The outbox repository (\<open>tasks/repository/outbox/repository.go\<close>), the Kafka producer
  (\<open>tasks/event/kafka/producer.go\<close>, \<open>pkg/client/kafka/client.go\<close>) and the processor
  that moves events from the one to the other (\<open>internal/worker/worker.go\<close>).
\<close>

section \<open>The outbox table\<close>

record outbox_event =
  oe_ID :: string
  oe_AggregateType :: string
  oe_AggregateID :: string
  oe_EventType :: string
  oe_EventData :: json
  oe_Attempts :: int

definition scan_event :: "outbox_row \<Rightarrow> outbox_event" where
  "scan_event r =
     \<lparr>oe_ID = ob_id r, oe_AggregateType = ob_aggregate_type r, oe_AggregateID = ob_aggregate_id r,
      oe_EventType = ob_event_type r, oe_EventData = ob_event_data r, oe_Attempts = ob_attempts r\<rparr>"

text \<open>
  The rows \<open>WHERE processed_at IS NULL ORDER BY created_at ASC LIMIT n\<close>; rows created at the same
  instant come in whatever order the server has them.
\<close>

definition pending_rows :: "env \<Rightarrow> nat \<Rightarrow> outbox_row list \<Rightarrow> outbox_row list" where
  "pending_rows E n rs =
     take n (sort_key ob_created_at (sort_key (row_order E \<circ> ob_id) (filter (\<lambda>r. ob_processed_at r = None) rs)))"

definition unprocessed_sql :: "env \<Rightarrow> nat \<Rightarrow> db \<Rightarrow> go_err + outbox_event list" where
  "unprocessed_sql E n d = Inr (map scan_event (pending_rows E n (outbox_events d)))"

definition repo_GetUnprocessedEvents :: "env \<Rightarrow> nat \<Rightarrow> pg \<Rightarrow> (go_err + outbox_event list) \<times> pg" where
  "repo_GetUnprocessedEvents E n s = wrap_err ''query outbox'' (pg_query (unprocessed_sql E n) s)"

text \<open>Rows of the window are pending rows of the table, and all of them when they fit.\<close>

lemma pending_rows_subset: "set (pending_rows E n rs) \<subseteq> {r \<in> set rs. ob_processed_at r = None}"
  using set_take_subset by (fastforce simp: pending_rows_def)

lemma pending_rows_all:
  "length (filter (\<lambda>r. ob_processed_at r = None) rs) \<le> n
   \<Longrightarrow> set (pending_rows E n rs) = {r \<in> set rs. ob_processed_at r = None}"
  by (simp add: pending_rows_def)

lemma pending_rows_distinct:
  assumes "distinct (map ob_id rs)"
  shows "distinct (map ob_id (pending_rows E n rs))"
proof -
  have "distinct (map ob_id (sort_key ob_created_at (sort_key (row_order E \<circ> ob_id)
      (filter (\<lambda>r. ob_processed_at r = None) rs))))"
    using distinct_map_filter [OF assms, of "\<lambda>r. ob_processed_at r = None"] by (simp add: distinct_map)
  then show ?thesis unfolding pending_rows_def by (metis distinct_take take_map)
qed

definition mark_processed_sql :: "env \<Rightarrow> string \<Rightarrow> db \<Rightarrow> go_err + nat \<times> db" where
  "mark_processed_sql E i d =
     ebind (uuid_arg E i) (\<lambda>c.
       Inr (length (filter (\<lambda>r. ob_id r = c) (outbox_events d)),
            d\<lparr>outbox_events := update_where (\<lambda>r. ob_id r = c)
                 (\<lambda>r. r\<lparr>ob_processed_at := Some (now E)\<rparr>) (outbox_events d)\<rparr>))"

definition repo_MarkAsProcessed :: "env \<Rightarrow> string \<Rightarrow> pg \<Rightarrow> (go_err + unit) \<times> pg" where
  "repo_MarkAsProcessed E i s =
     (case wrap_err ''mark processed'' (pg_run (mark_processed_sql E i) s) of
        (Inl e, s) \<Rightarrow> (Inl e, s)
      | (Inr n, s) \<Rightarrow>
          if n = 0 then (Inl (Msg (''outbox event '' @ i @ '' not found'')), s) else (Inr (), s))"

definition mark_batch_sql :: "env \<Rightarrow> string list \<Rightarrow> db \<Rightarrow> go_err + unit \<times> db" where
  "mark_batch_sql E ids d =
     ebind (uuid_args E ids) (\<lambda>cs.
       Inr ((), d\<lparr>outbox_events := update_where (\<lambda>r. ob_id r \<in> set cs)
                    (\<lambda>r. r\<lparr>ob_processed_at := Some (now E)\<rparr>) (outbox_events d)\<rparr>))"

definition repo_MarkBatchAsProcessed :: "env \<Rightarrow> string list \<Rightarrow> pg \<Rightarrow> (go_err + unit) \<times> pg" where
  "repo_MarkBatchAsProcessed E ids s = pg_run (mark_batch_sql E ids) s"

text \<open>\<open>attempts + 1\<close> under the CHECK constraint \<open>attempts BETWEEN 0 AND 100\<close>.\<close>

definition bump_row :: "string \<Rightarrow> outbox_row \<Rightarrow> outbox_row" where
  "bump_row msg r = r\<lparr>ob_attempts := ob_attempts r + 1, ob_last_error := Some msg\<rparr>"

definition mark_failed_sql :: "env \<Rightarrow> string \<Rightarrow> string \<Rightarrow> db \<Rightarrow> go_err + nat \<times> db" where
  "mark_failed_sql E i msg d =
     ebind (uuid_arg E i) (\<lambda>c.
       let hit = filter (\<lambda>r. ob_id r = c) (outbox_events d)
       in if list_ex (\<lambda>r. ob_attempts r + 1 > 100) hit
          then Inl (DbError ''outbox_events_attempts_check'')
          else Inr (length hit,
                 d\<lparr>outbox_events := update_where (\<lambda>r. ob_id r = c) (bump_row msg) (outbox_events d)\<rparr>))"

definition repo_MarkAsFailed :: "env \<Rightarrow> string \<Rightarrow> string \<Rightarrow> pg \<Rightarrow> (go_err + unit) \<times> pg" where
  "repo_MarkAsFailed E i msg s =
     (case wrap_err ''mark failed'' (pg_run (mark_failed_sql E i msg) s) of
        (Inl e, s) \<Rightarrow> (Inl e, s)
      | (Inr n, s) \<Rightarrow>
          if n = 0 then (Inl (Msg (''outbox event '' @ i @ '' not found'')), s) else (Inr (), s))"

section \<open>The Kafka producer\<close>

record kafka_payload =
  kp_Task :: task_payload
  kp_Type :: string
  kp_Timestamp :: time

text \<open>
  The client over the library's writer. \<open>kc_refusals\<close> lists the outcome of the coming
  \<open>WriteMessages\<close> calls (\<open>True\<close>: it returns an error at once, as for a cancelled
  context or a closed writer); \<open>kc_accepted\<close> are the messages it accepted, oldest first. The writer is
  asynchronous, so accepting a message is all a successful call says. The two counters
  are unsigned 64-bit numbers and wrap. \<open>kc_closed\<close>: the channel \<open>statsDone\<close> is closed.
\<close>

record kafka_client =
  kc_refusals :: "bool list"
  kc_accepted :: "(string \<times> kafka_payload) list"
  kc_messageCount :: nat
  kc_errorCount :: nat
  kc_closed :: bool

definition writer_WriteMessages ::
    "string \<Rightarrow> kafka_payload \<Rightarrow> kafka_client \<Rightarrow> (go_err + unit) \<times> kafka_client" where
  "writer_WriteMessages key msg k =
     (case kc_refusals k of
        True # fs \<Rightarrow> (Inl (Msg ''kafka''), k\<lparr>kc_refusals := fs\<rparr>)
      | False # fs \<Rightarrow> (Inr (), k\<lparr>kc_refusals := fs, kc_accepted := kc_accepted k @ [(key, msg)]\<rparr>)
      | [] \<Rightarrow> (Inr (), k\<lparr>kc_accepted := kc_accepted k @ [(key, msg)]\<rparr>))"

definition client_Write ::
    "string \<Rightarrow> kafka_payload \<Rightarrow> kafka_client \<Rightarrow> (go_err + unit) \<times> kafka_client" where
  "client_Write key msg k =
     (let k = k\<lparr>kc_messageCount := (kc_messageCount k + 1) mod 2 ^ 64\<rparr>
      in case writer_WriteMessages key msg k of
           (Inl e, k) \<Rightarrow> (Inl (Wrap ''immediate write error'' e),
                          k\<lparr>kc_errorCount := (kc_errorCount k + 1) mod 2 ^ 64\<rparr>)
         | (Inr _, k) \<Rightarrow> (Inr (), k))"

definition client_GetStats :: "kafka_client \<Rightarrow> nat \<times> nat" where
  "client_GetStats k = (kc_messageCount k, kc_errorCount k)"

text \<open>The statistics ticker sets both counters back.\<close>

definition stats_tick :: "kafka_client \<Rightarrow> kafka_client" where
  "stats_tick k = k\<lparr>kc_messageCount := 0, kc_errorCount := 0\<rparr>"

text \<open>
  \<open>WriteSync\<close> goes through a writer of its own (\<open>sync\<close>, what its call returns) and leaves the client
  alone. \<open>Close\<close> closes \<open>statsDone\<close>, which panics the second time, and waits up to ten seconds for
  the writer: \<open>Finishes\<close> is what its \<open>Close\<close> returned, \<open>Hangs\<close> that it did not. From then on the writer
  refuses messages; \<open>n\<close> is how many refusals the model writes down.
\<close>

definition client_WriteSync ::
    "(string \<Rightarrow> kafka_payload \<Rightarrow> go_err + unit) \<Rightarrow> string \<Rightarrow> kafka_payload \<Rightarrow> kafka_client
      \<Rightarrow> (go_err + unit) \<times> kafka_client" where
  "client_WriteSync sync key msg k = (sync key msg, k)"

datatype closing = Finishes "go_err + unit" | Hangs

definition client_Close :: "nat \<Rightarrow> closing \<Rightarrow> kafka_client \<Rightarrow> (go_err + unit) outcome \<times> kafka_client" where
  "client_Close n out k =
     (if kc_closed k then (Panic, k)
      else (Ret (case out of Finishes r \<Rightarrow> r | Hangs \<Rightarrow> Inl (Msg ''context deadline exceeded'')),
            k\<lparr>kc_closed := True, kc_refusals := replicate n True\<rparr>))"

definition producer_Close :: "nat \<Rightarrow> closing \<Rightarrow> kafka_client \<Rightarrow> (go_err + unit) outcome \<times> kafka_client" where
  "producer_Close n out k = client_Close n out k"

text \<open>Closing keeps what was accepted, and nothing is accepted afterwards.\<close>

lemma client_Close_state: "snd (client_Close n out k) = snd (client_Close n Hangs k)"
  by (simp add: client_Close_def)

lemma closed_refuses:
  assumes "client_Close (Suc n) out k = (Ret r, k1)"
  shows "kc_accepted k1 = kc_accepted k \<and> (\<exists>e k2. client_Write key msg k1 = (Inl e, k2)
      \<and> kc_accepted k2 = kc_accepted k) \<and> fst (client_Close m out' k1) = Panic"
  using assms by (auto simp: client_Close_def client_Write_def writer_WriteMessages_def Let_def split: if_splits)

definition producer_payload :: "env \<Rightarrow> task \<Rightarrow> string \<Rightarrow> kafka_payload" where
  "producer_payload E t eventType =
     \<lparr>kp_Task = \<lparr>pl_ID = t_ID t, pl_Title = t_Title t, pl_Description = t_Description t,
        pl_Priority = t_Priority t, pl_Status = t_Status t, pl_DueDate = t_DueDate t,
        pl_UserID = t_UserID t, pl_TagID = t_TagID t, pl_TagName = t_TagName t,
        pl_CreatedAt = t_CreatedAt t\<rparr>,
      kp_Type = eventType, kp_Timestamp = now E\<rparr>"

definition producer_Write :: "env \<Rightarrow> task \<Rightarrow> string \<Rightarrow> kafka_client \<Rightarrow> (go_err + unit) \<times> kafka_client" where
  "producer_Write E t eventType k =
     (case client_Write (t_ID t) (producer_payload E t eventType) k of
        (Inl e, k) \<Rightarrow> (Inl (Wrap ''kafka write'' e), k)
      | (Inr _, k) \<Rightarrow> (Inr (), k))"

section \<open>The processor\<close>

definition batchSize :: nat where "batchSize = 1000"
definition maxAttempts :: int where [simp]: "maxAttempts = 5"

text \<open>\<open>err.Error()\<close>.\<close>

fun Error :: "go_err \<Rightarrow> string" where
  "Error ErrNoRows = ''sql: no rows in result set''"
| "Error PgxNoRows = ''no rows in result set''"
| "Error ErrNotFound = ''not found''"
| "Error ErrDeadlineExpired = ''deadline expired''"
| "Error (DbError m) = m"
| "Error (Msg m) = m"
| "Error (Wrap m e) = m @ '': '' @ Error e"

text \<open>
  \<open>Processor\<close> holds its two repositories as interface values, so they are arguments here:
  \<open>get\<close>, \<open>mark_batch\<close> and \<open>mark_failed\<close> on the store's state, \<open>write\<close> on the sink's.
\<close>

definition processEvent ::
    "(task \<Rightarrow> string \<Rightarrow> 'k \<Rightarrow> (go_err + unit) \<times> 'k) \<Rightarrow> outbox_event \<Rightarrow> 'k \<Rightarrow> (go_err + unit) \<times> 'k" where
  "processEvent write event k =
     (case payload_unmarshal (oe_EventData event) of
        Inl e \<Rightarrow> (Inl (Wrap ''unmarshal task payload'' e), k)
      | Inr payload \<Rightarrow>
          (case write (PayloadToTask payload) (oe_EventType event) k of
             (Inl e, k) \<Rightarrow> (Inl (Wrap ''kafka write'' e), k)
           | (Inr _, k) \<Rightarrow> (Inr (), k)))"

text \<open>The loop over the events; it returns the ids of those that went through.\<close>

fun process_loop ::
    "(string \<Rightarrow> string \<Rightarrow> 's \<Rightarrow> (go_err + unit) \<times> 's)
      \<Rightarrow> (task \<Rightarrow> string \<Rightarrow> 'k \<Rightarrow> (go_err + unit) \<times> 'k)
      \<Rightarrow> outbox_event list \<Rightarrow> 's \<times> 'k \<Rightarrow> string list \<times> 's \<times> 'k" where
  "process_loop mark_failed write [] (s, k) = ([], s, k)"
| "process_loop mark_failed write (event # events) (s, k) =
     (case processEvent write event k of
        (Inl e, k) \<Rightarrow>
          (let s = (if oe_Attempts event < maxAttempts
                    then snd (mark_failed (oe_ID event) (Error e) s) else s)
           in process_loop mark_failed write events (s, k))
      | (Inr _, k) \<Rightarrow>
          (case process_loop mark_failed write events (s, k) of
             (ids, sk) \<Rightarrow> (oe_ID event # ids, sk)))"

definition processBatch ::
    "(nat \<Rightarrow> 's \<Rightarrow> (go_err + outbox_event list) \<times> 's)
      \<Rightarrow> (string list \<Rightarrow> 's \<Rightarrow> (go_err + unit) \<times> 's)
      \<Rightarrow> (string \<Rightarrow> string \<Rightarrow> 's \<Rightarrow> (go_err + unit) \<times> 's)
      \<Rightarrow> (task \<Rightarrow> string \<Rightarrow> 'k \<Rightarrow> (go_err + unit) \<times> 'k)
      \<Rightarrow> 's \<times> 'k \<Rightarrow> 's \<times> 'k" where
  "processBatch get mark_batch mark_failed write sk =
     (case sk of (s, k) \<Rightarrow>
        case get batchSize s of
          (Inl e, s) \<Rightarrow> (s, k)
        | (Inr events, s) \<Rightarrow>
            if length events = 0 then (s, k)
            else case process_loop mark_failed write events (s, k) of
              (successIDs, s, k) \<Rightarrow>
                (if length successIDs > 0 then snd (mark_batch successIDs s) else s, k))"

text \<open>The processor as \<open>main.go\<close> builds it, one tick of its loop.\<close>

definition processor_tick :: "env \<Rightarrow> pg \<times> kafka_client \<Rightarrow> pg \<times> kafka_client" where
  "processor_tick E =
     processBatch (repo_GetUnprocessedEvents E) (repo_MarkBatchAsProcessed E) (repo_MarkAsFailed E)
       (producer_Write E)"

section \<open>What the processor relies on\<close>

text \<open>
  The store of events as the processor sees it: \<open>rows\<close> is the table behind it, \<open>ok\<close> what
  the store keeps of itself, \<open>window\<close> the pending rows a reading of so many returns. Reading changes nothing;
  marking either takes effect or not, and touches only the rows named.
\<close>

definition core :: "outbox_row \<Rightarrow> outbox_row" where
  "core r = r\<lparr>ob_processed_at := None, ob_attempts := 0, ob_last_error := None\<rparr>"

definition done_row :: "time \<Rightarrow> outbox_row \<Rightarrow> outbox_row" where
  "done_row t r = r\<lparr>ob_processed_at := Some t\<rparr>"

text \<open>
  What the loop does to one row: contents and mark stay, and the failure count goes up by
  one at most, only for an event of the batch that was below the limit.
\<close>

definition row_kept :: "outbox_event list \<Rightarrow> outbox_row \<Rightarrow> outbox_row \<Rightarrow> bool" where
  "row_kept evs r r' \<longleftrightarrow> core r' = core r \<and> ob_processed_at r' = ob_processed_at r
      \<and> (ob_attempts r' = ob_attempts r
         \<or> (\<exists>ev \<in> set evs. oe_ID ev = ob_id r \<and> oe_Attempts ev < maxAttempts
              \<and> ob_attempts r' = ob_attempts r + 1))"

lemma row_kept_refl [simp]: "row_kept evs r r"
  by (simp add: row_kept_def)

lemma row_kept_mono: "row_kept evs r r' \<Longrightarrow> row_kept (ev # evs) r r'"
  by (auto simp: row_kept_def)

lemma core_id: "core r' = core r \<Longrightarrow> ob_id r' = ob_id r"
  by (drule arg_cong [where f = ob_id]) (simp add: core_def)

lemma row_kept_bump:
  assumes "row_kept evs (if ob_id r = oe_ID ev then bump_row m r else r) r'"
    and "oe_ID ev \<notin> oe_ID ` set evs" and "oe_Attempts ev < maxAttempts"
  shows "row_kept (ev # evs) r r'"
proof (cases "ob_id r = oe_ID ev")
  case False
  with assms(1) show ?thesis by (auto simp: row_kept_def)
next
  case True
  with assms have "ob_attempts r' = ob_attempts r + 1" "core r' = core r" "ob_processed_at r' = ob_processed_at r"
    by (auto simp: row_kept_def bump_row_def core_def image_iff)
  with True assms(3) show ?thesis by (auto simp: row_kept_def)
qed

text \<open>What one batch does to one row, given the events \<open>evs\<close> that went through.\<close>

definition row_after :: "outbox_event list \<Rightarrow> outbox_row \<Rightarrow> outbox_row \<Rightarrow> bool" where
  "row_after evs r r' \<longleftrightarrow> core r' = core r
     \<and> (ob_processed_at r' = ob_processed_at r \<or> scan_event r \<in> set evs)
     \<and> (ob_attempts r' = ob_attempts r \<or> ob_attempts r < maxAttempts \<and> ob_attempts r' = ob_attempts r + 1)"

locale event_store =
  fixes get :: "nat \<Rightarrow> 's \<Rightarrow> (go_err + outbox_event list) \<times> 's"
    and mark_batch :: "string list \<Rightarrow> 's \<Rightarrow> (go_err + unit) \<times> 's"
    and mark_failed :: "string \<Rightarrow> string \<Rightarrow> 's \<Rightarrow> (go_err + unit) \<times> 's"
    and window :: "nat \<Rightarrow> outbox_row list \<Rightarrow> outbox_row list"
    and rows :: "'s \<Rightarrow> outbox_row list"
    and ok :: "'s \<Rightarrow> bool"
  assumes window_rows: "set (window n rs) \<subseteq> {r \<in> set rs. ob_processed_at r = None}"
    and window_distinct: "distinct (map ob_id rs) \<Longrightarrow> distinct (map ob_id (window n rs))"
    and get_keeps: "ok s \<Longrightarrow> get n s = (g, s') \<Longrightarrow> ok s' \<and> rows s' = rows s"
    and get_pending: "get n s = (Inr evs, s') \<Longrightarrow> evs = map scan_event (window n (rows s))"
    and mark_batch_rows: "ok s \<Longrightarrow> set ids \<subseteq> ob_id ` set (rows s) \<Longrightarrow> mark_batch ids s = (r, s')
      \<Longrightarrow> ok s' \<and> (rows s' = rows s
           \<or> (\<exists>t. rows s' = update_where (\<lambda>r. ob_id r \<in> set ids) (done_row t) (rows s)))"
    and mark_failed_rows: "ok s \<Longrightarrow> i \<in> ob_id ` set (rows s) \<Longrightarrow> mark_failed i m s = (r, s')
      \<Longrightarrow> ok s' \<and> (rows s' = rows s \<or> rows s' = update_where (\<lambda>r. ob_id r = i) (bump_row m) (rows s))"

text \<open>
  The sink: a write that reports success has handed over one message that describes the
  task and the event type, one that reports an error none.
\<close>

locale event_sink =
  fixes publish :: "task \<Rightarrow> string \<Rightarrow> 'k \<Rightarrow> (go_err + unit) \<times> 'k"
    and sent :: "'k \<Rightarrow> 'm list"
    and describes :: "'m \<Rightarrow> task \<Rightarrow> string \<Rightarrow> bool"
  assumes write_sent: "publish t e k = (Inr u, k') \<Longrightarrow> \<exists>m. sent k' = sent k @ [m] \<and> describes m t e"
    and write_refused: "publish t e k = (Inl x, k') \<Longrightarrow> sent k' = sent k"

locale outbox_processor = event_store get mark_batch mark_failed window rows ok + event_sink publish sent describes
  for get :: "nat \<Rightarrow> 's \<Rightarrow> (go_err + outbox_event list) \<times> 's"
    and mark_batch mark_failed window rows ok
    and publish :: "task \<Rightarrow> string \<Rightarrow> 'k \<Rightarrow> (go_err + unit) \<times> 'k"
    and sent :: "'k \<Rightarrow> 'm list" and describes
begin

text \<open>A message that carries an event.\<close>

definition carries :: "'m \<Rightarrow> outbox_event \<Rightarrow> bool" where
  "carries m ev \<longleftrightarrow>
     (\<exists>p. payload_unmarshal (oe_EventData ev) = Inr p \<and> describes m (PayloadToTask p) (oe_EventType ev))"

lemma processEvent_cases:
  assumes "processEvent publish ev k = (r, k')"
  obtains (bad) e where "r = Inl e" "sent k' = sent k"
  | (good) m where "r = Inr ()" "sent k' = sent k @ [m]" "carries m ev"
proof (cases "payload_unmarshal (oe_EventData ev)")
  case (Inl e)
  then have "r = Inl (Wrap ''unmarshal task payload'' e)" "k' = k"
    using assms by (simp_all add: processEvent_def)
  then show ?thesis using bad by simp
next
  case (Inr p)
  obtain w k1 where w: "publish (PayloadToTask p) (oe_EventType ev) k = (w, k1)" by force
  show ?thesis
  proof (cases w)
    case (Inl e)
    then show ?thesis using assms Inr w write_refused bad by (auto simp: processEvent_def)
  next
    case (Inr u)
    with w obtain m where m: "sent k1 = sent k @ [m]" "describes m (PayloadToTask p) (oe_EventType ev)"
      using write_sent by blast
    with \<open>payload_unmarshal (oe_EventData ev) = Inr p\<close> have "carries m ev"
      unfolding carries_def by blast
    moreover have "r = Inr ()" "k' = k1"
      using assms w Inr \<open>payload_unmarshal (oe_EventData ev) = Inr p\<close> by (simp_all add: processEvent_def)
    ultimately show ?thesis using good m by simp
  qed
qed

lemma loop_keeps:
  assumes "process_loop mark_failed publish evs (s, k) = (ids, s', k')"
    and "ok s" and "oe_ID ` set evs \<subseteq> ob_id ` set (rows s)" and "distinct (map oe_ID evs)"
  shows "ok s' \<and> list_all2 (row_kept evs) (rows s) (rows s')"
  using assms
proof (induction evs arbitrary: s k ids)
  case Nil
  then show ?case by (auto intro!: list_all2_refl)
next
  case (Cons ev evs)
  obtain v k1 where v: "processEvent publish ev k = (v, k1)" by force
  have ids_kept: "ob_id ` set (update_where P (bump_row m) rs) = ob_id ` set rs" for P m rs
  proof -
    have "map ob_id (update_where P (bump_row m) rs) = map ob_id rs"
      by (rule map_update_where) (simp add: bump_row_def)
    then show ?thesis by (metis list.set_map)
  qed
  show ?case
  proof (cases v)
    case (Inr u)
    then obtain ids1 where "process_loop mark_failed publish evs (s, k1) = (ids1, s', k')"
      using Cons.prems v by (auto split: prod.splits)
    with Cons.IH [OF this] Cons.prems show ?thesis
      by (auto elim!: list_all2_mono intro: row_kept_mono)
  next
    case (Inl e)
    show ?thesis
    proof (cases "oe_Attempts ev < maxAttempts")
      case False
      then have "process_loop mark_failed publish evs (s, k1) = (ids, s', k')"
        using Cons.prems v Inl by simp
      with Cons.IH [OF this] Cons.prems show ?thesis
        by (auto elim!: list_all2_mono intro: row_kept_mono)
    next
      case True
      obtain r1 s1 where mark: "mark_failed (oe_ID ev) (Error e) s = (r1, s1)" by force
      then have rest: "process_loop mark_failed publish evs (s1, k1) = (ids, s', k')"
        using Cons.prems v Inl True by simp
      have s1: "ok s1" "rows s1 = rows s \<or> rows s1 = update_where (\<lambda>r. ob_id r = oe_ID ev) (bump_row (Error e)) (rows s)"
        using mark_failed_rows [OF Cons.prems(2) _ mark] Cons.prems(3) by auto
      then have "oe_ID ` set evs \<subseteq> ob_id ` set (rows s1)"
        using Cons.prems(3) ids_kept by auto
      then have IH: "ok s'" "list_all2 (row_kept evs) (rows s1) (rows s')"
        using Cons.IH [OF rest] s1(1) Cons.prems(4) by auto
      have "list_all2 (row_kept (ev # evs)) (rows s) (rows s')"
        using s1(2)
      proof
        assume "rows s1 = rows s"
        with IH(2) show ?thesis by (auto elim!: list_all2_mono intro: row_kept_mono)
      next
        assume "rows s1 = update_where (\<lambda>r. ob_id r = oe_ID ev) (bump_row (Error e)) (rows s)"
        with IH(2) have "list_all2 (\<lambda>r r'. row_kept evs (if ob_id r = oe_ID ev then bump_row (Error e) r else r) r')
            (rows s) (rows s')"
          by (simp add: update_where_def list_all2_map1)
        then show ?thesis
          by (rule list_all2_mono) (use row_kept_bump True Cons.prems(4) in auto)
      qed
      with IH(1) show ?thesis by simp
    qed
  qed
qed

text \<open>One message per reported event, in order; the reported ones are events of the batch.\<close>

lemma loop_sends:
  assumes "process_loop mark_failed publish evs (s, k) = (ids, s', k')"
  shows "\<exists>evs1 ms. subseq evs1 evs \<and> ids = map oe_ID evs1 \<and> sent k' = sent k @ ms \<and> list_all2 carries ms evs1"
  using assms
proof (induction evs arbitrary: s k ids)
  case Nil
  then show ?case by (intro exI [of _ "[]"]) simp
next
  case (Cons ev evs)
  obtain v k1 where v: "processEvent publish ev k = (v, k1)" by force
  then show ?case
  proof (cases rule: processEvent_cases)
    case (bad e)
    then obtain s1 where "process_loop mark_failed publish evs (s1, k1) = (ids, s', k')"
      using Cons.prems v by (auto split: if_splits)
    from Cons.IH [OF this] bad obtain evs1 ms where "subseq evs1 evs" "ids = map oe_ID evs1"
      "sent k' = sent k @ ms" "list_all2 carries ms evs1" by auto
    then show ?thesis by (intro exI [of _ evs1] exI [of _ ms]) (auto intro: list_emb_Cons)
  next
    case (good m)
    then obtain ids1 where rest: "process_loop mark_failed publish evs (s, k1) = (ids1, s', k')"
      and ids: "ids = oe_ID ev # ids1"
      using Cons.prems v by (auto split: prod.splits)
    from Cons.IH [OF rest] obtain evs1 ms where "subseq evs1 evs" "ids1 = map oe_ID evs1"
      "sent k' = sent k1 @ ms" "list_all2 carries ms evs1" by blast
    with good ids show ?thesis
      by (intro exI [of _ "ev # evs1"] exI [of _ "m # ms"]) simp
  qed
qed

lemma batch_effect:
  assumes run: "processBatch get mark_batch mark_failed publish (s, k) = (s', k')"
    and ok: "ok s" and dist: "distinct (map ob_id (rows s))"
  shows "\<exists>evs ms. subseq evs (map scan_event (window batchSize (rows s)))
     \<and> sent k' = sent k @ ms \<and> list_all2 carries ms evs
     \<and> ok s' \<and> list_all2 (row_after evs) (rows s) (rows s')"
proof -
  let ?evs = "map scan_event (window batchSize (rows s))"
  obtain g s1 where g: "get batchSize s = (g, s1)" by force
  then have s1: "ok s1" "rows s1 = rows s" using get_keeps ok by blast+
  have same: "list_all2 (row_after []) (rows s) (rows s)"
    by (rule list_all2_refl) (simp add: row_after_def)
  show ?thesis
  proof (cases "\<exists>evs. g = Inr evs \<and> evs \<noteq> []")
    case False
    then have "s' = s1" "k' = k" using run g by (auto simp: processBatch_def split: sum.splits)
    with s1 same show ?thesis by (intro exI [of _ "[]"]) simp
  next
    case True
    then have evs: "g = Inr ?evs" "?evs \<noteq> []" using get_pending g by auto
    obtain ids s2 k2 where loop: "process_loop mark_failed publish ?evs (s1, k) = (ids, s2, k2)"
      by (metis prod_cases3)
    have fin: "s' = (if ids \<noteq> [] then snd (mark_batch ids s2) else s2)" "k' = k2"
      using run g evs loop by (simp_all add: processBatch_def)
    have pend: "r \<in> set (rows s)" if "r \<in> set (window batchSize (rows s))" for r
      using window_rows that by blast
    have sub: "oe_ID ` set ?evs \<subseteq> ob_id ` set (rows s1)"
      using pend s1(2) by (auto simp: scan_event_def)
    have dist_evs: "distinct (map oe_ID ?evs)"
    proof -
      have "distinct (map ob_id (window batchSize (rows s)))" using dist by (rule window_distinct)
      then show ?thesis by (simp add: comp_def scan_event_def)
    qed
    have kept: "ok s2" "list_all2 (row_kept ?evs) (rows s) (rows s2)"
      using loop_keeps [OF loop s1(1) sub dist_evs] s1(2) by auto
    obtain evs1 ms where sends: "subseq evs1 ?evs" "ids = map oe_ID evs1" "sent k2 = sent k @ ms"
      "list_all2 carries ms evs1" using loop_sends [OF loop] by blast
    have same_event: "scan_event r = ev" if h: "r \<in> set (rows s)" "ev \<in> set ?evs" "oe_ID ev = ob_id r" for r ev
    proof -
      obtain q where "q \<in> set (rows s)" "ev = scan_event q" using h(2) pend by auto
      with h(1,3) dist show ?thesis by (metis distinct_map inj_onD outbox_event.select_convs(1) scan_event_def)
    qed
    have evs1: "set evs1 \<subseteq> set ?evs" using sends(1) by (rule subseq_subset)
    have mid: "list_all2 (\<lambda>r r'. r \<in> set (rows s) \<and> row_kept ?evs r r') (rows s) (rows s2)"
      using kept(2) by (auto simp: list_all2_conv_all_nth)
    have to_after: "row_after evs1 r r''" if "r \<in> set (rows s)" "row_kept ?evs r r'"
      "r'' = r' \<or> (\<exists>t. r'' = done_row t r') \<and> ob_id r' \<in> set ids" for r r' r''
    proof -
      have id: "ob_id r' = ob_id r" by (rule core_id) (use that(2) in \<open>simp add: row_kept_def\<close>)
      have k: "core r' = core r" "ob_processed_at r' = ob_processed_at r"
        "ob_attempts r' = ob_attempts r \<or> (\<exists>ev \<in> set ?evs. oe_ID ev = ob_id r
            \<and> oe_Attempts ev < maxAttempts \<and> ob_attempts r' = ob_attempts r + 1)"
        using that(2) unfolding row_kept_def by blast+
      have "core r'' = core r' \<and> ob_attempts r'' = ob_attempts r'"
        using that(3)
      proof
        assume "(\<exists>t. r'' = done_row t r') \<and> ob_id r' \<in> set ids"
        then show ?thesis by (auto simp: core_def done_row_def)
      qed simp
      moreover have "ob_attempts r' = ob_attempts r \<or> ob_attempts r < maxAttempts \<and> ob_attempts r' = ob_attempts r + 1"
        using k(3)
      proof
        assume "\<exists>ev \<in> set ?evs. oe_ID ev = ob_id r \<and> oe_Attempts ev < maxAttempts
            \<and> ob_attempts r' = ob_attempts r + 1"
        then obtain ev where ev: "ev \<in> set ?evs" "oe_ID ev = ob_id r" "oe_Attempts ev < maxAttempts"
          "ob_attempts r' = ob_attempts r + 1" by blast
        then have "ev = scan_event r" using same_event [OF that(1)] by simp
        with ev show ?thesis by (simp add: scan_event_def)
      qed simp
      moreover have "ob_processed_at r'' = ob_processed_at r \<or> scan_event r \<in> set evs1"
        using that(3)
      proof
        assume "(\<exists>t. r'' = done_row t r') \<and> ob_id r' \<in> set ids"
        then obtain ev where ev: "ev \<in> set evs1" "oe_ID ev = ob_id r"
          using sends(2) id by auto
        then have "ev = scan_event r" using same_event [OF that(1)] evs1 by blast
        with ev show ?thesis by simp
      qed (use k(2) in simp)
      ultimately show ?thesis using k(1) by (simp add: row_after_def)
    qed
    have "ok s' \<and> list_all2 (row_after evs1) (rows s) (rows s')"
    proof (cases "ids = []")
      case True
      with fin kept(1) mid show ?thesis by (auto elim!: list_all2_mono intro: to_after)
    next
      case False
      obtain b s3 where mb: "mark_batch ids s2 = (b, s3)" by force
      have "map ob_id (rows s2) = map ob_id (rows s)"
        using kept(2) by (rule list_all2_map_eq) (auto simp: row_kept_def intro: core_id)
      from arg_cong [OF this, of set] have ids2: "ob_id ` set (rows s2) = ob_id ` set (rows s)" by simp
      have "oe_ID ` set evs1 \<subseteq> ob_id ` set (rows s)"
        using subset_trans [OF image_mono [OF evs1] sub] by (simp only: s1(2))
      then have "set ids \<subseteq> ob_id ` set (rows s2)"
        by (simp only: sends(2) ids2 list.set_map)
      then have s3: "ok s3" "rows s3 = rows s2
           \<or> (\<exists>t. rows s3 = update_where (\<lambda>r. ob_id r \<in> set ids) (done_row t) (rows s2))"
        using mark_batch_rows [OF kept(1) _ mb] by auto
      from s3(2) have "list_all2 (row_after evs1) (rows s) (rows s3)"
      proof (elim disjE exE)
        assume "rows s3 = rows s2"
        with mid show ?thesis by (auto elim!: list_all2_mono intro: to_after)
      next
        fix t assume "rows s3 = update_where (\<lambda>r. ob_id r \<in> set ids) (done_row t) (rows s2)"
        moreover have "list_all2 (\<lambda>r r'. row_after evs1 r (if ob_id r' \<in> set ids then done_row t r' else r'))
            (rows s) (rows s2)"
          by (rule list_all2_mono [OF mid]) (use to_after in auto)
        ultimately show ?thesis by (simp add: update_where_def list_all2_map2)
      qed
      with False fin mb s3(1) show ?thesis by simp
    qed
    with sends fin(2) show ?thesis by blast
  qed
qed

end


section \<open>The two sides of the service\<close>

text \<open>The identifiers of the outbox are UUID columns, so binding one gives it back.\<close>

definition outbox_ids_ok :: "env \<Rightarrow> pg \<Rightarrow> bool" where
  "outbox_ids_ok E s \<longleftrightarrow> (\<forall>r \<in> set (outbox_events (store s)). pg_uuid E (ob_id r) = Some (ob_id r))"

definition outbox_rows :: "pg \<Rightarrow> outbox_row list" where
  "outbox_rows s = outbox_events (store s)"

lemma uuid_args_canonical:
  "\<forall>i \<in> set ids. pg_uuid E i = Some i \<Longrightarrow> uuid_args E ids = Inr ids"
  by (induction ids) (auto simp: uuid_arg_def)

lemma outbox_ids_ok_rows:
  assumes "outbox_ids_ok E s" and "map ob_id (outbox_rows s') = map ob_id (outbox_rows s)"
  shows "outbox_ids_ok E s'"
proof -
  have "ob_id ` set (outbox_rows s') = ob_id ` set (outbox_rows s)"
    using assms(2) by (metis list.set_map)
  moreover have ids: "outbox_ids_ok E q \<longleftrightarrow> (\<forall>i \<in> ob_id ` set (outbox_rows q). pg_uuid E i = Some i)" for q
    by (simp add: outbox_ids_ok_def outbox_rows_def)
  ultimately show ?thesis using assms(1) by (simp only: ids)
qed

lemma mark_failed_sql_rows:
  "mark_failed_sql E i m d = Inr (n, d') \<Longrightarrow> pg_uuid E i = Some c \<Longrightarrow>
     outbox_events d' = update_where (\<lambda>r. ob_id r = c) (bump_row m) (outbox_events d)"
  by (auto simp: mark_failed_sql_def uuid_arg_def Let_def split: if_splits)

text \<open>A message of the producer: keyed by the task's id, with the task and the event type.\<close>

definition message_of :: "string \<times> kafka_payload \<Rightarrow> task \<Rightarrow> string \<Rightarrow> bool" where
  "message_of m t e \<longleftrightarrow> fst m = t_ID t \<and> kp_Type (snd m) = e \<and> kp_Task (snd m) = toTaskPayload t"

interpretation kafka_sink: event_sink "producer_Write E" kc_accepted message_of for E
proof
  show "\<exists>m. kc_accepted k' = kc_accepted k @ [m] \<and> message_of m t e"
    if "producer_Write E t e k = (Inr u, k')" for t e k u k'
    using that
    by (auto simp: producer_Write_def client_Write_def writer_WriteMessages_def message_of_def Let_def
        producer_payload_def toTaskPayload_def split: list.splits bool.splits)
  show "kc_accepted k' = kc_accepted k" if "producer_Write E t e k = (Inl x, k')" for t e k x k'
    using that
    by (auto simp: producer_Write_def client_Write_def writer_WriteMessages_def Let_def
        split: list.splits bool.splits)
qed

interpretation pg_events: event_store "repo_GetUnprocessedEvents E" "repo_MarkBatchAsProcessed E"
  "repo_MarkAsFailed E" "pending_rows E" outbox_rows "outbox_ids_ok E" for E
proof
  show "set (pending_rows E n rs) \<subseteq> {r \<in> set rs. ob_processed_at r = None}" for n rs
    by (rule pending_rows_subset)
  show "distinct (map ob_id rs) \<Longrightarrow> distinct (map ob_id (pending_rows E n rs))" for n rs
    by (rule pending_rows_distinct)
next
  fix s s' :: pg and n g evs
  show "outbox_ids_ok E s' \<and> outbox_rows s' = outbox_rows s"
    if "outbox_ids_ok E s" "repo_GetUnprocessedEvents E n s = (g, s')"
  proof -
    have "store s' = store s"
      using that(2) by (auto simp: repo_GetUnprocessedEvents_def wrap_err_def
          split: prod.splits sum.splits dest: pg_query_store)
    with that(1) show ?thesis by (simp add: outbox_ids_ok_def outbox_rows_def)
  qed
  show "evs = map scan_event (pending_rows E n (outbox_rows s))"
    if "repo_GetUnprocessedEvents E n s = (Inr evs, s')"
    using that pg_query_Inr
    by (fastforce simp: repo_GetUnprocessedEvents_def unprocessed_sql_def outbox_rows_def)
next
  fix s s' :: pg and ids and r :: "go_err + unit"
  assume ok: "outbox_ids_ok E s" and ids: "set ids \<subseteq> ob_id ` set (outbox_rows s)"
    and run: "repo_MarkBatchAsProcessed E ids s = (r, s')"
  have "uuid_args E ids = Inr ids"
    by (rule uuid_args_canonical) (use ok ids in \<open>auto simp: outbox_ids_ok_def outbox_rows_def\<close>)
  then have stmt: "mark_batch_sql E ids d = Inr ((), d\<lparr>outbox_events :=
      update_where (\<lambda>r. ob_id r \<in> set ids) (done_row (now E)) (outbox_events d)\<rparr>)" for d
    by (simp add: mark_batch_sql_def done_row_def [abs_def])
  have "outbox_rows s' = outbox_rows s \<or>
      outbox_rows s' = update_where (\<lambda>r. ob_id r \<in> set ids) (done_row (now E)) (outbox_rows s)"
    using run unfolding repo_MarkBatchAsProcessed_def
    by (cases rule: pg_run_cases) (auto simp: stmt outbox_rows_def)
  moreover have "map ob_id (update_where P (done_row t) rs) = map ob_id rs" for P t rs
    by (rule map_update_where) (simp add: done_row_def)
  ultimately show "outbox_ids_ok E s' \<and> (outbox_rows s' = outbox_rows s
      \<or> (\<exists>t. outbox_rows s' = update_where (\<lambda>r. ob_id r \<in> set ids) (done_row t) (outbox_rows s)))"
    using outbox_ids_ok_rows [OF ok, of s'] by auto
next
  fix s s' :: pg and i m and r :: "go_err + unit"
  assume ok: "outbox_ids_ok E s" and i: "i \<in> ob_id ` set (outbox_rows s)"
    and run: "repo_MarkAsFailed E i m s = (r, s')"
  have id: "pg_uuid E i = Some i" using ok i by (auto simp: outbox_ids_ok_def outbox_rows_def)
  obtain v where v: "pg_run (mark_failed_sql E i m) s = (v, s')"
    using run by (auto simp: repo_MarkAsFailed_def wrap_err_def split: prod.splits sum.splits if_splits)
  then have "outbox_rows s' = outbox_rows s \<or>
      outbox_rows s' = update_where (\<lambda>r. ob_id r = i) (bump_row m) (outbox_rows s)"
    by (cases rule: pg_run_cases) (auto simp: outbox_rows_def dest!: mark_failed_sql_rows [OF _ id])
  moreover have "map ob_id (update_where P (bump_row m) rs) = map ob_id rs" for P rs
    by (rule map_update_where) (simp add: bump_row_def)
  ultimately show "outbox_ids_ok E s' \<and> (outbox_rows s' = outbox_rows s
      \<or> outbox_rows s' = update_where (\<lambda>r. ob_id r = i) (bump_row m) (outbox_rows s))"
    using outbox_ids_ok_rows [OF ok, of s'] by auto
qed

interpretation processor: outbox_processor "repo_GetUnprocessedEvents E" "repo_MarkBatchAsProcessed E"
  "repo_MarkAsFailed E" "pending_rows E" outbox_rows "outbox_ids_ok E" "producer_Write E" kc_accepted message_of for E
  by unfold_locales


section \<open>Properties of the processor\<close>

text \<open>C2: one round of the processor, whatever fails in it: it hands over one message per
  event that got through, oldest first, each carrying the task of a pending
  event under its type, and marks an event processed only if its message was handed over
  in this round.\<close>

theorem sent_before_marked:
  assumes "processor_tick E (s, k) = (s', k')" and "outbox_ids_ok E s"
    and "distinct (map ob_id (outbox_events (store s)))"
  shows "\<exists>evs ms. subseq evs (map scan_event (pending_rows E batchSize (outbox_events (store s))))
     \<and> kc_accepted k' = kc_accepted k @ ms
     \<and> list_all2 (\<lambda>m ev. \<exists>p. payload_unmarshal (oe_EventData ev) = Inr p
          \<and> message_of m (PayloadToTask p) (oe_EventType ev)) ms evs
     \<and> list_all2 (\<lambda>r r'. core r' = core r
          \<and> (ob_processed_at r' = ob_processed_at r \<or> scan_event r \<in> set evs))
         (outbox_events (store s)) (outbox_events (store s'))"
proof -
  obtain evs ms where "subseq evs (map scan_event (pending_rows E batchSize (outbox_rows s)))"
    "kc_accepted k' = kc_accepted k @ ms" "list_all2 processor.carries ms evs"
    "list_all2 (row_after evs) (outbox_rows s) (outbox_rows s')"
    using processor.batch_effect [OF assms(1) [unfolded processor_tick_def] assms(2)] assms(3)
    by (auto simp: outbox_rows_def)
  then show ?thesis
    unfolding processor.carries_def [abs_def] outbox_rows_def
    by (intro exI [of _ evs] exI [of _ ms]) (auto simp: row_after_def elim: list_all2_mono)
qed

text \<open>C12: no round loses or rewrites an event: the table keeps its rows with their contents,
  an unprocessed event that is not handed over stays pending, and the failure count of an
  event never passes five.\<close>

theorem events_survive:
  assumes "processor_tick E (s, k) = (s', k')" and "outbox_ids_ok E s"
    and "distinct (map ob_id (outbox_events (store s)))"
    and "\<forall>r \<in> set (outbox_events (store s)). ob_attempts r \<le> 5"
  shows "map core (outbox_events (store s')) = map core (outbox_events (store s))
     \<and> (\<forall>r \<in> set (outbox_events (store s')). ob_attempts r \<le> 5)
     \<and> (kc_accepted k' = kc_accepted k \<longrightarrow>
          map ob_processed_at (outbox_events (store s')) = map ob_processed_at (outbox_events (store s)))"
proof -
  obtain evs ms where k': "kc_accepted k' = kc_accepted k @ ms" "list_all2 processor.carries ms evs"
    and rows: "list_all2 (row_after evs) (outbox_events (store s)) (outbox_events (store s'))"
    using processor.batch_effect [OF assms(1) [unfolded processor_tick_def] assms(2)] assms(3)
    by (auto simp: outbox_rows_def)
  have "map core (outbox_events (store s')) = map core (outbox_events (store s))"
    using rows by (rule list_all2_map_eq) (simp add: row_after_def)
  moreover have "\<forall>r \<in> set (outbox_events (store s')). ob_attempts r \<le> 5"
    using list_all2_set2 [OF rows] assms(4) by (fastforce simp: row_after_def)
  moreover have "map ob_processed_at (outbox_events (store s')) = map ob_processed_at (outbox_events (store s))"
    if "kc_accepted k' = kc_accepted k"
  proof (rule list_all2_map_eq [OF rows])
    have "evs = []" using that k' by simp
    then show "ob_processed_at y = ob_processed_at x" if "row_after evs x y" for x y
      using that by (simp add: row_after_def)
  qed
  ultimately show ?thesis by blast
qed

section \<open>Delivery and starvation\<close>

text \<open>The message an event becomes.\<close>

definition event_message :: "env \<Rightarrow> outbox_event \<Rightarrow> string \<times> kafka_payload" where
  "event_message E ev =
     (case payload_unmarshal (oe_EventData ev) of
        Inl e \<Rightarrow> ([], producer_payload E zero_task (oe_EventType ev))
      | Inr p \<Rightarrow> (t_ID (PayloadToTask p), producer_payload E (PayloadToTask p) (oe_EventType ev)))"

definition decodable :: "json \<Rightarrow> bool" where
  "decodable j = (case payload_unmarshal j of Inl e \<Rightarrow> False | Inr p \<Rightarrow> True)"

lemma processEvent_delivers:
  assumes "decodable (oe_EventData ev)" and "kc_refusals k = []"
  shows "\<exists>k'. processEvent (producer_Write E) ev k = (Inr (), k') \<and> kc_refusals k' = []
     \<and> kc_accepted k' = kc_accepted k @ [event_message E ev]"
  using assms
  by (auto simp: decodable_def processEvent_def producer_Write_def client_Write_def
      writer_WriteMessages_def event_message_def Let_def split: sum.splits)

lemma processEvent_undecodable:
  "\<not> decodable (oe_EventData ev) \<Longrightarrow>
     processEvent publish ev k = (Inl (Wrap ''unmarshal task payload'' (projl (payload_unmarshal (oe_EventData ev)))), k)"
  by (auto simp: decodable_def processEvent_def split: sum.splits)

text \<open>
  What a round does to the rows of its window when everything answers: a row that can be decoded is
  marked processed, another one gets one more attempt, up to five, with the error of the decoder.
\<close>

definition tried_row :: "outbox_row \<Rightarrow> outbox_row" where
  "tried_row r =
     (if \<not> decodable (ob_event_data r) \<and> ob_attempts r < 5
      then r\<lparr>ob_attempts := ob_attempts r + 1, ob_last_error :=
        Some (''unmarshal task payload: '' @ Error (projl (payload_unmarshal (ob_event_data r))))\<rparr>
      else r)"

lemma tried_row_fields [simp]:
  "ob_id (tried_row r) = ob_id r" "ob_event_data (tried_row r) = ob_event_data r"
  "ob_processed_at (tried_row r) = ob_processed_at r"
  by (simp_all add: tried_row_def)

lemma mark_failed_healthy:
  assumes "faults s = []" and "pg_uuid E (ob_id q) = Some (ob_id q)" and q: "q \<in> set (outbox_events (store s))"
    and dist: "distinct (map ob_id (outbox_events (store s)))" and "ob_attempts q < 5"
  shows "snd (repo_MarkAsFailed E (ob_id q) m s) = s\<lparr>store := (store s)\<lparr>outbox_events :=
     map (\<lambda>r. if r = q then bump_row m r else r) (outbox_events (store s))\<rparr>\<rparr>"
proof -
  let ?es = "outbox_events (store s)"
  have only: "r = q \<longleftrightarrow> ob_id r = ob_id q" if "r \<in> set ?es" for r
    using dist q that by (auto simp: distinct_map inj_on_def)
  have "map (\<lambda>r. if r = q then bump_row m r else r) ?es = update_where (\<lambda>r. ob_id r = ob_id q) (bump_row m) ?es"
    unfolding update_where_def by (rule map_cong) (simp_all add: only)
  moreover have "\<not> list_ex (\<lambda>r. ob_attempts r + 1 > 100) (filter (\<lambda>r. ob_id r = ob_id q) ?es)"
  proof
    assume "list_ex (\<lambda>r. ob_attempts r + 1 > 100) (filter (\<lambda>r. ob_id r = ob_id q) ?es)"
    then obtain r where "r \<in> set ?es" "ob_id r = ob_id q" "ob_attempts r + 1 > 100"
      by (auto simp: list_ex_iff)
    with only [of r] assms(5) show False by simp
  qed
  ultimately show ?thesis
    using assms(1,2)
    by (simp add: repo_MarkAsFailed_def pg_run_healthy mark_failed_sql_def uuid_arg_def split: prod.split)
qed

lemma loop_healthy:
  assumes "faults s = []" and "kc_refusals k = []" and "outbox_ids_ok E s"
    and "distinct (map ob_id (outbox_events (store s)))"
    and "distinct (map ob_id rs)" and "set rs \<subseteq> set (outbox_events (store s))"
  shows "\<exists>k'. process_loop (repo_MarkAsFailed E) (producer_Write E) (map scan_event rs) (s, k)
       = (map ob_id (filter (\<lambda>r. decodable (ob_event_data r)) rs),
          s\<lparr>store := (store s)\<lparr>outbox_events :=
            map (\<lambda>r. if r \<in> set rs then tried_row r else r) (outbox_events (store s))\<rparr>\<rparr>, k')
     \<and> kc_accepted k' = kc_accepted k
         @ map (\<lambda>r. event_message E (scan_event r)) (filter (\<lambda>r. decodable (ob_event_data r)) rs)"
  using assms
proof (induction rs arbitrary: s k)
  case (Cons q rs)
  let ?es = "outbox_events (store s)"
  have scan: "oe_ID (scan_event q) = ob_id q" "oe_EventData (scan_event q) = ob_event_data q"
    "oe_Attempts (scan_event q) = ob_attempts q" by (simp_all add: scan_event_def)
  have fresh: "q \<notin> set rs" using Cons.prems(5) by auto
  show ?case
  proof (cases "decodable (ob_event_data q)")
    case True
    obtain k1 where k1: "processEvent (producer_Write E) (scan_event q) k = (Inr (), k1)" "kc_refusals k1 = []"
      "kc_accepted k1 = kc_accepted k @ [event_message E (scan_event q)]"
      using processEvent_delivers [of "scan_event q" k E] Cons.prems(2) True scan by auto
    have "tried_row q = q" using True by (simp add: tried_row_def)
    then have m: "map (\<lambda>r. if r \<in> set (q # rs) then tried_row r else r) ?es
        = map (\<lambda>r. if r \<in> set rs then tried_row r else r) ?es" by (intro map_cong) auto
    from Cons.IH [OF Cons.prems(1) k1(2) Cons.prems(3,4)] Cons.prems(5,6) obtain k2 where
      "process_loop (repo_MarkAsFailed E) (producer_Write E) (map scan_event rs) (s, k1)
       = (map ob_id (filter (\<lambda>r. decodable (ob_event_data r)) rs),
          s\<lparr>store := (store s)\<lparr>outbox_events := map (\<lambda>r. if r \<in> set rs then tried_row r else r) ?es\<rparr>\<rparr>, k2)"
      "kc_accepted k2 = kc_accepted k1
         @ map (\<lambda>r. event_message E (scan_event r)) (filter (\<lambda>r. decodable (ob_event_data r)) rs)"
      by auto
    with k1 True m scan show ?thesis by simp
  next
    case False
    let ?err = "Wrap ''unmarshal task payload'' (projl (payload_unmarshal (ob_event_data q)))"
    let ?s = "s\<lparr>store := (store s)\<lparr>outbox_events := map (\<lambda>r. if r = q then tried_row r else r) ?es\<rparr>\<rparr>"
    have e: "processEvent (producer_Write E) (scan_event q) k = (Inl ?err, k)"
      using processEvent_undecodable [of "scan_event q"] False scan by simp
    have q: "q \<in> set ?es" using Cons.prems(6) by simp
    have id: "pg_uuid E (ob_id q) = Some (ob_id q)" using Cons.prems(3) q by (simp add: outbox_ids_ok_def)
    have mark: "(if ob_attempts q < 5 then snd (repo_MarkAsFailed E (ob_id q) (Error ?err) s) else s) = ?s"
    proof (cases "ob_attempts q < 5")
      case True
      have "map (\<lambda>r. if r = q then bump_row (Error ?err) r else r) ?es = map (\<lambda>r. if r = q then tried_row r else r) ?es"
        by (rule map_cong) (use True False in \<open>auto simp: tried_row_def bump_row_def\<close>)
      with mark_failed_healthy [OF Cons.prems(1) id q Cons.prems(4) True, of "Error ?err"] True show ?thesis by simp
    next
      case no: False
      have "map (\<lambda>r. if r = q then tried_row r else r) ?es = ?es"
        by (rule map_idI) (use no in \<open>simp add: tried_row_def\<close>)
      with no show ?thesis by simp
    qed
    have "process_loop (repo_MarkAsFailed E) (producer_Write E) (map scan_event (q # rs)) (s, k)
        = process_loop (repo_MarkAsFailed E) (producer_Write E) (map scan_event rs)
            (if ob_attempts q < 5 then snd (repo_MarkAsFailed E (ob_id q) (Error ?err) s) else s, k)"
      by (simp add: e scan Let_def maxAttempts_def)
    then have loop: "process_loop (repo_MarkAsFailed E) (producer_Write E) (map scan_event (q # rs)) (s, k)
        = process_loop (repo_MarkAsFailed E) (producer_Write E) (map scan_event rs) (?s, k)"
      by (simp only: mark)
    have ids: "map ob_id (outbox_events (store ?s)) = map ob_id ?es" by simp
    have "outbox_ids_ok E ?s"
      using Cons.prems(3) by (auto simp: outbox_ids_ok_def)
    moreover have "set rs \<subseteq> set (outbox_events (store ?s))"
      using Cons.prems(6) fresh by force
    moreover have "distinct (map ob_id (outbox_events (store ?s)))" using Cons.prems(4) by (simp only: ids)
    moreover have "faults ?s = []" "distinct (map ob_id rs)" using Cons.prems(1,5) by simp_all
    ultimately have "\<exists>k2. process_loop (repo_MarkAsFailed E) (producer_Write E) (map scan_event rs) (?s, k)
       = (map ob_id (filter (\<lambda>r. decodable (ob_event_data r)) rs),
          ?s\<lparr>store := (store ?s)\<lparr>outbox_events :=
            map (\<lambda>r. if r \<in> set rs then tried_row r else r) (outbox_events (store ?s))\<rparr>\<rparr>, k2)
     \<and> kc_accepted k2 = kc_accepted k
         @ map (\<lambda>r. event_message E (scan_event r)) (filter (\<lambda>r. decodable (ob_event_data r)) rs)"
      by (intro Cons.IH [OF _ Cons.prems(2)])
    then obtain k2 where
      k2: "process_loop (repo_MarkAsFailed E) (producer_Write E) (map scan_event rs) (?s, k)
       = (map ob_id (filter (\<lambda>r. decodable (ob_event_data r)) rs),
          ?s\<lparr>store := (store ?s)\<lparr>outbox_events :=
            map (\<lambda>r. if r \<in> set rs then tried_row r else r) (outbox_events (store ?s))\<rparr>\<rparr>, k2)"
      "kc_accepted k2 = kc_accepted k
         @ map (\<lambda>r. event_message E (scan_event r)) (filter (\<lambda>r. decodable (ob_event_data r)) rs)"
      by (elim exE conjE)
    have "ob_id q \<notin> ob_id ` set rs" using Cons.prems(5) by simp
    then have "tried_row q \<notin> set rs" by (metis imageI tried_row_fields(1))
    then have "map (\<lambda>r. if r \<in> set rs then tried_row r else r) (outbox_events (store ?s))
        = map (\<lambda>r. if r \<in> set (q # rs) then tried_row r else r) ?es"
      using fresh by auto
    with k2 loop False show ?thesis by simp
  qed
qed simp

lemma healthy_tick:
  assumes "faults s = []" and "kc_refusals k = []" and "outbox_ids_ok E s"
    and "distinct (map ob_id (outbox_events (store s)))"
    and "processor_tick E (s, k) = (s', k')" and W: "W = pending_rows E batchSize (outbox_events (store s))"
  shows "kc_accepted k' = kc_accepted k
       @ map (\<lambda>r. event_message E (scan_event r)) (filter (\<lambda>r. decodable (ob_event_data r)) W)
     \<and> outbox_events (store s') = map (\<lambda>r. if r \<in> set W
          then if decodable (ob_event_data r) then done_row (now E) r else tried_row r else r)
          (outbox_events (store s))"
proof -
  let ?es = "outbox_events (store s)"
  let ?ok = "\<lambda>r. decodable (ob_event_data r)"
  let ?ids = "map ob_id (filter ?ok W)"
  have sub: "set W \<subseteq> set ?es" using pending_rows_subset [of E batchSize ?es] by (auto simp: W)
  have dist: "distinct (map ob_id W)" unfolding W using assms(4) by (rule pending_rows_distinct)
  have get: "repo_GetUnprocessedEvents E batchSize s = (Inr (map scan_event W), s)"
    using assms(1) by (simp add: repo_GetUnprocessedEvents_def pg_query_healthy unprocessed_sql_def W)
  let ?s2 = "s\<lparr>store := (store s)\<lparr>outbox_events := map (\<lambda>r. if r \<in> set W then tried_row r else r) ?es\<rparr>\<rparr>"
  obtain k2 where loop: "process_loop (repo_MarkAsFailed E) (producer_Write E) (map scan_event W) (s, k) = (?ids, ?s2, k2)"
    and k2: "kc_accepted k2 = kc_accepted k @ map (\<lambda>r. event_message E (scan_event r)) (filter ?ok W)"
    using loop_healthy [OF assms(1-4) dist sub] by (elim exE conjE)
  have "\<forall>i \<in> set ?ids. pg_uuid E i = Some i" using assms(3) sub by (auto simp: outbox_ids_ok_def)
  then have args: "uuid_args E ?ids = Inr ?ids" by (rule uuid_args_canonical)
  have same: "r \<in> set W \<and> ?ok r \<longleftrightarrow> ob_id r \<in> set ?ids" if "r \<in> set ?es" for r
    using assms(4) sub that by (auto simp: distinct_map inj_on_def image_iff)
  have final: "update_where (\<lambda>r. ob_id r \<in> set ?ids) (done_row (now E))
      (map (\<lambda>r. if r \<in> set W then tried_row r else r) ?es)
    = map (\<lambda>r. if r \<in> set W then if ?ok r then done_row (now E) r else tried_row r else r) ?es"
    unfolding update_where_def map_map
  proof (rule map_cong [OF refl])
    fix r assume "r \<in> set ?es"
    from same [OF this] show "((\<lambda>r. if ob_id r \<in> set ?ids then done_row (now E) r else r)
        \<circ> (\<lambda>r. if r \<in> set W then tried_row r else r)) r
      = (if r \<in> set W then if ?ok r then done_row (now E) r else tried_row r else r)"
      by (auto simp: tried_row_def)
  qed
  have s': "outbox_events (store s') = map (\<lambda>r. if r \<in> set W
      then if ?ok r then done_row (now E) r else tried_row r else r) ?es \<and> kc_accepted k' = kc_accepted k2"
  proof (cases "W = []")
    case True
    with assms(5) get k2 show ?thesis by (auto simp: processor_tick_def processBatch_def)
  next
    case False
    have run: "processor_tick E (s, k)
        = (if ?ids \<noteq> [] then snd (repo_MarkBatchAsProcessed E ?ids ?s2) else ?s2, k2)"
      using False by (simp add: processor_tick_def processBatch_def get loop)
    show ?thesis
    proof (cases "?ids = []")
      case True
      have "map (\<lambda>r. if r \<in> set W then tried_row r else r) ?es
          = map (\<lambda>r. if r \<in> set W then if ?ok r then done_row (now E) r else tried_row r else r) ?es"
        using True by (intro map_cong) (auto simp: filter_empty_conv)
      with run assms(5) True show ?thesis by auto
    next
      case False
      have "store (snd (repo_MarkBatchAsProcessed E ?ids ?s2)) = (store ?s2)\<lparr>outbox_events :=
          update_where (\<lambda>r. ob_id r \<in> set ?ids) (done_row (now E)) (outbox_events (store ?s2))\<rparr>"
        using assms(1)
        by (simp add: repo_MarkBatchAsProcessed_def pg_run_healthy mark_batch_sql_def args [simplified] done_row_def [abs_def])
      with run assms(5) False final show ?thesis by auto
    qed
  qed
  with k2 show ?thesis by simp
qed

text \<open>C14: with the database and the writer answering, one round hands over every event of its window
  of the thousand oldest that can be decoded, oldest first and each once, and marks exactly those
  processed. An event that cannot be decoded stops nobody: it stays pending with one more attempt, up
  to five, and the error of the decoder. No other row changes; when no more than a thousand were
  pending, only undecodable ones are pending afterwards.\<close>

theorem healthy_round_delivers:
  assumes "faults s = []" and "kc_refusals k = []" and "outbox_ids_ok E s"
    and "distinct (map ob_id (outbox_events (store s)))"
    and "processor_tick E (s, k) = (s', k')" and "W = pending_rows E 1000 (outbox_events (store s))"
  shows "kc_accepted k' = kc_accepted k
       @ map (\<lambda>r. event_message E (scan_event r)) (filter (\<lambda>r. decodable (ob_event_data r)) W)
     \<and> outbox_events (store s') = map (\<lambda>r. if r \<in> set W
          then if decodable (ob_event_data r) then done_row (now E) r else tried_row r else r)
          (outbox_events (store s))
     \<and> (length (filter (\<lambda>r. ob_processed_at r = None) (outbox_events (store s))) \<le> 1000
        \<longrightarrow> (\<forall>r \<in> set (outbox_events (store s')). ob_processed_at r = None \<longrightarrow> \<not> decodable (ob_event_data r)))"
proof -
  have main: "kc_accepted k' = kc_accepted k
       @ map (\<lambda>r. event_message E (scan_event r)) (filter (\<lambda>r. decodable (ob_event_data r)) W)
     \<and> outbox_events (store s') = map (\<lambda>r. if r \<in> set W
          then if decodable (ob_event_data r) then done_row (now E) r else tried_row r else r)
          (outbox_events (store s))"
    using healthy_tick [OF assms(1-5), of W] assms(6) by (simp only: batchSize_def)
  moreover have "\<not> decodable (ob_event_data r)"
    if h: "length (filter (\<lambda>r. ob_processed_at r = None) (outbox_events (store s))) \<le> 1000"
      "r \<in> set (outbox_events (store s'))" "ob_processed_at r = None" for r
    using h(2,3) main pending_rows_all [OF h(1), of E]
    by (auto simp: assms(6) done_row_def split: if_splits)
  ultimately show ?thesis by blast
qed

definition sample_payload :: task_payload where
  "sample_payload = toTaskPayload (zero_task\<lparr>t_ID := ''t'', t_Title := ''buy'', t_Status := ''completed''\<rparr>)"

definition sample_outbox_row :: outbox_row where
  "sample_outbox_row = \<lparr>ob_id = ''e'', ob_aggregate_type = ''task'', ob_aggregate_id = ''t'',
     ob_event_type = ''task.created'', ob_event_data = payload_json sample_payload, ob_created_at = 5,
     ob_processed_at = None, ob_attempts = 0, ob_last_error = None, ob_version = 1\<rparr>"

definition sample_pg_outbox :: pg where
  "sample_pg_outbox = \<lparr>store = empty_db\<lparr>outbox_events := [sample_outbox_row]\<rparr>, faults = [], ctr = 0\<rparr>"

definition sample_kafka :: kafka_client where
  "sample_kafka = \<lparr>kc_refusals = [], kc_accepted = [], kc_messageCount = 0, kc_errorCount = 0,
     kc_closed = False\<rparr>"

lemma sample_outbox_facts:
  "outbox_events (store sample_pg_outbox) = [sample_outbox_row]"
  "faults sample_pg_outbox = []" "kc_refusals sample_kafka = []" "kc_accepted sample_kafka = []"
  "outbox_ids_ok sample_env sample_pg_outbox"
  "pending_rows E n [sample_outbox_row] = take n [sample_outbox_row]"
  "decodable (ob_event_data sample_outbox_row)"
  by (simp_all add: sample_pg_outbox_def sample_kafka_def outbox_ids_ok_def sample_env_def
      sample_outbox_row_def empty_db_def pending_rows_def decodable_def)

text \<open>A window with an event that can be decoded and, before it, a deletion that cannot.\<close>

definition sample_pg_mixed :: pg where
  "sample_pg_mixed = \<lparr>store = empty_db\<lparr>outbox_events :=
     [sample_outbox_row\<lparr>ob_id := ''d'', ob_created_at := 1, ob_event_data := deleted_json undefined\<rparr>, sample_outbox_row]\<rparr>,
     faults = [], ctr = 0\<rparr>"

lemma deleted_not_decodable: "\<not> decodable (deleted_json r)"
  by (simp add: decodable_def payload_unmarshal_deleted)

theorem healthy_round_delivers_witness:
  "length (kc_accepted (snd (processor_tick sample_env (sample_pg_mixed, sample_kafka)))) = 1
   \<and> map (\<lambda>r. (ob_id r, ob_processed_at r, ob_attempts r)) (outbox_events (store (fst
        (processor_tick sample_env (sample_pg_mixed, sample_kafka))))) = [(''d'', None, 1), (''e'', Some 1000, 0)]"
proof -
  obtain s' k' where t: "processor_tick sample_env (sample_pg_mixed, sample_kafka) = (s', k')" by force
  let ?d = "sample_outbox_row\<lparr>ob_id := ''d'', ob_created_at := 1, ob_event_data := deleted_json undefined\<rparr>"
  have rows: "outbox_events (store sample_pg_mixed) = [?d, sample_outbox_row]" "faults sample_pg_mixed = []"
    by (simp_all add: sample_pg_mixed_def)
  have W: "pending_rows sample_env 1000 [?d, sample_outbox_row] = [?d, sample_outbox_row]"
    by (simp add: pending_rows_def sample_outbox_row_def sample_env_def)
  have ids: "outbox_ids_ok sample_env sample_pg_mixed"
    by (simp add: outbox_ids_ok_def rows) (simp add: sample_outbox_row_def sample_env_def)
  have dist: "distinct (map ob_id (outbox_events (store sample_pg_mixed)))"
    by (simp add: rows) (simp add: sample_outbox_row_def)
  have dec: "\<not> decodable (ob_event_data ?d)" by (simp add: deleted_not_decodable)
  have fld: "ob_id sample_outbox_row = ''e''" "ob_attempts sample_outbox_row = 0" "ob_processed_at sample_outbox_row = None"
    by (simp_all add: sample_outbox_row_def)
  show ?thesis
    using healthy_round_delivers [OF rows(2) sample_outbox_facts(3) ids dist t refl] dec sample_outbox_facts(4,7)
    by (simp add: t rows W tried_row_def done_row_def fld) (simp add: fld sample_env_def)
qed

theorem sent_before_marked_witness:
  "\<exists>s' k'. processor_tick sample_env (sample_pg_outbox, sample_kafka\<lparr>kc_refusals := [True]\<rparr>) = (s', k')
     \<and> length (kc_accepted k') \<le> 1
     \<and> length (outbox_events (store s')) = 1"
proof -
  obtain s' k' where t: "processor_tick sample_env (sample_pg_outbox, sample_kafka\<lparr>kc_refusals := [True]\<rparr>) = (s', k')"
    by force
  have "distinct (map ob_id (outbox_events (store sample_pg_outbox)))"
    by (simp add: sample_outbox_facts)
  from sent_before_marked [OF t sample_outbox_facts(5) this] t
  show ?thesis
    by (fastforce simp: sample_outbox_facts dest: list_all2_lengthD list_emb_length)
qed

theorem events_survive_witness:
  "\<exists>s' k'. processor_tick sample_env (sample_pg_outbox, sample_kafka\<lparr>kc_refusals := [True]\<rparr>) = (s', k')
     \<and> map core (outbox_events (store s')) = [core sample_outbox_row]"
proof -
  obtain s' k' where t: "processor_tick sample_env (sample_pg_outbox, sample_kafka\<lparr>kc_refusals := [True]\<rparr>) = (s', k')"
    by force
  have "distinct (map ob_id (outbox_events (store sample_pg_outbox)))"
    "\<forall>r \<in> set (outbox_events (store sample_pg_outbox)). ob_attempts r \<le> 5"
    by (simp_all add: sample_outbox_facts) (simp add: sample_outbox_row_def)
  from events_survive [OF t sample_outbox_facts(5) this] t
  show ?thesis by (simp add: sample_outbox_facts)
qed

text \<open>An event that cannot be decoded.\<close>

lemma loop_stuck:
  assumes "\<forall>ev \<in> set evs. \<not> decodable (oe_EventData ev) \<and> oe_Attempts ev \<ge> maxAttempts"
  shows "process_loop mf publish evs (s, k) = ([], s, k)"
  using assms
proof (induction evs)
  case (Cons ev evs)
  then obtain e where "processEvent publish ev k = (Inl e, k)"
    using processEvent_undecodable [of ev publish k] by auto
  with Cons show ?case by simp
qed simp

lemma stuck_tick:
  assumes "\<forall>r \<in> set (pending_rows E batchSize (outbox_events (store s))).
      \<not> decodable (ob_event_data r) \<and> ob_attempts r \<ge> maxAttempts"
    and "processor_tick E (s, k) = (s', k')"
  shows "store s' = store s \<and> k' = k"
proof -
  let ?rows = "pending_rows E batchSize (outbox_events (store s))"
  obtain g s1 where g: "repo_GetUnprocessedEvents E batchSize s = (g, s1)" by force
  then have s1: "store s1 = store s"
    by (auto simp: repo_GetUnprocessedEvents_def wrap_err_def
        split: prod.splits sum.splits dest: pg_query_store)
  show ?thesis
  proof (cases g)
    case (Inl e)
    with g s1 assms(2) show ?thesis by (auto simp: processor_tick_def processBatch_def)
  next
    case (Inr evs)
    then have "evs = map scan_event ?rows"
      using pg_events.get_pending [of E batchSize s evs s1] g by (simp add: outbox_rows_def)
    then have "process_loop mf publish evs (s1, k) = ([], s1, k)" for mf :: "string \<Rightarrow> string \<Rightarrow> pg \<Rightarrow> (go_err + unit) \<times> pg"
        and publish :: "task \<Rightarrow> string \<Rightarrow> kafka_client \<Rightarrow> (go_err + unit) \<times> kafka_client"
      using loop_stuck [of evs] assms(1) by (simp add: scan_event_def)
    with g Inr s1 assms(2) show ?thesis
      by (auto simp: processor_tick_def processBatch_def split: if_splits)
  qed
qed

text \<open>C37: deletion events carry local timestamps that the processor cannot decode. Once a
  window of them has used up its five attempts, no later round, at whatever time and with
  whatever faults, changes a table or hands over a message: younger events wait behind
  them for ever.\<close>

theorem deletions_starve_the_queue:
  assumes "\<forall>E \<in> set Es. \<forall>r \<in> set (pending_rows E 1000 (outbox_events (store s))).
      (\<exists>q. ob_event_data r = deleted_json q) \<and> ob_attempts r \<ge> 5"
  shows "store (fst (fold processor_tick Es (s, k))) = store s
     \<and> kc_accepted (snd (fold processor_tick Es (s, k))) = kc_accepted k"
  using assms
proof (induction Es arbitrary: s k)
  case (Cons E Es)
  obtain s1 k1 where t: "processor_tick E (s, k) = (s1, k1)" by force
  have "\<forall>r \<in> set (pending_rows E batchSize (outbox_events (store s))).
      \<not> decodable (ob_event_data r) \<and> ob_attempts r \<ge> maxAttempts"
    using Cons.prems deleted_not_decodable by (fastforce simp: batchSize_def)
  then have "store s1 = store s \<and> k1 = k" using t by (rule stuck_tick)
  with Cons t show ?case by simp
qed simp

definition dead_row :: "task_row \<Rightarrow> outbox_row" where
  "dead_row q = sample_outbox_row\<lparr>ob_event_data := deleted_json q, ob_attempts := 5\<rparr>"

theorem deletions_starve_the_queue_witness:
  "\<forall>q. kc_accepted (snd (fold processor_tick [sample_env, sample_env]
      (sample_pg_outbox\<lparr>store := empty_db\<lparr>outbox_events := [dead_row q]\<rparr>\<rparr>, sample_kafka))) = []"
proof
  fix q
  let ?s = "sample_pg_outbox\<lparr>store := empty_db\<lparr>outbox_events := [dead_row q]\<rparr>\<rparr>"
  have "\<forall>E \<in> set [sample_env, sample_env]. \<forall>r \<in> set (pending_rows E 1000 (outbox_events (store ?s))).
      (\<exists>q. ob_event_data r = deleted_json q) \<and> ob_attempts r \<ge> 5"
    by (auto simp: pending_rows_def dead_row_def sample_outbox_row_def)
  from deletions_starve_the_queue [OF this, of sample_kafka]
  show "kc_accepted (snd (fold processor_tick [sample_env, sample_env] (?s, sample_kafka))) = []"
    by (simp add: sample_outbox_facts)
qed

section \<open>What is marked was handed over\<close>

definition conveys :: "string \<times> kafka_payload \<Rightarrow> outbox_row \<Rightarrow> bool" where
  "conveys m e \<longleftrightarrow>
     (\<exists>p. payload_unmarshal (ob_event_data e) = Inr p \<and> message_of m (PayloadToTask p) (ob_event_type e))"

definition handed_over :: "outbox_row list \<Rightarrow> (string \<times> kafka_payload) list \<Rightarrow> bool" where
  "handed_over es ms \<longleftrightarrow> (\<forall>e \<in> set es. ob_processed_at e \<noteq> None \<longrightarrow> (\<exists>m \<in> set ms. conveys m e))"

lemma handed_overD:
  "handed_over es ms \<Longrightarrow> e \<in> set es \<Longrightarrow> ob_processed_at e \<noteq> None \<Longrightarrow> \<exists>m \<in> set ms. conveys m e"
  by (simp add: handed_over_def)

lemma handed_over_append: "\<forall>e \<in> set fs. ob_processed_at e = None \<Longrightarrow> handed_over (es @ fs) ms = handed_over es ms"
  by (auto simp: handed_over_def)

lemma conveys_scan: "conveys m e \<longleftrightarrow> processor.carries m (scan_event e)"
  by (simp add: conveys_def processor.carries_def scan_event_def)

lemma conveys_core:
  assumes "core e' = core e"
  shows "conveys m e' = conveys m e"
proof -
  have "ob_event_data (core r) = ob_event_data r" "ob_event_type (core r) = ob_event_type r" for r
    by (simp_all add: core_def)
  with assms have "ob_event_data e' = ob_event_data e" "ob_event_type e' = ob_event_type e" by metis+
  then show ?thesis by (simp add: conveys_def)
qed

lemma event_message_conveys:
  "decodable (ob_event_data e) \<Longrightarrow> conveys (event_message E (scan_event e)) e"
  by (auto simp: decodable_def conveys_def event_message_def message_of_def producer_payload_def toTaskPayload_def
      scan_event_def split: sum.splits)

lemma tick_handed_over:
  assumes "processor_tick E (s, k) = (s', k')" and "outbox_ids_ok E s"
    and "distinct (map ob_id (outbox_events (store s)))"
    and "handed_over (outbox_events (store s)) (kc_accepted k)"
  shows "handed_over (outbox_events (store s')) (kc_accepted k')"
  unfolding handed_over_def
proof (intro ballI impI)
  obtain evs ms where w: "kc_accepted k' = kc_accepted k @ ms" "list_all2 processor.carries ms evs"
    and rows: "list_all2 (row_after evs) (outbox_events (store s)) (outbox_events (store s'))"
    using processor.batch_effect [OF assms(1) [unfolded processor_tick_def] assms(2)] assms(3)
    by (auto simp: outbox_rows_def)
  fix e' assume e': "e' \<in> set (outbox_events (store s'))" and done_e: "ob_processed_at e' \<noteq> None"
  obtain e where e: "e \<in> set (outbox_events (store s))" "row_after evs e e'"
    using list_all2_set2 [OF rows] e' by blast
  have "\<exists>m \<in> set (kc_accepted k'). conveys m e"
  proof (cases "scan_event e \<in> set evs")
    case True
    then obtain m where "m \<in> set ms" "processor.carries m (scan_event e)"
      using list_all2_set2 [OF w(2)] by blast
    then show ?thesis by (auto simp: w(1) conveys_scan)
  next
    case False
    with e(2) done_e have "ob_processed_at e \<noteq> None" by (auto simp: row_after_def)
    from handed_overD [OF assms(4) e(1) this] show ?thesis by (auto simp: w(1))
  qed
  moreover have "conveys m e' = conveys m e" for m
    by (rule conveys_core) (use e(2) in \<open>simp add: row_after_def\<close>)
  ultimately show "\<exists>m \<in> set (kc_accepted k'). conveys m e'" by simp
qed

text \<open>With both sides answering, an undecodable event does not hold up the others of its window.\<close>

lemma tick_hands_over:
  assumes "faults s = []" and "kc_refusals k = []" and "processor_tick E (s, k) = (s', k')"
    and "outbox_ids_ok E s" and "distinct (map ob_id (outbox_events (store s)))"
    and e: "e \<in> set (pending_rows E batchSize (outbox_events (store s)))" "decodable (ob_event_data e)"
  shows "\<exists>m \<in> set (kc_accepted k'). conveys m e"
proof -
  have "event_message E (scan_event e) \<in> set (kc_accepted k')"
    using healthy_tick [OF assms(1,2,4,5,3) refl] e by auto
  then show ?thesis using event_message_conveys [OF e(2)] by blast
qed

lemma tick_conveys:
  assumes "faults s = []" and "kc_refusals k = []" and "processor_tick E (s, k) = (s', k')"
    and "outbox_ids_ok E s" and "distinct (map ob_id (outbox_events (store s)))"
    and told: "handed_over (outbox_events (store s)) (kc_accepted k)"
    and e: "e \<in> set (outbox_events (store s))" "decodable (ob_event_data e)"
      "ob_processed_at e \<noteq> None \<or> e \<in> set (pending_rows E batchSize (outbox_events (store s)))"
  shows "\<exists>m \<in> set (kc_accepted k'). conveys m e"
proof (cases "ob_processed_at e")
  case None
  with e tick_hands_over [OF assms(1-5)] show ?thesis by blast
next
  case (Some tm)
  then have "\<exists>m \<in> set (kc_accepted k). conveys m e" using handed_overD [OF told e(1)] by simp
  then show ?thesis using healthy_tick [OF assms(1,2,4,5,3) refl] by auto
qed

section \<open>What the processor does to the tables\<close>

lemma outbox_update_db_ok:
  assumes ok: "db_ok d"
    and key: "\<And>r. ob_id (f r) = ob_id r \<and> outbox_key (f r) = outbox_key r"
    and att: "\<And>r. r \<in> set (outbox_events d) \<Longrightarrow> P r \<Longrightarrow> 0 \<le> ob_attempts r \<Longrightarrow> ob_attempts r \<le> 100 \<Longrightarrow>
      0 \<le> ob_attempts (f r) \<and> ob_attempts (f r) \<le> 100"
  shows "db_ok (d\<lparr>outbox_events := update_where P f (outbox_events d)\<rparr>)" (is "db_ok ?d")
proof -
  have field: "ob_aggregate_type (f r) = ob_aggregate_type r" "ob_aggregate_id (f r) = ob_aggregate_id r"
    "ob_event_type (f r) = ob_event_type r" "ob_version (f r) = ob_version r" for r
    using key [of r] by (simp_all add: outbox_key_def)
  have ids: "map ob_id (update_where P f (outbox_events d)) = map ob_id (outbox_events d)"
    and keys: "map outbox_key (update_where P f (outbox_events d)) = map outbox_key (outbox_events d)"
    by (rule map_update_where, simp add: key)+
  have "\<forall>r \<in> set (update_where P f (outbox_events d)). 0 \<le> ob_attempts r \<and> ob_attempts r \<le> 100"
    by (rule update_where_preserves) (use ok att in \<open>auto simp: db_ok_def schema_ok_def\<close>)
  moreover have "update_versions ?d agg = update_versions d agg" for agg
  proof -
    have "map ob_version (filter Q (update_where P f t)) = map ob_version (filter Q t)"
      if "\<And>r. Q (f r) = Q r" for Q t
      using that by (induction t) (auto simp: field)
    then show ?thesis by (simp add: update_versions_def field)
  qed
  then have "versions_ok ?d"
    using ok versions_okD [of d] by (intro versions_okI) (simp add: db_ok_def)
  ultimately show ?thesis
    using ok ids keys by (auto simp: db_ok_def schema_ok_def acks_ok_def shared_status_ok_def)
qed

lemma mark_statements_db_ok:
  "mark_batch_sql E ids d = Inr (x, d') \<Longrightarrow> db_ok d \<Longrightarrow> db_ok d'"
  "mark_failed_sql E i m d = Inr (n, d') \<Longrightarrow> db_ok d \<Longrightarrow> db_ok d'"
  subgoal by (auto simp: mark_batch_sql_def outbox_key_def intro!: outbox_update_db_ok)
  subgoal
    by (auto simp: mark_failed_sql_def Let_def outbox_key_def bump_row_def list_ex_iff split: if_splits
        intro!: outbox_update_db_ok)
  done

lemma repo_MarkBatchAsProcessed_db_ok: "db_inv.keeps (repo_MarkBatchAsProcessed E ids)"
  unfolding repo_MarkBatchAsProcessed_def by (rule db_inv.run) (use mark_statements_db_ok in blast)

context store_rel
begin

lemma keeps_MarkAsFailed:
  assumes "\<And>d n d'. mark_failed_sql E i m d = Inr (n, d') \<Longrightarrow> R d d'"
  shows "keeps (repo_MarkAsFailed E i m)"
proof -
  have run: "keeps (pg_run (mark_failed_sql E i m))" by (rule run) (rule assms)
  show ?thesis
    by (rule keepsI)
      (auto simp: repo_MarkAsFailed_def split: prod.splits sum.splits if_splits dest: keepsD [OF run]
        keepsD [OF wrap [OF run]])
qed

end

text \<open>The contract of the port \<open>OutboxRepository\<close> (\<open>tasks/port/outbox_repository.go\<close>) towards the tables.\<close>

locale outbox_repository = store_rel +
  assumes keeps_repo_MarkBatchAsProcessed: "keeps (repo_MarkBatchAsProcessed E ids)"
    and keeps_repo_MarkAsFailed: "keeps (repo_MarkAsFailed E i m)"
begin

lemma keeps_repo_GetUnprocessedEvents: "keeps (repo_GetUnprocessedEvents E n)"
  unfolding repo_GetUnprocessedEvents_def by (intro wrap query)

lemma process_loop_keeps:
  "process_loop (repo_MarkAsFailed E) pub evs (s, k) = (ids, s', k') \<Longrightarrow> R (store s) (store s')"
proof (induction evs arbitrary: s k ids)
  case (Cons ev evs)
  obtain v k1 where v: "processEvent pub ev k = (v, k1)" by force
  show ?case
  proof (cases v)
    case (Inl e)
    have "R (store s) (store (if oe_Attempts ev < maxAttempts then snd (repo_MarkAsFailed E (oe_ID ev) (Error e) s) else s))"
      using keeps_repo_MarkAsFailed [of E "oe_ID ev" "Error e"] by (auto simp: keeps_def R_refl)
    with Cons Inl v show ?thesis by (auto simp: Let_def intro: R_trans split: if_splits)
  next
    case (Inr u)
    with Cons v show ?thesis by (auto split: prod.splits)
  qed
qed (simp add: R_refl)

lemma processor_tick_keeps:
  assumes "processor_tick E (s, k) = (s', k')"
  shows "R (store s) (store s')"
proof -
  obtain g s1 where g: "repo_GetUnprocessedEvents E batchSize s = (g, s1)" by force
  have R1: "R (store s) (store s1)" using keepsD [OF keeps_repo_GetUnprocessedEvents g] .
  show ?thesis
  proof (cases g)
    case (Inr evs)
    obtain ids s2 k2 where l: "process_loop (repo_MarkAsFailed E) (producer_Write E) evs (s1, k) = (ids, s2, k2)"
      by (metis prod_cases3)
    have R2: "R (store s) (store s2)" using R1 process_loop_keeps [OF l] by (rule R_trans)
    have "R (store s) (store (snd (repo_MarkBatchAsProcessed E ids s2)))"
      using R2 keeps_repo_MarkBatchAsProcessed unfolding keeps_def by (blast intro: R_trans)
    with assms g Inr l R1 R2 show ?thesis
      by (auto simp: processor_tick_def processBatch_def split: if_splits)
  qed (use assms g R1 in \<open>auto simp: processor_tick_def processBatch_def\<close>)
qed

end

interpretation db_inv: outbox_repository "\<lambda>d d'. db_ok d \<longrightarrow> db_ok d'"
proof unfold_locales
  show "db_inv.keeps (repo_MarkBatchAsProcessed E ids)" for E ids by (rule repo_MarkBatchAsProcessed_db_ok)
  show "db_inv.keeps (repo_MarkAsFailed E i m)" for E i m
    by (rule db_inv.keeps_MarkAsFailed) (use mark_statements_db_ok in blast)
qed

text \<open>The processor touches no other table.\<close>

definition others :: "db \<Rightarrow> db" where
  "others d = d\<lparr>outbox_events := []\<rparr>"

interpretation outbox_only: store_rel "\<lambda>d d'. others d' = others d"
  by unfold_locales simp_all

interpretation outbox_only: outbox_repository "\<lambda>d d'. others d' = others d"
proof unfold_locales
  show "outbox_only.keeps (repo_MarkBatchAsProcessed E ids)" for E ids
    unfolding repo_MarkBatchAsProcessed_def
    by (rule outbox_only.run) (auto simp: mark_batch_sql_def others_def)
  show "outbox_only.keeps (repo_MarkAsFailed E i m)" for E i m
    by (rule outbox_only.keeps_MarkAsFailed) (auto simp: mark_failed_sql_def Let_def others_def split: if_splits)
qed

lemma processor_tick_tasks:
  assumes "processor_tick E (s, k) = (s', k')"
  shows "tasks (store s') = tasks (store s)"
proof -
  have "tasks (others d) = tasks d" for d by (simp add: others_def)
  then show ?thesis using outbox_only.processor_tick_keeps [OF assms] by metis
qed

end
