(* ===== verification/Reminders.thy ===== *)
theory Reminders
  imports Subscriptions
begin

text \<open>
  The reminder worker that \<open>main.go\<close> starts (\<open>internal/worker/reminder.go\<close>), which goes
  through the three windows one after the other, its newer variant
  (\<open>app/worker/reminder_worker.go\<close>), which gives each window a goroutine, and the client
  they notify through (\<open>tasks/notification/http_client.go\<close>). A tick of the newer one is a
  list of jobs and a schedule: the numbers of the jobs in the order they take their steps.
\<close>

section \<open>The notification client\<close>

record reminder_notification =
  rn_UserID :: string
  rn_TelegramChatID :: int
  rn_TaskID :: string
  rn_TaskTitle :: string
  rn_DueDate :: time
  rn_ReminderType :: string

text \<open>
  The gateway on the other side: \<open>gw_replies\<close> is what the coming requests meet (200 once
  the list is used up), \<open>gw_received\<close> the requests that arrived with their target and
  signature. A request without an answer may or may not have arrived. The HMAC is a
  parameter; the JSON body is the notification itself.
\<close>

datatype reply = Status nat | NotSent | AnswerLost

record gateway =
  gw_replies :: "reply list"
  gw_received :: "(string \<times> string \<times> reminder_notification) list"

record notify_cfg =
  nc_gatewayHost :: string
  nc_gatewayPort :: string
  nc_notifySecret :: string
  nc_hmac :: "string \<Rightarrow> reminder_notification \<Rightarrow> string"

definition SendReminder ::
    "notify_cfg \<Rightarrow> reminder_notification \<Rightarrow> gateway \<Rightarrow> (go_err + unit) \<times> gateway" where
  "SendReminder cfg n g =
     (let sig = nc_hmac cfg (nc_notifySecret cfg) n;
          target = ''http://'' @ nc_gatewayHost cfg @ '':'' @ nc_gatewayPort cfg @ ''/internal/notify'';
          arrived = g\<lparr>gw_replies := tl (gw_replies g), gw_received := gw_received g @ [(target, sig, n)]\<rparr>
      in case gw_replies g of
           [] \<Rightarrow> (Inr (), arrived)
         | Status c # _ \<Rightarrow>
             if c \<ge> 400 then (Inl (Msg (''notify request failed with status '' @ show_nat c)), arrived)
             else (Inr (), arrived)
         | NotSent # _ \<Rightarrow>
             (Inl (Wrap ''send notify request'' (Msg ''http'')), g\<lparr>gw_replies := tl (gw_replies g)\<rparr>)
         | AnswerLost # _ \<Rightarrow> (Inl (Wrap ''send notify request'' (Msg ''http'')), arrived))"

section \<open>One window\<close>

record reminder_win =
  rw_name :: string
  rw_window :: reminder_window
  rw_minBound :: time
  rw_maxBound :: time

definition reminderWindows :: "reminder_win list" where
  "reminderWindows =
     [\<lparr>rw_name = ''60m'', rw_window = Window60m, rw_minBound = minutes 55, rw_maxBound = minutes 65\<rparr>,
      \<lparr>rw_name = ''15m'', rw_window = Window15m, rw_minBound = minutes 12, rw_maxBound = minutes 18\<rparr>,
      \<lparr>rw_name = ''5m'', rw_window = Window5m, rw_minBound = minutes 3, rw_maxBound = minutes 7\<rparr>]"

text \<open>The windows of \<open>main.go\<close>'s worker: one minute around the time ahead.\<close>

definition window_around :: "reminder_window \<Rightarrow> time \<Rightarrow> string \<Rightarrow> reminder_win" where
  "window_around w ahead label =
     \<lparr>rw_name = label, rw_window = w, rw_minBound = ahead - minutes 1, rw_maxBound = ahead + minutes 1\<rparr>"

definition notification_of :: "reminder_win \<Rightarrow> reminder_info \<Rightarrow> reminder_notification" where
  "notification_of win t =
     \<lparr>rn_UserID = ri_UserID t, rn_TelegramChatID = ri_TelegramChatID t, rn_TaskID = ri_TaskID t,
      rn_TaskTitle = ri_Title t, rn_DueDate = ri_DueDate t, rn_ReminderType = rw_name win\<rparr>"

text \<open>
  The loop of \<open>processWindow\<close>, over the store's and the client's operations (\<open>w.subRepo\<close>
  and \<open>w.notifier\<close> are interface values).
\<close>

fun remind_loop ::
    "(string \<Rightarrow> reminder_window \<Rightarrow> 's \<Rightarrow> (go_err + unit) \<times> 's)
      \<Rightarrow> (reminder_notification \<Rightarrow> 'g \<Rightarrow> (go_err + unit) \<times> 'g)
      \<Rightarrow> reminder_win \<Rightarrow> reminder_info list \<Rightarrow> 's \<times> 'g \<Rightarrow> 's \<times> 'g" where
  "remind_loop mark send win [] (s, g) = (s, g)"
| "remind_loop mark send win (t # ts) (s, g) =
     (case send (notification_of win t) g of
        (Inl e, g) \<Rightarrow> remind_loop mark send win ts (s, g)
      | (Inr _, g) \<Rightarrow>
          remind_loop mark send win ts (snd (mark (ri_TaskID t) (rw_window win) s), g))"

definition processWindow ::
    "(time \<Rightarrow> time \<Rightarrow> reminder_window \<Rightarrow> 's \<Rightarrow> (go_err + reminder_info list) \<times> 's)
      \<Rightarrow> (string \<Rightarrow> reminder_window \<Rightarrow> 's \<Rightarrow> (go_err + unit) \<times> 's)
      \<Rightarrow> (reminder_notification \<Rightarrow> 'g \<Rightarrow> (go_err + unit) \<times> 'g)
      \<Rightarrow> time \<Rightarrow> reminder_win \<Rightarrow> 's \<times> 'g \<Rightarrow> 's \<times> 'g" where
  "processWindow lookup mark send t0 win sg =
     (case sg of (s, g) \<Rightarrow>
        case lookup (t0 + rw_minBound win) (t0 + rw_maxBound win) (rw_window win) s of
          (Inl e, s) \<Rightarrow> (s, g)
        | (Inr infos, s) \<Rightarrow> remind_loop mark send win infos (s, g))"

text \<open>
  One tick of \<open>main.go\<close>'s worker; every window reads the clock when its turn comes.
\<close>

definition window_at :: "env \<Rightarrow> notify_cfg \<Rightarrow> reminder_win \<Rightarrow> time \<Rightarrow> pg \<times> gateway \<Rightarrow> pg \<times> gateway" where
  "window_at E cfg win t =
     processWindow (repo_FindTasksDueForReminder (E\<lparr>now := t\<rparr>)) (repo_MarkReminderSent (E\<lparr>now := t\<rparr>))
       (SendReminder cfg) t win"

definition reminder_poll ::
    "env \<Rightarrow> notify_cfg \<Rightarrow> time \<times> time \<times> time \<Rightarrow> pg \<times> gateway \<Rightarrow> pg \<times> gateway" where
  "reminder_poll E cfg ts sg =
     (case ts of (t60, t15, t5) \<Rightarrow>
        window_at E cfg (window_around Window5m (minutes 5) ''5m'') t5
          (window_at E cfg (window_around Window15m (minutes 15) ''15m'') t15
            (window_at E cfg (window_around Window60m (minutes 60) ''60m'') t60 sg)))"

section \<open>A tick: the windows side by side\<close>

text \<open>The goroutine of a window, between two of its calls.\<close>

datatype job =
    Waiting reminder_win
  | Sending reminder_win "reminder_info list"
  | Marking reminder_win reminder_info "reminder_info list"

fun job_win :: "job \<Rightarrow> reminder_win" where
  "job_win (Waiting w) = w"
| "job_win (Sending w ts) = w"
| "job_win (Marking w t ts) = w"

fun job_step ::
    "(time \<Rightarrow> time \<Rightarrow> reminder_window \<Rightarrow> 's \<Rightarrow> (go_err + reminder_info list) \<times> 's)
      \<Rightarrow> (string \<Rightarrow> reminder_window \<Rightarrow> 's \<Rightarrow> (go_err + unit) \<times> 's)
      \<Rightarrow> (reminder_notification \<Rightarrow> 'g \<Rightarrow> (go_err + unit) \<times> 'g)
      \<Rightarrow> time \<Rightarrow> job \<Rightarrow> 's \<times> 'g \<Rightarrow> job \<times> 's \<times> 'g" where
  "job_step lookup mark send t0 (Waiting win) (s, g) =
     (case lookup (t0 + rw_minBound win) (t0 + rw_maxBound win) (rw_window win) s of
        (Inl e, s) \<Rightarrow> (Sending win [], s, g)
      | (Inr infos, s) \<Rightarrow> (Sending win infos, s, g))"
| "job_step lookup mark send t0 (Sending win []) (s, g) = (Sending win [], s, g)"
| "job_step lookup mark send t0 (Sending win (t # ts)) (s, g) =
     (case send (notification_of win t) g of
        (Inl e, g) \<Rightarrow> (Sending win ts, s, g)
      | (Inr _, g) \<Rightarrow> (Marking win t ts, s, g))"
| "job_step lookup mark send t0 (Marking win t ts) (s, g) =
     (Sending win ts, snd (mark (ri_TaskID t) (rw_window win) s), g)"

definition sched_step ::
    "(time \<Rightarrow> time \<Rightarrow> reminder_window \<Rightarrow> 's \<Rightarrow> (go_err + reminder_info list) \<times> 's)
      \<Rightarrow> (string \<Rightarrow> reminder_window \<Rightarrow> 's \<Rightarrow> (go_err + unit) \<times> 's)
      \<Rightarrow> (reminder_notification \<Rightarrow> 'g \<Rightarrow> (go_err + unit) \<times> 'g)
      \<Rightarrow> time \<Rightarrow> nat \<Rightarrow> job list \<times> 's \<times> 'g \<Rightarrow> job list \<times> 's \<times> 'g" where
  "sched_step lookup mark send t0 i st =
     (case st of (js, sg) \<Rightarrow>
        if i < length js
        then (case job_step lookup mark send t0 (js ! i) sg of (j, sg) \<Rightarrow> (js[i := j], sg))
        else (js, sg))"

definition processTick ::
    "env \<Rightarrow> notify_cfg \<Rightarrow> nat list \<Rightarrow> pg \<times> gateway \<Rightarrow> job list \<times> pg \<times> gateway" where
  "processTick E cfg schedule sg =
     fold (sched_step (repo_FindTasksDueForReminder E) (repo_MarkReminderSent E) (SendReminder cfg) (now E))
       schedule (map Waiting reminderWindows, sg)"

lemma sched_step_simps [simp]:
  "i < length js \<Longrightarrow> sched_step lookup mark send t0 i (js, sg)
     = (case job_step lookup mark send t0 (js ! i) sg of (j, sg) \<Rightarrow> (js[i := j], sg))"
  "\<not> i < length js \<Longrightarrow> sched_step lookup mark send t0 i (js, sg) = (js, sg)"
  by (simp_all add: sched_step_def)

section \<open>What the workers rely on\<close>

text \<open>
  The store of reminders as the workers see it: \<open>due\<close> is what a lookup would return,
  \<open>known\<close> the tasks there are, \<open>ok\<close> what the store keeps of itself, \<open>up\<close> that it answers.
  Marking a task takes it off the due lists that use the same column, now and later.
\<close>

locale reminder_store =
  fixes lookup :: "'e \<Rightarrow> time \<Rightarrow> time \<Rightarrow> reminder_window \<Rightarrow> 's \<Rightarrow> (go_err + reminder_info list) \<times> 's"
    and mark :: "'e \<Rightarrow> string \<Rightarrow> reminder_window \<Rightarrow> 's \<Rightarrow> (go_err + unit) \<times> 's"
    and due :: "'e \<Rightarrow> time \<Rightarrow> time \<Rightarrow> reminder_window \<Rightarrow> 's \<Rightarrow> reminder_info list"
    and known :: "'s \<Rightarrow> string set"
    and ok up :: "'s \<Rightarrow> bool"
  assumes lookup_keeps: "ok s \<Longrightarrow> lookup e a b w s = (r, s') \<Longrightarrow>
      ok s' \<and> due e' a' b' w' s' = due e' a' b' w' s \<and> known s' = known s"
    and lookup_due: "lookup e a b w s = (Inr l, s') \<Longrightarrow> l = due e a b w s"
    and lookup_up: "up s \<Longrightarrow> lookup e a b w s = (Inr (due e a b w s), s)"
    and due_distinct: "ok s \<Longrightarrow> distinct (map ri_TaskID (due e a b w s))"
    and due_known: "x \<in> set (due e a b w s) \<Longrightarrow> ri_TaskID x \<in> known s"
    and mark_keeps: "ok s \<Longrightarrow> i \<in> known s \<Longrightarrow> mark e i w s = (m, s') \<Longrightarrow> ok s' \<and> known s' = known s"
    and mark_due: "ok s \<Longrightarrow> i \<in> known s \<Longrightarrow> mark e i w s = (m, s') \<Longrightarrow>
      due e' a' b' w' s' = due e' a' b' w' s
      \<or> reminderSentCol w' = reminderSentCol w
        \<and> due e' a' b' w' s' = filter (\<lambda>x. ri_TaskID x \<noteq> i) (due e' a' b' w' s)"
    and mark_up: "ok s \<Longrightarrow> up s \<Longrightarrow> i \<in> known s \<Longrightarrow> mark e i w s = (m, s') \<Longrightarrow>
      up s' \<and> m = Inr () \<and> (reminderSentCol w' = reminderSentCol w
        \<longrightarrow> due e' a' b' w' s' = filter (\<lambda>x. ri_TaskID x \<noteq> i) (due e' a' b' w' s))"

text \<open>
  The receiver of the notifications: a send that reports success arrived, one that reports
  an error arrived once at most; \<open>clear\<close> says that errors mean it did not arrive, \<open>ready\<close>
  that there are none.
\<close>

locale notifier =
  fixes send :: "reminder_notification \<Rightarrow> 'g \<Rightarrow> (go_err + unit) \<times> 'g"
    and sent :: "'g \<Rightarrow> reminder_notification list"
    and clear ready :: "'g \<Rightarrow> bool"
  assumes send_Inr: "send n g = (Inr u, g') \<Longrightarrow> sent g' = sent g @ [n]"
    and send_Inl: "send n g = (Inl x, g') \<Longrightarrow> sent g' = sent g \<or> sent g' = sent g @ [n]"
    and send_clear: "clear g \<Longrightarrow> send n g = (v, g') \<Longrightarrow> clear g' \<and> (\<forall>x. v = Inl x \<longrightarrow> sent g' = sent g)"
    and send_ready: "ready g \<Longrightarrow> \<exists>g'. send n g = (Inr (), g') \<and> ready g'"

locale reminder_worker = reminder_store lookup mark due known ok up + notifier send sent clear ready
  for lookup :: "'e \<Rightarrow> time \<Rightarrow> time \<Rightarrow> reminder_window \<Rightarrow> 's \<Rightarrow> (go_err + reminder_info list) \<times> 's"
    and mark due known ok up
    and send :: "reminder_notification \<Rightarrow> 'g \<Rightarrow> (go_err + unit) \<times> 'g"
    and sent clear ready
begin

text \<open>One window: its sends are a part of the list, and what went through is off the list.\<close>

lemma loop_effect:
  assumes "remind_loop (mark e) send win ts (s, g) = (s', g')"
    and "ok s" and "ri_TaskID ` set ts \<subseteq> known s"
  shows "\<exists>ds. subseq ds ts \<and> sent g' = sent g @ map (notification_of win) ds
     \<and> ok s' \<and> known s' = known s
     \<and> (up s \<longrightarrow> up s') \<and> (clear g \<longrightarrow> clear g')
     \<and> (\<forall>e' a b w. set (due e' a b w s') \<subseteq> set (due e' a b w s)
          \<and> (reminderSentCol w \<noteq> reminderSentCol (rw_window win) \<longrightarrow> due e' a b w s' = due e' a b w s)
          \<and> (up s \<and> clear g \<and> reminderSentCol w = reminderSentCol (rw_window win)
             \<longrightarrow> due e' a b w s' = filter (\<lambda>x. ri_TaskID x \<notin> ri_TaskID ` set ds) (due e' a b w s)))"
  using assms
proof (induction ts arbitrary: s g)
  case Nil
  then show ?case by (intro exI [of _ "[]"]) auto
next
  case (Cons t ts)
  obtain r g1 where snd1: "send (notification_of win t) g = (r, g1)" by force
  show ?case
  proof (cases r)
    case (Inl x)
    then have "remind_loop (mark e) send win ts (s, g1) = (s', g')"
      using Cons.prems(1) snd1 by simp
    from Cons.IH [OF this Cons.prems(2)] Cons.prems(3) obtain ds where ds:
      "subseq ds ts" "sent g' = sent g1 @ map (notification_of win) ds"
      and rest: "ok s'" "known s' = known s" "up s \<longrightarrow> up s'" "clear g1 \<longrightarrow> clear g'"
      and due: "\<forall>e' a b w. set (due e' a b w s') \<subseteq> set (due e' a b w s)
          \<and> (reminderSentCol w \<noteq> reminderSentCol (rw_window win) \<longrightarrow> due e' a b w s' = due e' a b w s)
          \<and> (up s \<and> clear g1 \<and> reminderSentCol w = reminderSentCol (rw_window win)
             \<longrightarrow> due e' a b w s' = filter (\<lambda>x. ri_TaskID x \<notin> ri_TaskID ` set ds) (due e' a b w s))"
      by auto
    show ?thesis
    proof (cases "sent g1 = sent g")
      case True
      have "subseq ds (t # ts)" using ds(1) by (rule list_emb_Cons)
      moreover have "clear g \<longrightarrow> clear g1" using send_clear snd1 by blast
      ultimately show ?thesis using True ds(2) rest due
        by (intro exI [of _ ds]) auto
    next
      case False
      then have "sent g1 = sent g @ [notification_of win t]" "\<not> clear g"
        using send_Inl snd1 Inl send_clear by blast+
      then show ?thesis using ds rest due
        by (intro exI [of _ "t # ds"]) auto
    qed
  next
    case (Inr u)
    obtain m s1 where mk: "mark e (ri_TaskID t) (rw_window win) s = (m, s1)" by force
    have t: "ri_TaskID t \<in> known s" using Cons.prems(3) by simp
    have s1: "ok s1" "known s1 = known s" using mark_keeps [OF Cons.prems(2) t mk] by auto
    have run: "remind_loop (mark e) send win ts (s1, g1) = (s', g')"
      using Cons.prems(1) snd1 Inr mk by simp
    have "ri_TaskID ` set ts \<subseteq> known s1" using Cons.prems(3) s1(2) by simp
    from Cons.IH [OF run s1(1) this] obtain ds where ds:
      "subseq ds ts" "sent g' = sent g1 @ map (notification_of win) ds"
      and rest: "ok s'" "known s' = known s1" "up s1 \<longrightarrow> up s'" "clear g1 \<longrightarrow> clear g'"
      and due: "\<forall>e' a b w. set (due e' a b w s') \<subseteq> set (due e' a b w s1)
          \<and> (reminderSentCol w \<noteq> reminderSentCol (rw_window win) \<longrightarrow> due e' a b w s' = due e' a b w s1)
          \<and> (up s1 \<and> clear g1 \<and> reminderSentCol w = reminderSentCol (rw_window win)
             \<longrightarrow> due e' a b w s' = filter (\<lambda>x. ri_TaskID x \<notin> ri_TaskID ` set ds) (due e' a b w s1))"
      by blast
    have g1: "sent g1 = sent g @ [notification_of win t]" "clear g \<longrightarrow> clear g1"
      using send_Inr snd1 Inr send_clear by blast+
    have up1: "up s \<longrightarrow> up s1" using mark_up [OF Cons.prems(2) _ t mk] by blast
    have due1: "set (due e' a b w s') \<subseteq> set (due e' a b w s)
        \<and> (reminderSentCol w \<noteq> reminderSentCol (rw_window win) \<longrightarrow> due e' a b w s' = due e' a b w s)
        \<and> (up s \<and> clear g \<and> reminderSentCol w = reminderSentCol (rw_window win)
           \<longrightarrow> due e' a b w s' = filter (\<lambda>x. ri_TaskID x \<notin> ri_TaskID ` set (t # ds)) (due e' a b w s))"
      for e' a b w
    proof -
      have mid: "due e' a b w s1 = due e' a b w s
          \<or> reminderSentCol w = reminderSentCol (rw_window win)
            \<and> due e' a b w s1 = filter (\<lambda>x. ri_TaskID x \<noteq> ri_TaskID t) (due e' a b w s)"
        using mark_due [OF Cons.prems(2) t mk] by blast
      have mid_up: "up s \<and> reminderSentCol w = reminderSentCol (rw_window win)
          \<longrightarrow> due e' a b w s1 = filter (\<lambda>x. ri_TaskID x \<noteq> ri_TaskID t) (due e' a b w s)"
        using mark_up [OF Cons.prems(2) _ t mk] by blast
      have a1: "set (due e' a b w s') \<subseteq> set (due e' a b w s)"
        using due mid by fastforce
      moreover have "reminderSentCol w \<noteq> reminderSentCol (rw_window win) \<longrightarrow> due e' a b w s' = due e' a b w s"
        using due mid by metis
      moreover have "due e' a b w s' = filter (\<lambda>x. ri_TaskID x \<notin> ri_TaskID ` set (t # ds)) (due e' a b w s)"
        if h: "up s \<and> clear g \<and> reminderSentCol w = reminderSentCol (rw_window win)"
      proof -
        have "due e' a b w s' = filter (\<lambda>x. ri_TaskID x \<notin> ri_TaskID ` set ds) (due e' a b w s1)"
          using due h up1 g1(2) by blast
        moreover have "due e' a b w s1 = filter (\<lambda>x. ri_TaskID x \<noteq> ri_TaskID t) (due e' a b w s)"
          using mid_up h by blast
        ultimately show ?thesis by (simp add: conj_commute)
      qed
      ultimately show ?thesis by blast
    qed
    show ?thesis
      using ds g1 rest s1(2) up1 due1
      by (intro exI [of _ "t # ds"]) auto
  qed
qed

lemma loop_ready:
  "ready g \<Longrightarrow> remind_loop (mark e) send win ts (s, g) = (s', g')
     \<Longrightarrow> sent g' = sent g @ map (notification_of win) ts \<and> ready g'"
proof (induction ts arbitrary: s g)
  case (Cons t ts)
  obtain g1 where g1: "send (notification_of win t) g = (Inr (), g1)" "ready g1"
    using send_ready [OF Cons.prems(1)] by blast
  have "remind_loop (mark e) send win ts (snd (mark e (ri_TaskID t) (rw_window win) s), g1) = (s', g')"
    using Cons.prems(2) g1(1) by simp
  from Cons.IH [OF g1(2) this] send_Inr [OF g1(1)] show ?case by simp
qed simp

definition due_in :: "'e \<Rightarrow> time \<Rightarrow> reminder_win \<Rightarrow> 's \<Rightarrow> reminder_info list" where
  "due_in e t0 win s = due e (t0 + rw_minBound win) (t0 + rw_maxBound win) (rw_window win) s"

lemma window_effect:
  assumes run: "processWindow (lookup e) (mark e) send t0 win (s, g) = (s', g')" and ok: "ok s"
  shows "\<exists>ds. subseq ds (due_in e t0 win s) \<and> sent g' = sent g @ map (notification_of win) ds
     \<and> ok s' \<and> known s' = known s
     \<and> (up s \<longrightarrow> up s') \<and> (clear g \<longrightarrow> clear g')
     \<and> (\<forall>e' a b w. set (due e' a b w s') \<subseteq> set (due e' a b w s)
          \<and> (reminderSentCol w \<noteq> reminderSentCol (rw_window win) \<longrightarrow> due e' a b w s' = due e' a b w s)
          \<and> (up s \<and> clear g \<and> reminderSentCol w = reminderSentCol (rw_window win)
             \<longrightarrow> due e' a b w s' = filter (\<lambda>x. ri_TaskID x \<notin> ri_TaskID ` set ds) (due e' a b w s)))
     \<and> (up s \<and> ready g \<longrightarrow> ds = due_in e t0 win s \<and> ready g')"
proof -
  obtain r s1 where l: "lookup e (t0 + rw_minBound win) (t0 + rw_maxBound win) (rw_window win) s = (r, s1)"
    by force
  have s1: "ok s1" "known s1 = known s" and due1: "due e' a b w s1 = due e' a b w s" for e' a b w
    using lookup_keeps [OF ok l] by auto
  have up1: "up s \<longrightarrow> r = Inr (due_in e t0 win s) \<and> s1 = s"
    using lookup_up l by (auto simp: due_in_def)
  show ?thesis
  proof (cases r)
    case (Inl x)
    then have "s' = s1" "g' = g" using run l by (simp_all add: processWindow_def)
    with Inl s1 due1 up1 show ?thesis by (intro exI [of _ "[]"]) auto
  next
    case (Inr ts)
    have ts: "ts = due_in e t0 win s"
      using lookup_due l Inr by (auto simp: due_in_def)
    have loop: "remind_loop (mark e) send win ts (s1, g) = (s', g')"
      using run l Inr by (simp add: processWindow_def)
    have "ri_TaskID ` set ts \<subseteq> known s1"
      using due_known s1(2) by (auto simp: ts due_in_def)
    from loop_effect [OF loop s1(1) this] obtain ds where ds: "subseq ds ts"
      "sent g' = sent g @ map (notification_of win) ds" "ok s'" "known s' = known s"
      "up s1 \<longrightarrow> up s'" "clear g \<longrightarrow> clear g'"
      and due: "\<And>e' a b w. set (due e' a b w s') \<subseteq> set (due e' a b w s)
          \<and> (reminderSentCol w \<noteq> reminderSentCol (rw_window win) \<longrightarrow> due e' a b w s' = due e' a b w s)
          \<and> (up s1 \<and> clear g \<and> reminderSentCol w = reminderSentCol (rw_window win)
             \<longrightarrow> due e' a b w s' = filter (\<lambda>x. ri_TaskID x \<notin> ri_TaskID ` set ds) (due e' a b w s))"
      unfolding due1 s1(2) by blast
    have "up s \<and> ready g \<longrightarrow> map (notification_of win) ds = map (notification_of win) ts \<and> ready g'"
      using loop_ready [OF _ loop] ds(2) by auto
    moreover have "map (notification_of win) ds = map (notification_of win) ts \<longrightarrow> ds = ts"
      using ds(1) by (metis length_map subseq_same_length)
    ultimately have "up s \<and> ready g \<longrightarrow> ds = due_in e t0 win s \<and> ready g'" using ts by blast
    with ds due up1 show ?thesis unfolding ts by (intro exI [of _ ds]) blast
  qed
qed

text \<open>
  Many windows, one after the other: no reminder of one kind reaches a task twice, as long
  as the store answers and errors of the notifier mean that nothing arrived.
\<close>

lemma rounds_once:
  assumes "fold (\<lambda>(e, t0, win). processWindow (lookup e) (mark e) send t0 win) rs (s, g) = (s', g')"
    and "ok s" "up s" "clear g"
    and "\<forall>x \<in> set rs. snd (snd x) \<in> W"
    and W: "\<And>v w. v \<in> W \<Longrightarrow> w \<in> W \<Longrightarrow> rw_name v = rw_name w
         \<Longrightarrow> reminderSentCol (rw_window v) = reminderSentCol (rw_window w)"
    and "distinct (map (\<lambda>n. (rn_TaskID n, rn_ReminderType n)) (sent g))"
    and "\<forall>n \<in> set (sent g). \<forall>v \<in> W. rn_ReminderType n = rw_name v
         \<longrightarrow> (\<forall>e t0. rn_TaskID n \<notin> ri_TaskID ` set (due_in e t0 v s))"
  shows "distinct (map (\<lambda>n. (rn_TaskID n, rn_ReminderType n)) (sent g'))"
  using assms(1-5,7,8)
proof (induction rs arbitrary: s g)
  case (Cons x rs)
  obtain e t0 win where x: "x = (e, t0, win)" by (cases x)
  obtain s1 g1 where w1: "processWindow (lookup e) (mark e) send t0 win (s, g) = (s1, g1)" by force
  then have rest: "fold (\<lambda>(e, t0, win). processWindow (lookup e) (mark e) send t0 win) rs (s1, g1) = (s', g')"
    using Cons.prems(1) x by simp
  have win: "win \<in> W" using Cons.prems(5) x by auto
  obtain ds where ds: "subseq ds (due_in e t0 win s)" "sent g1 = sent g @ map (notification_of win) ds"
    "ok s1" "up s1" "clear g1"
    and due: "\<And>e' a b w. set (due e' a b w s1) \<subseteq> set (due e' a b w s)
        \<and> (reminderSentCol w = reminderSentCol (rw_window win)
           \<longrightarrow> due e' a b w s1 = filter (\<lambda>x. ri_TaskID x \<notin> ri_TaskID ` set ds) (due e' a b w s))"
    using window_effect [OF w1 Cons.prems(2)] Cons.prems(3,4) by blast
  have "distinct (map ri_TaskID (due_in e t0 win s))"
    using due_distinct [OF Cons.prems(2)] by (simp add: due_in_def)
  then have dist: "distinct (map ri_TaskID ds)" using ds(1) by (rule subseq_distinct_map)
  have fresh: "ri_TaskID d \<notin> rn_TaskID ` {n \<in> set (sent g). rn_ReminderType n = rw_name win}"
    if d: "d \<in> set ds" for d
  proof
    assume "ri_TaskID d \<in> rn_TaskID ` {n \<in> set (sent g). rn_ReminderType n = rw_name win}"
    then obtain n where "n \<in> set (sent g)" "rn_ReminderType n = rw_name win" "rn_TaskID n = ri_TaskID d"
      by auto
    then have "ri_TaskID d \<notin> ri_TaskID ` set (due_in e t0 win s)"
      using Cons.prems(7) win by metis
    then show False using d subseq_subset [OF ds(1)] by blast
  qed
  let ?key = "\<lambda>n. (rn_TaskID n, rn_ReminderType n)"
  have keys: "map ?key (map (notification_of win) ds) = map (\<lambda>d. (ri_TaskID d, rw_name win)) ds"
    by (simp add: notification_of_def)
  have "distinct (map ?key (map (notification_of win) ds))"
    unfolding keys using dist by (simp add: distinct_map inj_on_def)
  moreover have "set (map ?key (sent g)) \<inter> set (map ?key (map (notification_of win) ds)) = {}"
    unfolding keys
  proof (rule equals0I, elim IntE)
    fix y assume "y \<in> set (map ?key (sent g))" and "y \<in> set (map (\<lambda>d. (ri_TaskID d, rw_name win)) ds)"
    then obtain n d where "n \<in> set (sent g)" "d \<in> set ds" "rn_TaskID n = ri_TaskID d"
      "rn_ReminderType n = rw_name win" by auto
    with fresh [of d] show False by (metis (mono_tags, lifting) image_eqI mem_Collect_eq)
  qed
  ultimately have new: "distinct (map ?key (sent g1))"
    using Cons.prems(6) unfolding ds(2) map_append distinct_append by blast
  have "\<forall>n \<in> set (sent g1). \<forall>v \<in> W. rn_ReminderType n = rw_name v
         \<longrightarrow> (\<forall>e t0. rn_TaskID n \<notin> ri_TaskID ` set (due_in e t0 v s1))"
  proof (intro ballI impI allI)
    fix n v e' t'
    assume n: "n \<in> set (sent g1)" and v: "v \<in> W" "rn_ReminderType n = rw_name v"
    consider "n \<in> set (sent g)" | d where "d \<in> set ds" "n = notification_of win d"
      using n ds(2) by auto
    then show "rn_TaskID n \<notin> ri_TaskID ` set (due_in e' t' v s1)"
    proof cases
      case 1
      then have "rn_TaskID n \<notin> ri_TaskID ` set (due_in e' t' v s)" using Cons.prems(7) v by blast
      moreover have "set (due_in e' t' v s1) \<subseteq> set (due_in e' t' v s)" using due by (simp add: due_in_def)
      ultimately show ?thesis by blast
    next
      case 2
      then have "reminderSentCol (rw_window v) = reminderSentCol (rw_window win)"
        using W [OF v(1) win] v(2) by (simp add: notification_of_def)
      then have "due_in e' t' v s1 = filter (\<lambda>x. ri_TaskID x \<notin> ri_TaskID ` set ds) (due_in e' t' v s)"
        using due by (simp add: due_in_def)
      moreover have "rn_TaskID n \<in> ri_TaskID ` set ds" using 2 by (simp add: notification_of_def)
      ultimately show ?thesis by auto
    qed
  qed
  from Cons.IH [OF rest ds(3-5) _ new this] Cons.prems(5) show ?case by simp
qed simp

text \<open>
  A tick with a goroutine per window: what a job has still to send, and what is known of
  a job after any part of a schedule (\<open>D\<close> is the list its window had at the start, \<open>ns\<close>
  what the tick has sent so far).
\<close>

fun to_send :: "'e \<Rightarrow> time \<Rightarrow> 's \<Rightarrow> job \<Rightarrow> reminder_info list" where
  "to_send e t0 s (Waiting win) = due_in e t0 win s"
| "to_send e t0 s (Sending win ts) = ts"
| "to_send e t0 s (Marking win t ts) = ts"

definition job_ok :: "'e \<Rightarrow> time \<Rightarrow> 's \<Rightarrow> reminder_notification list \<Rightarrow> reminder_info list \<Rightarrow> job \<Rightarrow> bool" where
  "job_ok e t0 s ns D j \<longleftrightarrow>
     (\<exists>ds. filter (\<lambda>n. rn_ReminderType n = rw_name (job_win j)) ns = map (notification_of (job_win j)) ds
        \<and> subseq (ds @ to_send e t0 s j) D
        \<and> (\<forall>w. j = Waiting w \<longrightarrow> ds = [])
        \<and> (\<forall>w t ts. j = Marking w t ts \<longrightarrow> t \<in> set D))"

text \<open>The step of one job: what it keeps of itself, and what the others see of it.\<close>

lemma job_step_ok:
  assumes step: "job_step (lookup e) (mark e) send t0 j (s, g) = (j', s', g')"
    and ok: "ok s" and sent: "sent g = old @ ns" and job: "job_ok e t0 s ns D j"
    and D: "ri_TaskID ` set D \<subseteq> known s"
  shows "\<exists>ms. sent g' = old @ ns @ ms \<and> job_win j' = job_win j \<and> ok s' \<and> known s' = known s
     \<and> job_ok e t0 s' (ns @ ms) D j'
     \<and> set ms \<subseteq> notification_of (job_win j) ` set D
     \<and> (\<forall>v. reminderSentCol (rw_window v) \<noteq> reminderSentCol (rw_window (job_win j))
          \<longrightarrow> due_in e t0 v s' = due_in e t0 v s)"
proof -
  obtain ds where ds: "filter (\<lambda>n. rn_ReminderType n = rw_name (job_win j)) ns = map (notification_of (job_win j)) ds"
    "subseq (ds @ to_send e t0 s j) D"
    "\<forall>w. j = Waiting w \<longrightarrow> ds = []" "\<forall>w t ts. j = Marking w t ts \<longrightarrow> t \<in> set D"
    using job unfolding job_ok_def by blast
  show ?thesis
  proof (cases j)
    case (Waiting win)
    obtain r s1 where l: "lookup e (t0 + rw_minBound win) (t0 + rw_maxBound win) (rw_window win) s = (r, s1)"
      by force
    have new: "s' = s1" "g' = g" "j' = Sending win (case r of Inl x \<Rightarrow> [] | Inr ts \<Rightarrow> ts)"
      using step l Waiting by (auto split: sum.splits)
    have "subseq (case r of Inl x \<Rightarrow> [] | Inr ts \<Rightarrow> ts) D"
      using ds(2,3) Waiting lookup_due l by (auto simp: due_in_def split: sum.splits)
    moreover have "ok s1" "known s1 = known s" "due_in e t0 v s1 = due_in e t0 v s" for v
      using lookup_keeps [OF ok l] by (auto simp: due_in_def)
    moreover have "ds = []" using ds(3) Waiting by blast
    ultimately show ?thesis
      using new sent ds(1) Waiting by (intro exI [of _ "[]"]) (auto simp: job_ok_def)
  next
    case (Sending win todo)
    show ?thesis
    proof (cases todo)
      case Nil
      then show ?thesis
        using step sent ok job Sending by (intro exI [of _ "[]"]) auto
    next
      case (Cons t ts)
      obtain r g1 where r: "send (notification_of win t) g = (r, g1)" by force
      have new: "s' = s" "g' = g1" "j' = (case r of Inl x \<Rightarrow> Sending win ts | Inr u \<Rightarrow> Marking win t ts)"
        using step r Sending Cons by (auto split: sum.splits)
      have sub: "subseq (ds @ t # ts) D" using ds(2) Sending Cons by simp
      then have sub': "subseq (ds @ ts) D"
        by (meson list_emb_Cons subseq_append' subseq_order.order_refl subseq_order.trans)
      have t: "t \<in> set D" using subseq_subset [OF sub] by simp
      consider (no) x where "r = Inl x" "sent g1 = sent g" | (yes) "sent g1 = sent g @ [notification_of win t]"
        using send_Inl send_Inr r by (cases r) blast+
      then show ?thesis
      proof cases
        case no
        then show ?thesis
          using new sent ok ds(1) Sending sub' by (intro exI [of _ "[]"]) (auto simp: job_ok_def)
      next
        case yes
        have f: "filter (\<lambda>n. rn_ReminderType n = rw_name win) (ns @ [notification_of win t])
            = map (notification_of win) (ds @ [t])"
          using ds(1) Sending by (simp add: notification_of_def)
        have "job_ok e t0 s (ns @ [notification_of win t]) D j'"
          using f sub t new(3) unfolding job_ok_def
          by (intro exI [of _ "ds @ [t]"]) (auto split: sum.splits)
        then show ?thesis
          using new sent ok Sending yes t
          by (intro exI [of _ "[notification_of win t]"]) (auto split: sum.splits)
      qed
    qed
  next
    case (Marking win t ts)
    obtain m s1 where m: "mark e (ri_TaskID t) (rw_window win) s = (m, s1)" by force
    have new: "s' = s1" "g' = g" "j' = Sending win ts" using step m Marking by simp_all
    have t: "ri_TaskID t \<in> known s" using ds(4) Marking D by auto
    have "ok s1" "known s1 = known s" using mark_keeps [OF ok t m] by auto
    moreover have "due_in e t0 v s1 = due_in e t0 v s"
      if "reminderSentCol (rw_window v) \<noteq> reminderSentCol (rw_window win)" for v
      using mark_due [OF ok t m] that by (auto simp: due_in_def)
    ultimately show ?thesis
      using new sent ds(1,2) Marking by (intro exI [of _ "[]"]) (auto simp: job_ok_def)
  qed
qed

text \<open>The other jobs keep what is known of them.\<close>

lemma job_ok_frame:
  assumes "job_ok e t0 s ns D j" and "\<forall>m \<in> set ms. rn_ReminderType m \<noteq> rw_name (job_win j)"
    and "due_in e t0 (job_win j) s' = due_in e t0 (job_win j) s"
  shows "job_ok e t0 s' (ns @ ms) D j"
proof -
  have "to_send e t0 s' j = to_send e t0 s j" using assms(3) by (cases j) auto
  moreover have "filter (\<lambda>n. rn_ReminderType n = rw_name (job_win j)) ms = []"
    using assms(2) by (simp add: filter_empty_conv)
  ultimately show ?thesis using assms(1) by (simp add: job_ok_def)
qed

lemma schedule_effect:
  assumes run: "fold (sched_step (lookup e) (mark e) send t0) schedule (js, s, g) = (js', s', g')"
    and "ok s" and "sent g = old @ ns"
    and "length js = length Ds" and "\<forall>i < length js. job_ok e t0 s ns (Ds ! i) (js ! i)"
    and "\<forall>D \<in> set Ds. ri_TaskID ` set D \<subseteq> known s"
    and wins: "distinct (map (rw_name \<circ> job_win) js)"
      "distinct (map (reminderSentCol \<circ> rw_window \<circ> job_win) js)"
    and "\<forall>n \<in> set ns. \<exists>i < length js. n \<in> notification_of (job_win (js ! i)) ` set (Ds ! i)"
  shows "\<exists>ns'. sent g' = old @ ns' \<and> map job_win js' = map job_win js
     \<and> (\<forall>i < length js. job_ok e t0 s' ns' (Ds ! i) (js' ! i))
     \<and> (\<forall>n \<in> set ns'. \<exists>i < length js. n \<in> notification_of (job_win (js ! i)) ` set (Ds ! i))"
  using assms
proof (induction schedule arbitrary: js s g ns)
  case Nil
  then show ?case by auto
next
  case (Cons i schedule)
  show ?case
  proof (cases "i < length js")
    case False
    then have "fold (sched_step (lookup e) (mark e) send t0) schedule (js, s, g) = (js', s', g')"
      using Cons.prems(1) by simp
    from Cons.IH [OF this Cons.prems(2-)] show ?thesis .
  next
    case True
    obtain j s1 g1 where step: "job_step (lookup e) (mark e) send t0 (js ! i) (s, g) = (j, s1, g1)"
      by (metis prod_cases3)
    have run: "fold (sched_step (lookup e) (mark e) send t0) schedule (js[i := j], s1, g1) = (js', s', g')"
      using Cons.prems(1) True step by simp
    have jobi: "job_ok e t0 s ns (Ds ! i) (js ! i)" using Cons.prems(5) True by blast
    have Di: "ri_TaskID ` set (Ds ! i) \<subseteq> known s" using Cons.prems(4,6) True by simp
    obtain ms where ms: "sent g1 = old @ ns @ ms" "job_win j = job_win (js ! i)" "ok s1" "known s1 = known s"
      "job_ok e t0 s1 (ns @ ms) (Ds ! i) j"
      "set ms \<subseteq> notification_of (job_win (js ! i)) ` set (Ds ! i)"
      and frame: "\<And>v. reminderSentCol (rw_window v) \<noteq> reminderSentCol (rw_window (job_win (js ! i)))
          \<Longrightarrow> due_in e t0 v s1 = due_in e t0 v s"
      using job_step_ok [OF step Cons.prems(2,3) jobi Di] by blast
    have wins: "map job_win (js[i := j]) = map job_win js"
      using ms(2) by (metis list_update_id map_update)
    have jobs: "\<forall>k < length (js[i := j]). job_ok e t0 s1 (ns @ ms) (Ds ! k) (js[i := j] ! k)"
    proof (intro allI impI)
      fix k assume k: "k < length (js[i := j])"
      show "job_ok e t0 s1 (ns @ ms) (Ds ! k) (js[i := j] ! k)"
      proof (cases "k = i")
        case True
        then show ?thesis using ms(5) k by simp
      next
        case False
        have "rw_name (job_win (js ! k)) \<noteq> rw_name (job_win (js ! i))"
          using nth_eq_iff_index_eq [OF Cons.prems(7), of k i] k True False by simp
        moreover have "reminderSentCol (rw_window (job_win (js ! k))) \<noteq> reminderSentCol (rw_window (job_win (js ! i)))"
          using nth_eq_iff_index_eq [OF Cons.prems(8), of k i] k True False by simp
        ultimately have "job_ok e t0 s1 (ns @ ms) (Ds ! k) (js ! k)"
          using Cons.prems(5) k ms(6) frame
          by (intro job_ok_frame [where s = s]) (auto simp: notification_of_def)
        then show ?thesis using False by simp
      qed
    qed
    have pre: "\<forall>n \<in> set (ns @ ms). \<exists>k < length (js[i := j]).
        n \<in> notification_of (job_win (js[i := j] ! k)) ` set (Ds ! k)"
    proof
      fix n assume "n \<in> set (ns @ ms)"
      then obtain k where k: "k < length js" "n \<in> notification_of (job_win (js ! k)) ` set (Ds ! k)"
        using Cons.prems(9) ms(6) True by (auto; blast)
      moreover have "job_win (js[i := j] ! k) = job_win (js ! k)"
        using wins k(1) by (metis length_list_update nth_map)
      ultimately show "\<exists>k < length (js[i := j]). n \<in> notification_of (job_win (js[i := j] ! k)) ` set (Ds ! k)"
        by auto
    qed
    have dist: "distinct (map (rw_name \<circ> job_win) (js[i := j]))"
      "distinct (map (reminderSentCol \<circ> rw_window \<circ> job_win) (js[i := j]))"
      using Cons.prems(7,8) wins by (metis list.map_comp)+
    have start: "sent g1 = old @ (ns @ ms)" "length (js[i := j]) = length Ds"
      "\<forall>D \<in> set Ds. ri_TaskID ` set D \<subseteq> known s1"
      using ms(1,4) Cons.prems(4,6) by simp_all
    obtain ns' where "sent g' = old @ ns'" "map job_win js' = map job_win (js[i := j])"
       "\<forall>k < length (js[i := j]). job_ok e t0 s' ns' (Ds ! k) (js' ! k)"
       "\<forall>n \<in> set ns'. \<exists>k < length (js[i := j]). n \<in> notification_of (job_win (js[i := j] ! k)) ` set (Ds ! k)"
      using Cons.IH [OF run ms(3) start(1,2) jobs start(3) dist pre] by blast
    moreover have "job_win (js[i := j] ! k) = job_win (js ! k)" if "k < length js" for k
      using wins that by (metis length_list_update nth_map)
    moreover from calculation
    have "\<forall>n \<in> set ns'. \<exists>k < length js. n \<in> notification_of (job_win (js ! k)) ` set (Ds ! k)"
      by (metis length_list_update)
    ultimately show ?thesis using wins by (intro exI [of _ ns']) simp
  qed
qed

end


section \<open>The two sides of the service\<close>

text \<open>
  The gateway. \<open>clear_replies\<close>: it refuses nothing and no answer gets lost, though requests
  may fail to arrive; \<open>good_replies\<close>: it answers all of them.
\<close>

definition notified :: "gateway \<Rightarrow> reminder_notification list" where
  "notified g = map (\<lambda>(target, sig, n). n) (gw_received g)"

fun reply_clear :: "reply \<Rightarrow> bool" where
  "reply_clear (Status c) = (c < 400)"
| "reply_clear NotSent = True"
| "reply_clear AnswerLost = False"

definition clear_replies :: "gateway \<Rightarrow> bool" where
  "clear_replies g = list_all reply_clear (gw_replies g)"

definition good_replies :: "gateway \<Rightarrow> bool" where
  "good_replies g = list_all (\<lambda>r. reply_clear r \<and> r \<noteq> NotSent) (gw_replies g)"

interpretation gateway_notifier: notifier "SendReminder cfg" notified clear_replies good_replies for cfg
proof
  fix n g g'
  show "notified g' = notified g @ [n]" if "SendReminder cfg n g = (Inr u, g')" for u
    using that by (auto simp: SendReminder_def notified_def Let_def split: list.splits reply.splits if_splits)
  show "notified g' = notified g \<or> notified g' = notified g @ [n]" if "SendReminder cfg n g = (Inl x, g')" for x
    using that by (auto simp: SendReminder_def notified_def Let_def split: list.splits reply.splits if_splits)
  show "clear_replies g' \<and> (\<forall>x. v = Inl x \<longrightarrow> notified g' = notified g)"
    if "clear_replies g" "SendReminder cfg n g = (v, g')" for v
    using that
    by (auto simp: SendReminder_def clear_replies_def notified_def Let_def split: list.splits reply.splits if_splits)
  show "\<exists>g'. SendReminder cfg n g = (Inr (), g') \<and> good_replies g'" if "good_replies g"
    using that
    by (auto simp: SendReminder_def good_replies_def Let_def split: list.splits reply.splits)
qed

text \<open>The subscription repository; \<open>t\<close> is the instant of the call.\<close>

definition due_list :: "env \<Rightarrow> time \<Rightarrow> time \<Rightarrow> time \<Rightarrow> reminder_window \<Rightarrow> pg \<Rightarrow> reminder_info list" where
  "due_list E t a b w s =
     List.map_filter (due_info (E\<lparr>now := t\<rparr>) (store s) (wall_clock E a) (wall_clock E b) (reminderSentCol w))
       (tasks (store s))"

definition task_ids :: "pg \<Rightarrow> string set" where
  "task_ids s = tr_task_id ` set (tasks (store s))"

definition ids_canonical :: "env \<Rightarrow> pg \<Rightarrow> bool" where
  "ids_canonical E s \<longleftrightarrow> distinct (map tr_task_id (tasks (store s)))
     \<and> (\<forall>r \<in> set (tasks (store s)). pg_uuid E (tr_task_id r) = Some (tr_task_id r))"

definition healthy :: "pg \<Rightarrow> bool" where
  "healthy s \<longleftrightarrow> faults s = []"

lemma sent_at_set_sent_at:
  "sent_at (reminderSentCol v) (set_sent_at (reminderSentCol w) t r)
     = (if reminderSentCol v = reminderSentCol w then Some t else sent_at (reminderSentCol v) r)"
  by (auto simp: sent_at_def set_sent_at_def reminderSentCol_def split: reminder_window.splits)

lemma due_info_id: "due_info E d a b c r = Some x \<Longrightarrow> ri_TaskID x = tr_task_id r"
  by (auto simp: due_info_def split: option.splits if_splits)

lemma due_info_marked:
  "due_info E d' a b (reminderSentCol v) (set_sent_at (reminderSentCol w) t r)
     = (if reminderSentCol v = reminderSentCol w then None else due_info E d a b (reminderSentCol v) r)"
  if "user_subscriptions d' = user_subscriptions d"
  using that by (auto simp: due_info_def sent_at_set_sent_at split: option.splits)

lemma map_filter_marked:
  assumes "\<And>r. r \<in> set rs \<Longrightarrow> f' (if P r then g r else r) = (if P r then None else f r)"
    and "\<And>r x. r \<in> set rs \<Longrightarrow> f r = Some x \<Longrightarrow> Q x = (\<not> P r)"
  shows "List.map_filter f' (update_where P g rs) = filter Q (List.map_filter f rs)"
  using assms by (induction rs) (auto simp: List.map_filter_simps update_where_def split: option.splits)

lemma map_filter_same:
  assumes "\<And>r. r \<in> set rs \<Longrightarrow> f' (if P r then g r else r) = f r"
  shows "List.map_filter f' (update_where P g rs) = List.map_filter f rs"
  using assms by (induction rs) (auto simp: List.map_filter_simps update_where_def split: option.splits)

text \<open>What a mark that takes effect does to the due lists.\<close>

lemma marked_due:
  assumes s': "store s' = (store s)\<lparr>tasks := update_where (\<lambda>r. tr_task_id r = i)
      (set_sent_at (reminderSentCol w) t0) (tasks (store s))\<rparr>"
  shows "reminderSentCol v = reminderSentCol w \<Longrightarrow>
       due_list E t a b v s' = filter (\<lambda>x. ri_TaskID x \<noteq> i) (due_list E t a b v s)"
    and "reminderSentCol v \<noteq> reminderSentCol w \<Longrightarrow> due_list E t a b v s' = due_list E t a b v s"
proof -
  have subs: "user_subscriptions (store s') = user_subscriptions (store s)" using s' by simp
  have same: "due_info E' (store s') a b c = due_info E' (store s) a b c" for E' a b c
    using subs by (intro ext) (simp add: due_info_def)
  show "due_list E t a b v s' = filter (\<lambda>x. ri_TaskID x \<noteq> i) (due_list E t a b v s)"
    if "reminderSentCol v = reminderSentCol w"
    unfolding due_list_def s' same [unfolded s']
    by (simp, rule map_filter_marked) (auto simp: due_info_marked that dest: due_info_id)
  show "due_list E t a b v s' = due_list E t a b v s" if "reminderSentCol v \<noteq> reminderSentCol w"
    unfolding due_list_def s' same [unfolded s']
    by (simp, rule map_filter_same) (auto simp: due_info_marked that)
qed

lemma MarkReminderSent_cases:
  assumes "repo_MarkReminderSent E i w s = (r, s')" and "pg_uuid E i = Some i"
  obtains (kept) x where "r = Inl x" "store s' = store s"
  | (marked) "store s' = (store s)\<lparr>tasks := update_where (\<lambda>r. tr_task_id r = i)
      (set_sent_at (reminderSentCol w) (now E)) (tasks (store s))\<rparr>"
proof -
  obtain v where v: "pg_run (mark_sent_sql E (reminderSentCol w) i) s = (v, s')"
    using assms(1) by (auto simp: repo_MarkReminderSent_def wrap_err_def Let_def split: prod.splits sum.splits)
  then show ?thesis
    by (cases rule: pg_run_cases)
      (use assms v kept marked in \<open>auto simp: repo_MarkReminderSent_def Let_def mark_sent_sql_def uuid_arg_def\<close>)
qed

interpretation pg_reminders: reminder_store "\<lambda>t. repo_FindTasksDueForReminder (E\<lparr>now := t\<rparr>)"
  "\<lambda>t. repo_MarkReminderSent (E\<lparr>now := t\<rparr>)" "due_list E" task_ids "ids_canonical E" healthy for E
proof
  fix s s' :: pg and e a b w l and r :: "go_err + reminder_info list"
  have "store s' = store s" if "repo_FindTasksDueForReminder (E\<lparr>now := e\<rparr>) a b w s = (r, s')" for r
    using that by (auto simp: repo_FindTasksDueForReminder_def wrap_err_def Let_def
        split: prod.splits sum.splits dest: pg_query_store)
  then show "ids_canonical E s' \<and> due_list E e' a' b' w' s' = due_list E e' a' b' w' s \<and> task_ids s' = task_ids s"
    if "ids_canonical E s" "repo_FindTasksDueForReminder (E\<lparr>now := e\<rparr>) a b w s = (r, s')" for e' a' b' w'
    using that by (simp add: ids_canonical_def due_list_def task_ids_def)
  show "l = due_list E e a b w s" if "repo_FindTasksDueForReminder (E\<lparr>now := e\<rparr>) a b w s = (Inr l, s')"
    using that pg_query_Inr
    by (fastforce simp: repo_FindTasksDueForReminder_def find_due_sql_def due_list_def Let_def)
  show "repo_FindTasksDueForReminder (E\<lparr>now := e\<rparr>) a b w s = (Inr (due_list E e a b w s), s)" if "healthy s"
    using that
    by (simp add: repo_FindTasksDueForReminder_def find_due_sql_def due_list_def healthy_def pg_query_healthy)
  have "subseq (map ri_TaskID (List.map_filter f rs)) (map tr_task_id rs)"
    if "\<And>r x. f r = Some x \<Longrightarrow> ri_TaskID x = tr_task_id r" for f rs
    using that by (induction rs) (auto simp: List.map_filter_simps split: option.splits)
  then show "distinct (map ri_TaskID (due_list E e a b w s))" if "ids_canonical E s"
    using that unfolding due_list_def ids_canonical_def by (metis due_info_id subseq_distinct)
  show "ri_TaskID x \<in> task_ids s" if "x \<in> set (due_list E e a b w s)" for x
    using that due_info_id by (fastforce simp: due_list_def task_ids_def List.map_filter_def)
next
  fix s s' :: pg and e w i and m :: "go_err + unit"
  assume ok: "ids_canonical E s" and i: "i \<in> task_ids s"
    and run: "repo_MarkReminderSent (E\<lparr>now := e\<rparr>) i w s = (m, s')"
  have id: "pg_uuid (E\<lparr>now := e\<rparr>) i = Some i" using ok i by (auto simp: ids_canonical_def task_ids_def)
  have ids: "map tr_task_id (update_where P (set_sent_at c t) rs) = map tr_task_id rs" for P c t rs
    by (rule map_update_where) simp
  have kept: "map tr_task_id (tasks (store s')) = map tr_task_id (tasks (store s))"
    using run id by (cases rule: MarkReminderSent_cases) (auto simp: ids)
  have known: "task_ids s' = task_ids s"
    using arg_cong [OF kept, of set] by (simp add: task_ids_def)
  have canon: "ids_canonical E q \<longleftrightarrow> distinct (map tr_task_id (tasks (store q)))
      \<and> (\<forall>j \<in> task_ids q. pg_uuid E j = Some j)" for q
    by (simp add: ids_canonical_def task_ids_def)
  show "ids_canonical E s' \<and> task_ids s' = task_ids s"
    using ok known by (simp add: canon kept)
  show "due_list E e' a' b' w' s' = due_list E e' a' b' w' s
      \<or> reminderSentCol w' = reminderSentCol w
        \<and> due_list E e' a' b' w' s' = filter (\<lambda>x. ri_TaskID x \<noteq> i) (due_list E e' a' b' w' s)" for e' a' b' w'
    using run id
  proof (cases rule: MarkReminderSent_cases)
    case (kept x)
    then show ?thesis by (simp add: due_list_def)
  next
    case marked
    from marked_due [OF this] show ?thesis by blast
  qed
  show "healthy s' \<and> m = Inr () \<and> (reminderSentCol w' = reminderSentCol w
        \<longrightarrow> due_list E e' a' b' w' s' = filter (\<lambda>x. ri_TaskID x \<noteq> i) (due_list E e' a' b' w' s))"
    if "healthy s" for e' a' b' w'
  proof -
    have "s' = s\<lparr>store := (store s)\<lparr>tasks := update_where (\<lambda>r. tr_task_id r = i)
      (set_sent_at (reminderSentCol w) e) (tasks (store s))\<rparr>\<rparr>" "m = Inr ()"
      using run that id
      by (simp_all add: repo_MarkReminderSent_def healthy_def pg_run_healthy mark_sent_sql_def uuid_arg_def Let_def)
    then show ?thesis using that marked_due(1) [where s' = s' and s = s and i = i and w = w and v = w'] by (simp add: healthy_def)
  qed
qed

interpretation worker: reminder_worker "\<lambda>t. repo_FindTasksDueForReminder (E\<lparr>now := t\<rparr>)"
  "\<lambda>t. repo_MarkReminderSent (E\<lparr>now := t\<rparr>)" "due_list E" task_ids "ids_canonical E" healthy
  "SendReminder cfg" notified clear_replies good_replies for E cfg
  by unfold_locales

section \<open>Properties of the reminders\<close>

lemma distinct_by_class:
  "(\<And>c. distinct (map f (filter (\<lambda>x. g x = c) xs))) \<Longrightarrow> distinct (map (\<lambda>x. (f x, g x)) xs)"
proof (induction xs)
  case (Cons x xs)
  have "distinct (map f (filter (\<lambda>y. g y = c) xs))" for c
    using Cons.prems [of c] by (auto split: if_splits)
  moreover have "f x \<notin> f ` {y \<in> set xs. g y = g x}" using Cons.prems [of "g x"] by simp
  ultimately show ?case using Cons.IH by (auto simp: image_iff)
qed simp

lemma subseq_appendD: "subseq (xs @ ys) zs \<Longrightarrow> subseq xs zs"
  by (rule subseq_order.trans [OF subseq_rev_drop_many [OF subseq_order.order_refl]])

lemma due_list_info:
  "x \<in> set (due_list E t a b w s) \<Longrightarrow>
     \<exists>r \<in> set (tasks (store s)). due_info (E\<lparr>now := t\<rparr>) (store s) (wall_clock E a) (wall_clock E b)
       (reminderSentCol w) r = Some x"
  by (auto simp: due_list_def List.map_filter_def)

lemma worker_windows:
  "map rw_name reminderWindows = [''60m'', ''15m'', ''5m'']"
  "map (reminderSentCol \<circ> rw_window) reminderWindows
     = [''reminder_60m_sent_at'', ''reminder_15m_sent_at'', ''reminder_5m_sent_at'']"
  by (simp_all add: reminderWindows_def reminderSentCol_def)

text \<open>What one goroutine sent names every task at most once.\<close>

lemma job_reminds_once:
  assumes ok: "worker.job_ok E t0 t s ns D j" and "distinct (map ri_TaskID D)"
  shows "distinct (map rn_TaskID (filter (\<lambda>n. rn_ReminderType n = rw_name (job_win j)) ns))"
proof -
  obtain ds where ds: "filter (\<lambda>n. rn_ReminderType n = rw_name (job_win j)) ns = map (notification_of (job_win j)) ds"
    "subseq (ds @ worker.to_send E t0 t s j) D"
    using ok unfolding worker.job_ok_def by (elim exE conjE)
  have "subseq ds D" using ds(2) by (rule subseq_appendD)
  from subseq_distinct_map [OF assms(2) this] show ?thesis
    unfolding ds(1) by (simp add: comp_def notification_of_def)
qed

text \<open>C17: the worker with a goroutine per window, under any interleaving of their calls and
  any failures of database and gateway: a tick sends a task at most one reminder of each
  kind, and only for an unfinished task whose owner has an active subscription with a chat,
  whose deadline lies in the window, by the clock of the process's zone, and which had no such
  reminder before.\<close>

theorem tick_reminds_due_once:
  assumes "processTick E cfg schedule (s, g) = (js, s', g')" and "ids_canonical E s"
  shows "\<exists>ns. notified g' = notified g @ ns
     \<and> distinct (map (\<lambda>n. (rn_TaskID n, rn_ReminderType n)) ns)
     \<and> (\<forall>n \<in> set ns. \<exists>win \<in> set reminderWindows. \<exists>r \<in> set (tasks (store s)). \<exists>x.
          due_info E (store s) (wall_clock E (now E + rw_minBound win)) (wall_clock E (now E + rw_maxBound win))
            (reminderSentCol (rw_window win)) r = Some x \<and> n = notification_of win x)"
proof -
  let ?js = "map Waiting reminderWindows"
  let ?Ds = "map (\<lambda>win. worker.due_in E (now E) (now E) win s) reminderWindows"
  have E: "E\<lparr>now := now E\<rparr> = E" by simp
  have due_in: "worker.due_in E e t win s = due_list E e (t + rw_minBound win) (t + rw_maxBound win) (rw_window win) s"
    for e t win by (simp add: worker.due_in_def)
  have win: "job_win (?js ! i) = reminderWindows ! i" "?Ds ! i = worker.due_in E (now E) (now E) (reminderWindows ! i) s"
    if "i < length ?js" for i using that by simp_all
  have jobs: "\<forall>i < length ?js. worker.job_ok E (now E) (now E) s [] (?Ds ! i) (?js ! i)"
    by (auto simp: worker.job_ok_def)
  have run: "fold (sched_step (repo_FindTasksDueForReminder (E\<lparr>now := now E\<rparr>))
      (repo_MarkReminderSent (E\<lparr>now := now E\<rparr>)) (SendReminder cfg) (now E)) schedule (?js, s, g) = (js, s', g')"
    using assms(1) by (simp add: processTick_def)
  have wins: "distinct (map (rw_name \<circ> job_win) ?js)" "distinct (map (reminderSentCol \<circ> rw_window \<circ> job_win) ?js)"
    using worker_windows by (simp_all add: comp_def)
  have known: "\<forall>D \<in> set ?Ds. ri_TaskID ` set D \<subseteq> task_ids s"
    using pg_reminders.due_known [of _ E _ _ _ _ s] by (auto simp: due_in)
  obtain ns where ns: "notified g' = notified g @ ns" "map job_win js = map job_win ?js"
    "\<forall>i < length ?js. worker.job_ok E (now E) (now E) s' ns (?Ds ! i) (js ! i)"
    "\<forall>n \<in> set ns. \<exists>i < length ?js. n \<in> notification_of (job_win (?js ! i)) ` set (?Ds ! i)"
    using worker.schedule_effect [OF run assms(2), of "notified g" "[]" ?Ds] jobs known wins by auto
  have dist: "distinct (map rn_TaskID (filter (\<lambda>n. rn_ReminderType n = c) ns))" for c
  proof (cases "\<exists>i < length ?js. rw_name (reminderWindows ! i) = c")
    case True
    then obtain i where i: "i < length ?js" "rw_name (reminderWindows ! i) = c" by blast
    have jw: "job_win (js ! i) = reminderWindows ! i" using ns(2) i(1) by (metis length_map nth_map win(1))
    have job: "worker.job_ok E (now E) (now E) s' ns (?Ds ! i) (js ! i)" using ns(3) i(1) by blast
    have "distinct (map ri_TaskID (?Ds ! i))"
      using pg_reminders.due_distinct [OF assms(2)] win(2) [OF i(1)] by (simp add: due_in)
    from job_reminds_once [OF job this] show ?thesis unfolding jw i(2) .
  next
    case False
    then have "rn_ReminderType n \<noteq> c" if "n \<in> set ns" for n
      using ns(4) that win(1) by (force simp: notification_of_def)
    then have "filter (\<lambda>n. rn_ReminderType n = c) ns = []" by (simp add: filter_empty_conv)
    then show ?thesis by simp
  qed
  have "\<exists>win \<in> set reminderWindows. \<exists>r \<in> set (tasks (store s)). \<exists>x.
          due_info E (store s) (wall_clock E (now E + rw_minBound win)) (wall_clock E (now E + rw_maxBound win))
            (reminderSentCol (rw_window win)) r = Some x \<and> n = notification_of win x" if h: "n \<in> set ns" for n
  proof -
    obtain i where "i < length ?js" "n \<in> notification_of (job_win (?js ! i)) ` set (?Ds ! i)"
      using bspec [OF ns(4) h] by (elim exE conjE)
    then obtain x where i: "i < length ?js" "x \<in> set (?Ds ! i)" "n = notification_of (reminderWindows ! i) x"
      unfolding win(1) [OF \<open>i < length ?js\<close>] by (elim imageE)
    have "x \<in> set (due_list E (now E) (now E + rw_minBound (reminderWindows ! i))
        (now E + rw_maxBound (reminderWindows ! i)) (rw_window (reminderWindows ! i)) s)"
      using i(2) win(2) [OF i(1)] by (simp add: due_in)
    from due_list_info [OF this] obtain r where "r \<in> set (tasks (store s))"
      "due_info E (store s) (wall_clock E (now E + rw_minBound (reminderWindows ! i)))
        (wall_clock E (now E + rw_maxBound (reminderWindows ! i)))
        (reminderSentCol (rw_window (reminderWindows ! i))) r = Some x"
      unfolding E by blast
    moreover have "reminderWindows ! i \<in> set reminderWindows" using i(1) by simp
    ultimately show ?thesis using i(3) by blast
  qed
  then show ?thesis using ns(1) distinct_by_class [OF dist] by blast
qed

text \<open>One call of \<open>main.go\<close>'s worker as the locale sees it.\<close>

definition poll_windows :: "time \<times> time \<times> time \<Rightarrow> (time \<times> time \<times> reminder_win) list" where
  "poll_windows ts = (case ts of (t60, t15, t5) \<Rightarrow>
     [(t60, t60, window_around Window60m (minutes 60) ''60m''),
      (t15, t15, window_around Window15m (minutes 15) ''15m''),
      (t5, t5, window_around Window5m (minutes 5) ''5m'')])"

lemma fold_polls:
  "fold (reminder_poll E cfg) polls sg
     = fold (\<lambda>(e, t0, win). processWindow (repo_FindTasksDueForReminder (E\<lparr>now := e\<rparr>))
         (repo_MarkReminderSent (E\<lparr>now := e\<rparr>)) (SendReminder cfg) t0 win)
       (concat (map poll_windows polls)) sg"
  by (induction polls arbitrary: sg)
    (auto simp: reminder_poll_def poll_windows_def window_at_def split: prod.splits)

text \<open>over any number of ticks of \<open>main.go\<close>'s worker, at whatever times, a task gets at
  most one reminder of each kind, as long as the database answers and the gateway neither
  refuses a notification nor loses its answer (notifications that do not arrive are tried
  again).\<close>

theorem polls_remind_once:
  assumes "fold (reminder_poll E cfg) polls (s, g) = (s', g')"
    and "ids_canonical E s" and "healthy s" and "clear_replies g" and "gw_received g = []"
  shows "distinct (map (\<lambda>n. (rn_TaskID n, rn_ReminderType n)) (notified g'))"
proof -
  let ?W = "{window_around Window60m (minutes 60) ''60m'', window_around Window15m (minutes 15) ''15m'',
      window_around Window5m (minutes 5) ''5m''}"
  have W: "\<forall>x \<in> set (concat (map poll_windows polls)). snd (snd x) \<in> ?W"
    by (auto simp: poll_windows_def split: prod.splits)
  have names: "reminderSentCol (rw_window v) = reminderSentCol (rw_window w)"
    if "v \<in> ?W" "w \<in> ?W" "rw_name v = rw_name w" for v w
    using that by (auto simp: window_around_def)
  have empty: "notified g = []" using assms(5) by (simp add: notified_def)
  show ?thesis
    by (rule worker.rounds_once [OF assms(1) [unfolded fold_polls] assms(2,3,4) W names])
      (simp_all add: empty)
qed

text \<open>C36: when database and gateway answer, one tick of \<open>main.go\<close>'s worker sends a reminder
  for every task that is due in its three windows, each once, and none of these tasks is
  due for the same kind of reminder afterwards, whenever one looks.\<close>

theorem poll_reminds_all_due:
  assumes "reminder_poll E cfg (t60, t15, t5) (s, g) = (s', g')"
    and "ids_canonical E s" and "healthy s" and "good_replies g"
  shows "\<exists>ds60 ds15 ds5.
       ds60 = due_list E t60 (t60 + minutes 59) (t60 + minutes 61) Window60m s
     \<and> ds15 = due_list E t15 (t15 + minutes 14) (t15 + minutes 16) Window15m s
     \<and> ds5 = due_list E t5 (t5 + minutes 4) (t5 + minutes 6) Window5m s
     \<and> notified g' = notified g
          @ map (notification_of (window_around Window60m (minutes 60) ''60m'')) ds60
          @ map (notification_of (window_around Window15m (minutes 15) ''15m'')) ds15
          @ map (notification_of (window_around Window5m (minutes 5) ''5m'')) ds5
     \<and> (\<forall>t a b. ri_TaskID ` set (due_list E t a b Window60m s') \<inter> ri_TaskID ` set ds60 = {}
          \<and> ri_TaskID ` set (due_list E t a b Window15m s') \<inter> ri_TaskID ` set ds15 = {}
          \<and> ri_TaskID ` set (due_list E t a b Window5m s') \<inter> ri_TaskID ` set ds5 = {})"
proof -
  have clear: "clear_replies g" if "good_replies g" for g
    using that by (auto simp: clear_replies_def good_replies_def list_all_iff)
  have step: "\<exists>ds. ds = due_list E t (t + rw_minBound win) (t + rw_maxBound win) (rw_window win) s
      \<and> notified g' = notified g @ map (notification_of win) ds
      \<and> ids_canonical E s' \<and> healthy s' \<and> good_replies g'
      \<and> (\<forall>t a b w. due_list E t a b w s' = (if reminderSentCol w = reminderSentCol (rw_window win)
            then filter (\<lambda>x. ri_TaskID x \<notin> ri_TaskID ` set ds) (due_list E t a b w s)
            else due_list E t a b w s))"
    if run: "window_at E cfg win t (s, g) = (s', g')"
      and h: "ids_canonical E s" "healthy s" "good_replies g" for win t s g s' g'
    using worker.window_effect [OF run [unfolded window_at_def] h(1)] h(2,3) clear [OF h(3)]
    by (auto simp: worker.due_in_def)
  obtain s1 g1 where r1: "window_at E cfg (window_around Window60m (minutes 60) ''60m'') t60 (s, g) = (s1, g1)"
    by force
  obtain s2 g2 where r2: "window_at E cfg (window_around Window15m (minutes 15) ''15m'') t15 (s1, g1) = (s2, g2)"
    by force
  have r3: "window_at E cfg (window_around Window5m (minutes 5) ''5m'') t5 (s2, g2) = (s', g')"
    using assms(1) r1 r2 by (simp add: reminder_poll_def)
  note a = step [OF r1 assms(2-4)]
  from a have k1: "ids_canonical E s1" "healthy s1" "good_replies g1" by blast+
  note b = step [OF r2 k1]
  from b have k2: "ids_canonical E s2" "healthy s2" "good_replies g2" by blast+
  note c = step [OF r3 k2]
  show ?thesis
    using a b c by (auto simp: window_around_def reminderSentCol_def minutes_def)
qed

definition sample_due_row :: task_row where
  "sample_due_row = \<lparr>tr_task_id = ''t'', tr_title = ''call'', tr_description = [], tr_status = ''2'',
     tr_priory = ''red'', tr_due_date = minutes 60, tr_created_at = 0, tr_user_id = ''u'', tr_tag_id = None,
     tr_reminder_60m_sent_at = None, tr_reminder_15m_sent_at = None, tr_reminder_5m_sent_at = None,
     tr_admin_deleted = None, tr_admin_deleted_at = None, tr_user_ack = None\<rparr>"

definition sample_subscriber :: subscription_row where
  "sample_subscriber = \<lparr>us_user_id = ''u'', us_name = ''Ann'', us_has_subscription = True,
     us_expires_at = Some (minutes 9000), us_telegram_chat_id = Some 7, us_updated_at = 0\<rparr>"

definition sample_pg_due :: pg where
  "sample_pg_due = \<lparr>store = empty_db\<lparr>tasks := [sample_due_row], user_subscriptions := [sample_subscriber]\<rparr>,
     faults = [], ctr = 0\<rparr>"

definition sample_gateway :: gateway where
  "sample_gateway = \<lparr>gw_replies = [], gw_received = []\<rparr>"

definition sample_notify :: notify_cfg where
  "sample_notify = \<lparr>nc_gatewayHost = ''gw'', nc_gatewayPort = ''80'', nc_notifySecret = ''k'',
     nc_hmac = (\<lambda>k n. k @ rn_TaskID n)\<rparr>"

lemma sample_due_facts:
  "ids_canonical sample_env sample_pg_due" "healthy sample_pg_due"
  "clear_replies sample_gateway" "good_replies sample_gateway" "gw_received sample_gateway = []"
  "notified sample_gateway = []"
  by (simp_all add: ids_canonical_def sample_pg_due_def sample_due_row_def sample_env_def empty_db_def
      healthy_def clear_replies_def good_replies_def sample_gateway_def notified_def)

theorem tick_reminds_due_once_witness:
  "\<exists>n. notified (snd (snd (processTick sample_env sample_notify [1, 0, 0, 0] (sample_pg_due, sample_gateway)))) = [n]
     \<and> rn_TaskID n = ''t'' \<and> rn_ReminderType n = ''60m''
     \<and> (\<exists>win \<in> set reminderWindows. \<exists>r \<in> set (tasks (store sample_pg_due)). \<exists>x.
          due_info sample_env (store sample_pg_due) (1000 + rw_minBound win) (1000 + rw_maxBound win)
            (reminderSentCol (rw_window win)) r = Some x \<and> n = notification_of win x)"
proof -
  obtain js s' g' where t: "processTick sample_env sample_notify [1, 0, 0, 0] (sample_pg_due, sample_gateway) = (js, s', g')"
    by (metis prod_cases3)
  have "map (\<lambda>n. (rn_TaskID n, rn_ReminderType n)) (notified (snd (snd
      (processTick sample_env sample_notify [1, 0, 0, 0] (sample_pg_due, sample_gateway))))) = [(''t'', ''60m'')]"
    by code_simp
  then have "map (\<lambda>n. (rn_TaskID n, rn_ReminderType n)) (notified g') = [(''t'', ''60m'')]" unfolding t by simp
  then obtain n where n: "notified g' = [n]" "rn_TaskID n = ''t''" "rn_ReminderType n = ''60m''" by auto
  have "now sample_env = 1000" by (simp add: sample_env_def)
  with tick_reminds_due_once [OF t sample_due_facts(1)] n show ?thesis
    unfolding t by (intro exI [of _ n]) (simp add: sample_due_facts(6))
qed

theorem polls_remind_once_witness:
  "distinct (map (\<lambda>n. (rn_TaskID n, rn_ReminderType n)) (notified (snd
     (fold (reminder_poll sample_env sample_notify) [(0, 0, 0), (minutes 1, minutes 1, minutes 1)]
        (sample_pg_due, sample_gateway)))))"
proof -
  obtain s' g' where t: "fold (reminder_poll sample_env sample_notify) [(0, 0, 0), (minutes 1, minutes 1, minutes 1)]
      (sample_pg_due, sample_gateway) = (s', g')" by force
  from polls_remind_once [OF t sample_due_facts(1,2,3,5)] show ?thesis unfolding t by simp
qed

theorem poll_reminds_all_due_witness:
  "map rn_TaskID (notified (snd (reminder_poll sample_env sample_notify (0, 0, 0) (sample_pg_due, sample_gateway))))
     = [''t'']"
proof -
  obtain s' g' where t: "reminder_poll sample_env sample_notify (0, 0, 0) (sample_pg_due, sample_gateway) = (s', g')"
    by force
  have "map ri_TaskID (due_list sample_env 0 (0 + minutes 59) (0 + minutes 61) Window60m sample_pg_due) = [''t'']"
    "due_list sample_env 0 (0 + minutes 14) (0 + minutes 16) Window15m sample_pg_due = []"
    "due_list sample_env 0 (0 + minutes 4) (0 + minutes 6) Window5m sample_pg_due = []"
    by (simp_all add: due_list_def List.map_filter_simps due_info_def sample_pg_due_def sample_due_row_def
        sample_subscriber_def empty_db_def minutes_def sent_at_def reminderSentCol_def)
  then show ?thesis
    using poll_reminds_all_due [OF t sample_due_facts(1,2,4)]
    by (auto simp: t sample_due_facts(6) notification_of_def comp_def)
qed

section \<open>What the worker does to the tables\<close>

context subscription_repository
begin

lemma remind_loop_keeps:
  "remind_loop (repo_MarkReminderSent E) send win ts (s, g) = (s', g') \<Longrightarrow> R (store s) (store s')"
proof (induction ts arbitrary: s g)
  case (Cons t ts)
  obtain v g1 where v: "send (notification_of win t) g = (v, g1)" by force
  have "R (store s) (store (snd (repo_MarkReminderSent E (ri_TaskID t) (rw_window win) s)))"
    using keeps_repo_MarkReminderSent by (auto simp: keeps_def)
  with Cons v show ?case by (cases v) (auto intro: R_trans)
qed (simp add: R_refl)

lemma window_at_keeps:
  assumes "R d (store (fst sg))"
  shows "R d (store (fst (window_at E N win t sg)))"
proof -
  obtain s g s' g' where sg: "sg = (s, g)" and run: "window_at E N win t (s, g) = (s', g')" by force
  obtain v s1 where v: "repo_FindTasksDueForReminder (E\<lparr>now := t\<rparr>) (t + rw_minBound win) (t + rw_maxBound win)
      (rw_window win) s = (v, s1)" by force
  have "R (store s) (store s1)" using keepsD [OF keeps_repo_FindTasksDueForReminder v] .
  with run v have "R (store s) (store s')"
    by (cases v) (auto simp: window_at_def processWindow_def intro: R_trans remind_loop_keeps)
  with assms show ?thesis by (auto simp: sg run intro: R_trans)
qed

lemma reminder_poll_keeps:
  assumes "reminder_poll E N ts (s, g) = (s', g')"
  shows "R (store s) (store s')"
proof -
  have "R (store s) (store (fst (reminder_poll E N ts (s, g))))"
    by (cases ts) (auto simp: reminder_poll_def R_refl intro!: window_at_keeps)
  with assms show ?thesis by simp
qed

end

end
