(* ===== verification/Cache.thy ===== *)
theory Cache
  imports Mapper Filters
begin

text \<open>
  The Redis cache of tasks and task lists (\<open>tasks/repository/redis/redis.go\<close>), over the
  client interface of \<open>pkg/client/redis/redis.go\<close>. The server is not part of the
  repository: its commands are a parameter, the record \<open>redis\<close>, and what the code relies
  on is the locale \<open>redis_store\<close>.
\<close>

section \<open>Documents\<close>

record cache_subtask =
  cs_ID :: string
  cs_TaskID :: string
  cs_Title :: string
  cs_IsDone :: bool
  cs_Order :: int

record cache_task =
  ct_ID :: string
  ct_Title :: string
  ct_Description :: string
  ct_Priority :: string
  ct_Status :: string
  ct_DueDate :: time
  ct_UserID :: string
  ct_TagID :: "string option"
  ct_TagName :: string
  ct_CreatedAt :: time
  ct_Subtasks :: "cache_subtask list"

record cache_list_tasks =
  cl_ID :: string
  cl_Title :: string
  cl_Priority :: string
  cl_Status :: string
  cl_DueDate :: time
  cl_UserID :: string
  cl_TagID :: "string option"
  cl_TagName :: "string option"
  cl_AdminDeleted :: bool
  cl_AdminDeletedAt :: "time option"

text \<open>\<open>model.Tags\<close> of the tags component, cached in the same store.\<close>

record tags =
  tg_Id :: string
  tg_Name :: string
  tg_UserID :: "string option"

text \<open>
  The JSON documents the service stores, by the Go value they were marshalled from. Every
  kind of key holds one kind of document; decoding a document of another kind counts as an
  error of \<open>json.Unmarshal\<close>.
\<close>

datatype document =
    DocTask cache_task
  | DocList "cache_list_tasks list"
  | DocTag tags
  | DocTagDTO string
  | DocTagList "tags list"

definition toCacheListTasks :: "task_list \<Rightarrow> cache_list_tasks" where
  "toCacheListTasks t =
     \<lparr>cl_ID = tl_ID t, cl_Title = tl_Title t, cl_Priority = tl_Priory t, cl_Status = tl_Status t,
      cl_DueDate = tl_DueDate t, cl_UserID = tl_UserID t, cl_TagID = tl_TagID t,
      cl_TagName = tl_TagName t, cl_AdminDeleted = tl_AdminDeleted t,
      cl_AdminDeletedAt = tl_AdminDeletedAt t\<rparr>"

definition fromCacheListTasks :: "cache_list_tasks \<Rightarrow> task_list" where
  "fromCacheListTasks c =
     \<lparr>tl_ID = cl_ID c, tl_Title = cl_Title c, tl_Description = [], tl_Status = cl_Status c,
      tl_Priory = cl_Priority c, tl_DueDate = cl_DueDate c, tl_UserID = cl_UserID c,
      tl_TagID = cl_TagID c, tl_TagName = cl_TagName c, tl_AdminDeleted = cl_AdminDeleted c,
      tl_AdminDeletedAt = cl_AdminDeletedAt c\<rparr>"

definition toCacheTask :: "task \<Rightarrow> cache_task" where
  "toCacheTask t =
     \<lparr>ct_ID = t_ID t, ct_Title = t_Title t, ct_Description = t_Description t,
      ct_Priority = t_Priority t, ct_Status = t_Status t, ct_DueDate = t_DueDate t,
      ct_UserID = t_UserID t, ct_TagID = t_TagID t, ct_TagName = t_TagName t,
      ct_CreatedAt = t_CreatedAt t,
      ct_Subtasks = map (\<lambda>s. \<lparr>cs_ID = sub_ID s, cs_TaskID = sub_TaskID s, cs_Title = sub_Title s,
        cs_IsDone = sub_IsDone s, cs_Order = sub_Order s\<rparr>) (t_Subtasks t)\<rparr>"

definition fromCacheTask :: "cache_task \<Rightarrow> task" where
  "fromCacheTask c =
     \<lparr>t_ID = ct_ID c, t_Title = ct_Title c, t_Description = ct_Description c,
      t_Priority = ct_Priority c, t_Status = NewStatus (ct_Status c), t_DueDate = ct_DueDate c,
      t_UserID = ct_UserID c, t_TagID = ct_TagID c, t_TagName = ct_TagName c,
      t_CreatedAt = ct_CreatedAt c,
      t_Subtasks = map (\<lambda>s. \<lparr>sub_ID = cs_ID s, sub_TaskID = cs_TaskID s, sub_Title = cs_Title s,
        sub_IsDone = cs_IsDone s, sub_Order = cs_Order s\<rparr>) (ct_Subtasks c),
      t_Reminder60mSentAt = None, t_Reminder15mSentAt = None, t_Reminder5mSentAt = None\<rparr>"

section \<open>The client\<close>

text \<open>
  The commands of the client the code calls. Each takes the instant at which the server
  executes it, since values expire. \<open>rd_Exec\<close> is \<open>Pipeline().Exec\<close> of the collected
  commands. \<open>redis.Nil\<close> is the error of a missing key.
\<close>

datatype command =
    CSet string document time
  | CSAdd string string
  | CExpire string time

definition RedisNil :: go_err where
  "RedisNil = Msg ''redis: nil''"

record 'r redis =
  rd_Get :: "time \<Rightarrow> string \<Rightarrow> 'r \<Rightarrow> (go_err + document) \<times> 'r"
  rd_Set :: "time \<Rightarrow> string \<Rightarrow> document \<Rightarrow> time \<Rightarrow> 'r \<Rightarrow> (go_err + unit) \<times> 'r"
  rd_Del :: "time \<Rightarrow> string list \<Rightarrow> 'r \<Rightarrow> (go_err + unit) \<times> 'r"
  rd_SMembers :: "time \<Rightarrow> string \<Rightarrow> 'r \<Rightarrow> (go_err + string list) \<times> 'r"
  rd_Exec :: "time \<Rightarrow> command list \<Rightarrow> 'r \<Rightarrow> (go_err + unit) \<times> 'r"

definition hours :: "int \<Rightarrow> time" where
  "hours n = n * 60 * 60 * 1000000"

section \<open>The cache repository\<close>

definition task_key :: "string \<Rightarrow> string" where
  "task_key i = ''task:'' @ i"

definition user_tasks_key :: "string \<Rightarrow> string" where
  "user_tasks_key u = ''user_tasks:'' @ u"

definition tag_tasks_key :: "string \<Rightarrow> string" where
  "tag_tasks_key i = ''tag_tasks:'' @ i"

definition list_keys_key :: "string \<Rightarrow> string" where
  "list_keys_key u = ''user_list_keys:'' @ u"

definition set_task_cmds :: "task \<Rightarrow> command list" where
  "set_task_cmds t =
     [CSet (task_key (t_ID t)) (DocTask (toCacheTask t)) (hours 24),
      CSAdd (user_tasks_key (t_UserID t)) (t_ID t)]
     @ (case t_TagID t of
          None \<Rightarrow> []
        | Some i \<Rightarrow> if i \<noteq> [] then [CSAdd (tag_tasks_key i) (t_ID t)] else [])"

definition cache_SetTask :: "'r redis \<Rightarrow> time \<Rightarrow> task \<Rightarrow> 'r \<Rightarrow> (go_err + unit) \<times> 'r" where
  "cache_SetTask R tm t s = rd_Exec R tm (set_task_cmds t) s"

definition cache_GetTask :: "'r redis \<Rightarrow> time \<Rightarrow> string \<Rightarrow> 'r \<Rightarrow> (go_err + task) \<times> 'r" where
  "cache_GetTask R tm i s =
     (case rd_Get R tm (task_key i) s of
        (Inl e, s) \<Rightarrow> (Inl e, s)
      | (Inr (DocTask c), s) \<Rightarrow> (Inr (fromCacheTask c), s)
      | (Inr _, s) \<Rightarrow> (Inl (Msg ''json''), s))"

definition cache_DeleteTask :: "'r redis \<Rightarrow> time \<Rightarrow> string \<Rightarrow> 'r \<Rightarrow> (go_err + unit) \<times> 'r" where
  "cache_DeleteTask R tm i s = rd_Del R tm [task_key i] s"

definition cache_GetList :: "'r redis \<Rightarrow> time \<Rightarrow> string \<Rightarrow> 'r \<Rightarrow> (go_err + task_list list) \<times> 'r" where
  "cache_GetList R tm key s =
     (case rd_Get R tm key s of
        (Inl e, s) \<Rightarrow> if errors_Is e RedisNil then (Inr [], s) else (Inl e, s)
      | (Inr (DocList cached), s) \<Rightarrow> (Inr (map fromCacheListTasks cached), s)
      | (Inr _, s) \<Rightarrow> (Inl (Wrap ''deserialize cached tasks'' (Msg ''json'')), s))"

definition set_list_cmds :: "string \<Rightarrow> task_list list \<Rightarrow> command list" where
  "set_list_cmds key ts =
     (let userListSetKey = userListKey key
      in [CSet key (DocList (map toCacheListTasks ts)) (hours 24)]
         @ (if userListSetKey \<noteq> []
            then [CSAdd userListSetKey key, CExpire userListSetKey (hours 25)] else []))"

definition cache_SetList :: "'r redis \<Rightarrow> time \<Rightarrow> string \<Rightarrow> task_list list \<Rightarrow> 'r \<Rightarrow> (go_err + unit) \<times> 'r" where
  "cache_SetList R tm key ts s = rd_Exec R tm (set_list_cmds key ts) s"

text \<open>
  The three invalidations read a tracking set and delete what it names and the set itself.
  \<open>msg\<close> is the text the error is wrapped with.
\<close>

definition invalidate ::
    "'r redis \<Rightarrow> time \<Rightarrow> string \<Rightarrow> string \<Rightarrow> (string \<Rightarrow> string) \<Rightarrow> 'r \<Rightarrow> (go_err + unit) \<times> 'r" where
  "invalidate R tm msg setKey keyOf s =
     (case rd_SMembers R tm setKey s of
        (Inl e, s) \<Rightarrow> if errors_Is e RedisNil then (Inr (), s) else (Inl (Wrap msg e), s)
      | (Inr members, s) \<Rightarrow>
          if length members = 0 then (Inr (), s)
          else rd_Del R tm (map keyOf members @ [setKey]) s)"

definition cache_InvalidateUserLists :: "'r redis \<Rightarrow> time \<Rightarrow> string \<Rightarrow> 'r \<Rightarrow> (go_err + unit) \<times> 'r" where
  "cache_InvalidateUserLists R tm userID s =
     invalidate R tm ''get user list keys'' (list_keys_key userID) (\<lambda>k. k) s"

definition cache_InvalidateUserTaskCaches :: "'r redis \<Rightarrow> time \<Rightarrow> string \<Rightarrow> 'r \<Rightarrow> (go_err + unit) \<times> 'r" where
  "cache_InvalidateUserTaskCaches R tm userID s =
     invalidate R tm ''get user_tasks members'' (user_tasks_key userID) task_key s"

definition cache_InvalidateTagTasks :: "'r redis \<Rightarrow> time \<Rightarrow> string \<Rightarrow> 'r \<Rightarrow> (go_err + unit) \<times> 'r" where
  "cache_InvalidateTagTasks R tm tagID s =
     invalidate R tm ''get tag_tasks members'' (tag_tasks_key tagID) task_key s"

section \<open>What the cache relies on\<close>

text \<open>
  What a Redis server keeps: values with their expiry, sets with an optional one. A value
  or set past its expiry is gone. \<open>run_command\<close> and \<open>drop_keys\<close> are the documented effects
  of \<open>SET key value EX ttl\<close>, \<open>SADD\<close>, \<open>EXPIRE\<close> and \<open>DEL\<close>.
\<close>

record view =
  v_values :: "string \<Rightarrow> (document \<times> time) option"
  v_sets :: "string \<Rightarrow> (string list \<times> time option) option"

definition live_value :: "time \<Rightarrow> view \<Rightarrow> string \<Rightarrow> document option" where
  "live_value t v k =
     (case v_values v k of None \<Rightarrow> None | Some (d, e) \<Rightarrow> if t < e then Some d else None)"

definition live_set :: "time \<Rightarrow> view \<Rightarrow> string \<Rightarrow> (string list \<times> time option) option" where
  "live_set t v k =
     (case v_sets v k of
        None \<Rightarrow> None
      | Some (m, None) \<Rightarrow> Some (m, None)
      | Some (m, Some e) \<Rightarrow> if t < e then Some (m, Some e) else None)"

definition members_at :: "time \<Rightarrow> view \<Rightarrow> string \<Rightarrow> string set" where
  "members_at t v k = (case live_set t v k of None \<Rightarrow> {} | Some (m, e) \<Rightarrow> set m)"

fun run_command :: "time \<Rightarrow> command \<Rightarrow> view \<Rightarrow> view" where
  "run_command t (CSet k d ttl) v = v\<lparr>v_values := (v_values v)(k := Some (d, t + ttl))\<rparr>"
| "run_command t (CSAdd k m) v =
     v\<lparr>v_sets := (v_sets v)(k := (case live_set t v k of
        None \<Rightarrow> Some ([m], None) | Some (ms, e) \<Rightarrow> Some (List.insert m ms, e)))\<rparr>"
| "run_command t (CExpire k ttl) v =
     (case live_set t v k of
        None \<Rightarrow> v
      | Some (ms, e) \<Rightarrow> v\<lparr>v_sets := (v_sets v)(k := Some (ms, Some (t + ttl)))\<rparr>)"

definition drop_keys :: "string list \<Rightarrow> view \<Rightarrow> view" where
  "drop_keys ks v =
     v\<lparr>v_values := (\<lambda>k. if k \<in> set ks then None else v_values v k),
       v_sets := (\<lambda>k. if k \<in> set ks then None else v_sets v k)\<rparr>"

text \<open>
  The laws. A command that reports an error took effect or not; of a pipeline, some first
  part took effect. \<open>up\<close> says that the server answers.
\<close>

locale redis_store =
  fixes R :: "'r redis" and view :: "'r \<Rightarrow> view" and up :: "'r \<Rightarrow> bool"
  assumes get: "rd_Get R t k s = (g, s') \<Longrightarrow> view s' = view s
      \<and> (\<forall>d. g = Inr d \<longrightarrow> live_value t (view s) k = Some d)
      \<and> (up s \<longrightarrow> up s' \<and> g = (case live_value t (view s) k of None \<Rightarrow> Inl RedisNil | Some d \<Rightarrow> Inr d))"
    and set: "rd_Set R t k d ttl s = (r, s') \<Longrightarrow>
      (view s' = run_command t (CSet k d ttl) (view s) \<or> (\<exists>e. r = Inl e) \<and> view s' = view s)
      \<and> (up s \<longrightarrow> up s' \<and> r = Inr ())"
    and del: "rd_Del R t ks s = (r, s') \<Longrightarrow>
      (view s' = drop_keys ks (view s) \<or> (\<exists>e. r = Inl e) \<and> view s' = view s)
      \<and> (up s \<longrightarrow> up s' \<and> r = Inr ())"
    and smembers: "rd_SMembers R t k s = (m, s') \<Longrightarrow> view s' = view s
      \<and> (\<forall>ms. m = Inr ms \<longrightarrow> set ms = members_at t (view s) k)
      \<and> (\<forall>e. m = Inl e \<longrightarrow> \<not> errors_Is e RedisNil)
      \<and> (up s \<longrightarrow> up s' \<and> (\<exists>ms. m = Inr ms))"
    and exec: "rd_Exec R t cs s = (r, s') \<Longrightarrow>
      (\<exists>n. view s' = fold (run_command t) (take n cs) (view s))
      \<and> (r = Inr () \<longrightarrow> view s' = fold (run_command t) cs (view s))
      \<and> (up s \<longrightarrow> up s' \<and> r = Inr ())"

section \<open>Tracking\<close>

text \<open>
  A live list is a member of the tracking set of its user, which outlives it, and a live task a
  member of the set of its owner, which never expires: \<open>tracker\<close> names the set and the member.
  \<open>B\<close> are the keys this need not hold for, those whose last storing call reported an error.
\<close>

definition tracker :: "string \<Rightarrow> document \<Rightarrow> (string \<times> string) option" where
  "tracker k d =
     (case d of
        DocList l \<Rightarrow> if userListKey k \<noteq> [] then Some (userListKey k, k) else None
      | DocTask c \<Rightarrow> if take 5 k = ''task:'' then Some (user_tasks_key (ct_UserID c), drop 5 k) else None
      | _ \<Rightarrow> None)"

definition in_set :: "view \<Rightarrow> string \<Rightarrow> string \<Rightarrow> time \<Rightarrow> bool" where
  "in_set v k m e \<longleftrightarrow>
     (\<exists>ms x. v_sets v k = Some (ms, x) \<and> m \<in> set ms \<and> (case x of None \<Rightarrow> True | Some y \<Rightarrow> e \<le> y))"

definition value_ok :: "time \<Rightarrow> view \<Rightarrow> string \<Rightarrow> document \<Rightarrow> time \<Rightarrow> bool" where
  "value_ok t v k d e \<longleftrightarrow>
     e \<le> t + hours 24 \<and> (case tracker k d of None \<Rightarrow> True | Some (S, m) \<Rightarrow> in_set v S m e)"

definition cache_ok :: "string set \<Rightarrow> time \<Rightarrow> view \<Rightarrow> bool" where
  "cache_ok B t v \<longleftrightarrow>
     (\<forall>k d e. v_values v k = Some (d, e) \<longrightarrow> t < e \<longrightarrow> k \<notin> B \<longrightarrow> value_ok t v k d e)
   \<and> (\<forall>u ms x. v_sets v (list_keys_key u) = Some (ms, x) \<longrightarrow> (\<forall>k \<in> set ms. userListKey k = list_keys_key u))
   \<and> (\<forall>u ms x. v_sets v (user_tasks_key u) = Some (ms, x) \<longrightarrow> x = None)"

text \<open>Keys of different kinds never coincide.\<close>

lemma keys_distinct [simp]:
  "task_key i \<noteq> user_tasks_key u" "task_key i \<noteq> tag_tasks_key j" "task_key i \<noteq> list_keys_key u"
  "user_tasks_key u \<noteq> task_key i" "tag_tasks_key j \<noteq> task_key i" "list_keys_key u \<noteq> task_key i"
  "user_tasks_key u \<noteq> tag_tasks_key j" "user_tasks_key u \<noteq> list_keys_key v"
  "tag_tasks_key j \<noteq> user_tasks_key u" "list_keys_key v \<noteq> user_tasks_key u"
  "tag_tasks_key j \<noteq> list_keys_key v" "list_keys_key v \<noteq> tag_tasks_key j"
  by (simp_all add: task_key_def user_tasks_key_def tag_tasks_key_def list_keys_key_def)

lemma keys_inject [simp]:
  "task_key i = task_key j \<longleftrightarrow> i = j" "user_tasks_key u = user_tasks_key v \<longleftrightarrow> u = v"
  "list_keys_key u = list_keys_key v \<longleftrightarrow> u = v" "list_keys_key u \<noteq> []"
  by (simp_all add: task_key_def user_tasks_key_def list_keys_key_def)

lemma userListKey_cases: "userListKey k = [] \<or> (\<exists>u. userListKey k = list_keys_key u)"
  by (simp add: userListKey_def list_keys_key_def Let_def)

lemma tracker_task [simp]: "tracker (task_key i) (DocTask c) = Some (user_tasks_key (ct_UserID c), i)"
  by (simp add: tracker_def task_key_def)

lemma tracker_list [simp]: "userListKey k = list_keys_key u \<Longrightarrow> tracker k (DocList l) = Some (list_keys_key u, k)"
  by (simp add: tracker_def)

lemma tracker_cases:
  assumes "tracker k d = Some (S, m)"
  shows "(\<exists>u l. S = list_keys_key u \<and> m = k \<and> userListKey k = S \<and> d = DocList l)
       \<or> (\<exists>c. S = user_tasks_key (ct_UserID c) \<and> k = task_key m \<and> d = DocTask c)"
proof -
  have "k = ''task:'' @ drop 5 k" if "take 5 k = ''task:''" using that append_take_drop_id [of 5 k] by metis
  then show ?thesis
    using assms userListKey_cases [of k]
    by (auto simp: tracker_def task_key_def split: document.splits if_splits)
qed

lemma Split_head: "c \<notin> set s \<Longrightarrow> strings_Split c (s @ c # t) ! 0 = s"
  by (simp add: strings_Split_append)

text \<open>A tracked list key starts with \<open>tasks:\<close>, so it is the key of no set and no task.\<close>

lemma userListKey_starts:
  assumes "userListKey k = list_keys_key u"
  shows "\<exists>r. k = ''tasks:'' @ r"
proof -
  let ?base = "hd (strings_SplitN2 CHR '';'' k)"
  have parts: "length (strings_Split CHR '':'' ?base) \<ge> 3" "strings_Split CHR '':'' ?base ! 0 = ''tasks''"
    using assms by (auto simp: userListKey_def list_keys_key_def Let_def split: if_splits)
  have split0: "strings_Split c s ! 0 = takeWhile (\<lambda>x. x \<noteq> c) s" for c s
    by (induction s) (auto split: list.splits)
  have many: "c \<in> set s" if "length (strings_Split c s) \<ge> 2" for c s
    using that strings_Split_no_sep [of c s] by (cases "c \<in> set s") auto
  have "CHR '':'' \<in> set ?base" by (rule many) (use parts(1) in simp)
  moreover have "c \<in> set s \<Longrightarrow> \<exists>r. s = takeWhile (\<lambda>x. x \<noteq> c) s @ c # r" for c :: char and s
    by (induction s) auto
  ultimately have "\<exists>r. ?base = takeWhile (\<lambda>x. x \<noteq> CHR '':'') ?base @ CHR '':'' # r" by blast
  then obtain r where "?base = ''tasks:'' @ r" using parts(2) split0 [of "CHR '':''" ?base] by auto
  moreover have "\<exists>q. k = ?base @ q"
    by (simp add: strings_SplitN2_def) (metis takeWhile_dropWhile_id)
  ultimately show ?thesis by force
qed

lemma tracked_not_set_key:
  assumes "userListKey k = list_keys_key u"
  shows "k \<noteq> user_tasks_key v" "k \<noteq> list_keys_key v" "k \<noteq> task_key i"
  using userListKey_starts [OF assms] by (auto simp: user_tasks_key_def list_keys_key_def task_key_def)

lemma cache_okD:
  assumes "cache_ok B t v"
  shows "v_values v k = Some (d, e) \<Longrightarrow> t < e \<Longrightarrow> k \<notin> B \<Longrightarrow> value_ok t v k d e"
    and "v_sets v (list_keys_key u) = Some (ms, x) \<Longrightarrow> m \<in> set ms \<Longrightarrow> userListKey m = list_keys_key u"
    and "v_sets v (user_tasks_key u) = Some (ms, x) \<Longrightarrow> x = None"
  using assms unfolding cache_ok_def by blast+

lemma cache_okI:
  assumes "\<And>k d e. v_values v k = Some (d, e) \<Longrightarrow> t < e \<Longrightarrow> k \<notin> B \<Longrightarrow> value_ok t v k d e"
    and "\<And>u ms x m. v_sets v (list_keys_key u) = Some (ms, x) \<Longrightarrow> m \<in> set ms \<Longrightarrow> userListKey m = list_keys_key u"
    and "\<And>u ms x. v_sets v (user_tasks_key u) = Some (ms, x) \<Longrightarrow> x = None"
  shows "cache_ok B t v"
  using assms unfolding cache_ok_def by blast

lemma cache_ok_mono:
  assumes ok: "cache_ok B t v" and "t \<le> t'" and "B \<subseteq> B'"
  shows "cache_ok B' t' v"
proof (rule cache_okI)
  fix k d e assume k: "v_values v k = Some (d, e)" "t' < e" "k \<notin> B'"
  have "value_ok t v k d e" by (rule cache_okD(1) [OF ok k(1)]) (use k assms(2,3) in auto)
  then show "value_ok t' v k d e" using assms(2) by (auto simp: value_ok_def)
qed (use cache_okD(2,3) [OF ok] in blast)+

lemma in_set_values [simp]: "in_set (v\<lparr>v_values := f\<rparr>) k m e = in_set v k m e"
  by (simp add: in_set_def)

lemma value_ok_values [simp]: "value_ok t (v\<lparr>v_values := f\<rparr>) k d e = value_ok t v k d e"
  by (simp add: value_ok_def split: option.split)

lemma in_set_live: "in_set v k m e \<Longrightarrow> t < e \<Longrightarrow> m \<in> members_at t v k"
  by (auto simp: in_set_def members_at_def live_set_def split: option.splits)

text \<open>What a storing call sends after the value itself keeps every tracked key tracked.\<close>

fun tracking :: "command \<Rightarrow> bool" where
  "tracking (CSet k d ttl) = False"
| "tracking (CSAdd k m) = ((\<exists>u. k = user_tasks_key u) \<or> (\<exists>i. k = tag_tasks_key i)
     \<or> (\<exists>u. k = list_keys_key u \<and> userListKey m = k))"
| "tracking (CExpire k ttl) = (ttl = hours 25 \<and> (\<exists>u. k = list_keys_key u))"

lemma in_set_tracking:
  assumes "in_set v k m e" and "t < e" and "e \<le> t + hours 24" and "tracking c"
  shows "in_set (run_command t c v) k m e"
proof -
  obtain ms x where k: "v_sets v k = Some (ms, x)" "m \<in> set ms" "case x of None \<Rightarrow> True | Some y \<Rightarrow> e \<le> y"
    using assms(1) by (auto simp: in_set_def)
  then have live: "live_set t v k = Some (ms, x)"
    using assms(2) by (auto simp: live_set_def split: option.splits)
  have "hours 24 \<le> hours 25" by (simp add: hours_def)
  with k live assms(3,4) show ?thesis
    by (cases c) (auto simp: in_set_def split: option.splits)
qed

lemma cache_ok_tracking:
  assumes ok: "cache_ok B t v" and c: "tracking c"
  shows "cache_ok B t (run_command t c v)"
proof (rule cache_okI)
  have same: "v_values (run_command t c v) = v_values v" using c by (cases c) (auto split: option.splits)
  fix k d e assume k: "v_values (run_command t c v) k = Some (d, e)" "t < e" "k \<notin> B"
  have val: "value_ok t v k d e" by (rule cache_okD(1) [OF ok]) (use k same in simp_all)
  then have e: "e \<le> t + hours 24" by (simp add: value_ok_def)
  show "value_ok t (run_command t c v) k d e"
    using val in_set_tracking [OF _ k(2) e c] by (auto simp: value_ok_def split: option.splits)
next
  fix u ms x m assume "v_sets (run_command t c v) (list_keys_key u) = Some (ms, x)" "m \<in> set ms"
  then show "userListKey m = list_keys_key u"
    using c cache_okD(2) [OF ok, of u]
    by (cases c) (auto simp: live_set_def split: option.splits if_splits)
next
  fix u ms x assume "v_sets (run_command t c v) (user_tasks_key u) = Some (ms, x)"
  then show "x = None"
    using c cache_okD(3) [OF ok, of u]
    by (cases c) (auto simp: live_set_def split: option.splits if_splits)
qed

lemma cache_ok_CSet:
  assumes "cache_ok B t v"
  shows "cache_ok (insert k B) t (run_command t (CSet k d ttl) v)"
  using cache_okD [OF assms]
  by (intro cache_okI) (auto split: if_splits)

lemma cache_ok_prefix:
  assumes "cache_ok B t v" and "list_all tracking cs"
  shows "cache_ok (insert k B) t (fold (run_command t) (take n (CSet k d ttl # cs)) v)"
proof -
  have fold: "cache_ok B' t (fold (run_command t) cs v)" if "cache_ok B' t v" "list_all tracking cs" for B' cs v
    using that by (induction cs arbitrary: v) (auto intro: cache_ok_tracking)
  show ?thesis
  proof (cases n)
    case 0
    then show ?thesis using cache_ok_mono [OF assms(1) order_refl, of "insert k B"] by auto
  next
    case (Suc m)
    then show ?thesis
      using fold [OF cache_ok_CSet [OF assms(1)], of "take m cs" k d ttl] assms(2)
      by (auto simp: list_all_iff dest: in_set_takeD)
  qed
qed

text \<open>The two storing calls: a broken pipeline spoils no other key, a whole one tracks its key.\<close>

lemma SetTask_cmds:
  "\<exists>cs. set_task_cmds t = CSet (task_key (t_ID t)) (DocTask (toCacheTask t)) (hours 24)
      # CSAdd (user_tasks_key (t_UserID t)) (t_ID t) # cs \<and> list_all tracking cs
      \<and> (\<forall>c \<in> set cs. \<exists>i. c = CSAdd (tag_tasks_key i) (t_ID t))"
  by (auto simp: set_task_cmds_def split: option.splits)

lemma SetTask_values:
  "v_values (fold (run_command t) (set_task_cmds x) v)
     = (v_values v)(task_key (t_ID x) := Some (DocTask (toCacheTask x), t + hours 24))"
  by (simp add: set_task_cmds_def split: option.splits)

lemma cache_ok_release:
  assumes ok: "cache_ok (insert k B) t v" and "v_values v k = Some (d, e)" and "value_ok t v k d e"
  shows "cache_ok (B - {k}) t v"
proof (rule cache_okI)
  fix k' d' e' assume "v_values v k' = Some (d', e')" "t < e'" "k' \<notin> B - {k}"
  then show "value_ok t v k' d' e'"
    using cache_okD(1) [OF ok, of k'] assms(2,3) by (cases "k' = k") auto
qed (use cache_okD(2,3) [OF ok] in blast)+

lemma cache_ok_SetTask:
  assumes ok: "cache_ok B t v"
  shows "cache_ok (insert (task_key (t_ID x)) B) t (fold (run_command t) (take n (set_task_cmds x)) v)"
    and "cache_ok (B - {task_key (t_ID x)}) t (fold (run_command t) (set_task_cmds x) v)"
proof -
  obtain cs where cs: "set_task_cmds x = CSet (task_key (t_ID x)) (DocTask (toCacheTask x)) (hours 24)
      # CSAdd (user_tasks_key (t_UserID x)) (t_ID x) # cs" "list_all tracking cs"
      "\<forall>c \<in> set cs. \<exists>i. c = CSAdd (tag_tasks_key i) (t_ID x)"
    using SetTask_cmds by blast
  show *: "cache_ok (insert (task_key (t_ID x)) B) t (fold (run_command t) (take n (set_task_cmds x)) v)" for n
    unfolding cs(1) by (rule cache_ok_prefix [OF ok]) (use cs(2) in auto)
  let ?v = "fold (run_command t) (set_task_cmds x) v"
  let ?u = "user_tasks_key (t_UserID x)"
  have keep: "v_sets (fold (run_command t) cs w) ?u = v_sets w ?u" for w
    using cs(3) by (induction cs arbitrary: w) auto
  have "in_set ?v ?u (t_ID x) (t + hours 24)"
    using cache_okD(3) [OF ok, of "t_UserID x"]
    by (fastforce simp: cs(1) keep in_set_def live_set_def split: option.splits)
  then have "value_ok t ?v (task_key (t_ID x)) (DocTask (toCacheTask x)) (t + hours 24)"
    by (simp add: value_ok_def toCacheTask_def)
  with * [of "length (set_task_cmds x)"] show "cache_ok (B - {task_key (t_ID x)}) t ?v"
    by (intro cache_ok_release) (simp_all add: SetTask_values)
qed

lemma cache_ok_SetList:
  assumes ok: "cache_ok B t v"
  shows "cache_ok (insert k B) t (fold (run_command t) (take n (set_list_cmds k ts)) v)"
    and "cache_ok (B - {k}) t (fold (run_command t) (set_list_cmds k ts) v)"
proof -
  let ?v = "fold (run_command t) (set_list_cmds k ts) v"
  show *: "cache_ok (insert k B) t (fold (run_command t) (take n (set_list_cmds k ts)) v)" for n
    unfolding set_list_cmds_def Let_def append_Cons append_Nil
    by (rule cache_ok_prefix [OF ok]) (use userListKey_cases [of k] in auto)
  have vals: "v_values ?v k = Some (DocList (map toCacheListTasks ts), t + hours 24)"
    by (auto simp: Let_def set_list_cmds_def split: option.splits)
  have "in_set ?v (userListKey k) k (t + hours 24)" if "userListKey k \<noteq> []"
    using that by (auto simp: in_set_def Let_def set_list_cmds_def live_set_def hours_def split: option.splits if_splits)
  then have "value_ok t ?v k (DocList (map toCacheListTasks ts)) (t + hours 24)"
    by (simp add: value_ok_def tracker_def)
  with * [of "length (set_list_cmds k ts)"] show "cache_ok (B - {k}) t ?v"
    by (intro cache_ok_release [OF _ vals]) simp_all
qed

text \<open>Deleting keys: fine as long as a tracking set goes only together with what it tracks.\<close>

lemma cache_ok_drop:
  assumes ok: "cache_ok B t v"
    and gone: "\<And>k d S m. S \<in> set ks \<Longrightarrow> tracker k d = Some (S, m) \<Longrightarrow> m \<in> members_at t v S \<Longrightarrow> k \<in> set ks"
  shows "cache_ok B t (drop_keys ks v)"
proof (rule cache_okI)
  fix k d e assume k: "v_values (drop_keys ks v) k = Some (d, e)" "t < e" "k \<notin> B"
  then have old: "v_values v k = Some (d, e)" "k \<notin> set ks" by (auto simp: drop_keys_def split: if_splits)
  have val: "value_ok t v k d e" by (rule cache_okD(1) [OF ok old(1) k(2,3)])
  moreover have "in_set (drop_keys ks v) S m e" if tr: "tracker k d = Some (S, m)" for S m
  proof -
    have "in_set v S m e" using val tr by (simp add: value_ok_def)
    moreover from this have "S \<notin> set ks" using gone [OF _ tr] old(2) in_set_live k(2) by blast
    ultimately show ?thesis by (simp add: in_set_def drop_keys_def)
  qed
  ultimately show "value_ok t (drop_keys ks v) k d e" by (auto simp: value_ok_def split: option.splits)
qed (use cache_okD(2,3) [OF ok] in \<open>auto simp: drop_keys_def split: if_splits\<close>)

section \<open>Runs of the cache\<close>

datatype cache_op =
    OpSetTask task
  | OpGetTask string
  | OpDeleteTask string
  | OpSetList string "task_list list"
  | OpGetList string
  | OpInvalidateUserLists string
  | OpInvalidateUserTaskCaches string
  | OpInvalidateTagTasks string

text \<open>One call; a read may miss, which is no failure.\<close>

fun cache_exec :: "'r redis \<Rightarrow> time \<Rightarrow> cache_op \<Rightarrow> 'r \<Rightarrow> (go_err + unit) \<times> 'r" where
  "cache_exec R tm (OpSetTask t) s = cache_SetTask R tm t s"
| "cache_exec R tm (OpGetTask i) s = (Inr (), snd (cache_GetTask R tm i s))"
| "cache_exec R tm (OpDeleteTask i) s = cache_DeleteTask R tm i s"
| "cache_exec R tm (OpSetList k ts) s = cache_SetList R tm k ts s"
| "cache_exec R tm (OpGetList k) s = (Inr (), snd (cache_GetList R tm k s))"
| "cache_exec R tm (OpInvalidateUserLists u) s = cache_InvalidateUserLists R tm u s"
| "cache_exec R tm (OpInvalidateUserTaskCaches u) s = cache_InvalidateUserTaskCaches R tm u s"
| "cache_exec R tm (OpInvalidateTagTasks i) s = cache_InvalidateTagTasks R tm i s"

text \<open>
  A run of calls one after the other, any of which may report an error and have taken effect, in part
  or not at all. The set holds the keys whose last storing call reported an error.
\<close>

fun spoiled :: "cache_op \<Rightarrow> go_err + unit \<Rightarrow> string set \<Rightarrow> string set" where
  "spoiled (OpSetTask x) r B = (if isl r then insert (task_key (t_ID x)) B else B - {task_key (t_ID x)})"
| "spoiled (OpSetList k ts) r B = (if isl r then insert k B else B - {k})"
| "spoiled _ r B = B"

fun cache_run :: "'r redis \<Rightarrow> (time \<times> cache_op) list \<Rightarrow> string set \<times> 'r \<Rightarrow> string set \<times> 'r" where
  "cache_run R [] Bs = Bs"
| "cache_run R ((tm, op) # ops) (B, s) =
     (case cache_exec R tm op s of (r, s) \<Rightarrow> cache_run R ops (spoiled op r B, s))"

lemma live_tracked:
  assumes "cache_ok B t v" and "live_value t v k = Some d" and "tracker k d = Some (S, m)" and "k \<notin> B"
  shows "m \<in> members_at t v S"
proof -
  obtain e where e: "v_values v k = Some (d, e)" "t < e"
    using assms(2) by (auto simp: live_value_def split: option.splits if_splits)
  have "value_ok t v k d e" by (rule cache_okD(1) [OF assms(1) e assms(4)])
  with assms(3) e(2) show ?thesis by (auto simp: value_ok_def intro: in_set_live)
qed

context redis_store begin

lemma invalidate_view:
  assumes "invalidate R t msg setKey keyOf s = (r, s')"
  shows "view s' = view s \<and> (r = Inr () \<longrightarrow> members_at t (view s) setKey = {})
     \<or> (\<exists>ks. set ks = insert setKey (keyOf ` members_at t (view s) setKey) \<and> view s' = drop_keys ks (view s))"
proof -
  obtain m s1 where m: "rd_SMembers R t setKey s = (m, s1)" by force
  note ms = smembers [OF m]
  show ?thesis
  proof (cases m)
    case (Inl e)
    then show ?thesis using assms m ms by (auto simp: invalidate_def split: if_splits)
  next
    case (Inr l)
    show ?thesis
    proof (cases "l = []")
      case True
      then show ?thesis using assms m Inr ms by (auto simp: invalidate_def)
    next
      case False
      then have d: "rd_Del R t (map keyOf l @ [setKey]) s1 = (r, s')"
        using assms m Inr by (simp add: invalidate_def)
      from del [OF d] ms have "view s' = drop_keys (map keyOf l @ [setKey]) (view s) \<or> r \<noteq> Inr () \<and> view s' = view s"
        by auto
      moreover have "set (map keyOf l @ [setKey]) = insert setKey (keyOf ` members_at t (view s) setKey)"
        using ms Inr by auto
      ultimately show ?thesis by blast
    qed
  qed
qed

lemma invalidate_ok:
  assumes ok: "cache_ok B t (view s)" and run: "invalidate R t msg setKey keyOf s = (r, s')"
    and gone: "\<And>k d S m. S \<in> insert setKey (keyOf ` members_at t (view s) setKey) \<Longrightarrow> tracker k d = Some (S, m)
        \<Longrightarrow> m \<in> members_at t (view s) S \<Longrightarrow> k \<in> insert setKey (keyOf ` members_at t (view s) setKey)"
  shows "cache_ok B t (view s')"
  using invalidate_view [OF run]
proof (elim disjE conjE exE)
  fix ks assume ks: "set ks = insert setKey (keyOf ` members_at t (view s) setKey)" "view s' = drop_keys ks (view s)"
  show ?thesis unfolding ks(2) by (rule cache_ok_drop [OF ok]) (use gone in \<open>simp only: ks(1)\<close>)
qed (use ok in simp)

lemma list_members:
  assumes "cache_ok B t (view s)" and "k \<in> members_at t (view s) (list_keys_key u)"
  shows "userListKey k = list_keys_key u"
proof -
  obtain ms x where "v_sets (view s) (list_keys_key u) = Some (ms, x)" "k \<in> set ms"
    using assms(2) by (auto simp: members_at_def live_set_def split: option.splits if_splits)
  then show ?thesis by (rule cache_okD(2) [OF assms(1)])
qed

lemma cache_exec_ok:
  assumes ok: "cache_ok B t (view s)" and run: "cache_exec R t op s = (r, s')"
  shows "cache_ok (spoiled op r B) t (view s')"
proof (cases op)
  case (OpSetTask x)
  then have "rd_Exec R t (set_task_cmds x) s = (r, s')" using run by (simp add: cache_SetTask_def)
  from exec [OF this] cache_ok_SetTask [OF ok, where x = x] OpSetTask show ?thesis
    by (cases r) auto
next
  case (OpGetTask i)
  obtain g s1 where g: "rd_Get R t (task_key i) s = (g, s1)" by force
  then have "s' = s1" using run OpGetTask
    by (auto simp: cache_GetTask_def split: sum.splits document.splits)
  then show ?thesis using get [OF g] ok OpGetTask by simp
next
  case (OpDeleteTask i)
  then have d: "rd_Del R t [task_key i] s = (r, s')" using run by (simp add: cache_DeleteTask_def)
  have "cache_ok B t (drop_keys [task_key i] (view s))"
    by (rule cache_ok_drop [OF ok]) (auto dest: tracker_cases)
  then show ?thesis using del [OF d] ok OpDeleteTask by auto
next
  case (OpSetList k ts)
  then have "rd_Exec R t (set_list_cmds k ts) s = (r, s')" using run by (simp add: cache_SetList_def)
  from exec [OF this] cache_ok_SetList [OF ok, where k = k and ts = ts] OpSetList show ?thesis
    by (cases r) auto
next
  case (OpGetList k)
  obtain g s1 where g: "rd_Get R t k s = (g, s1)" by force
  then have "s' = s1" using run OpGetList
    by (auto simp: cache_GetList_def split: sum.splits document.splits if_splits)
  then show ?thesis using get [OF g] ok OpGetList by simp
next
  case (OpInvalidateUserLists u)
  then have run: "invalidate R t ''get user list keys'' (list_keys_key u) (\<lambda>k. k) s = (r, s')"
    using run by (simp add: cache_InvalidateUserLists_def)
  have no_sets: "list_keys_key w \<notin> members_at t (view s) (list_keys_key u)"
    "user_tasks_key w \<notin> members_at t (view s) (list_keys_key u)" for w
    using list_members [OF ok] tracked_not_set_key by blast+
  have "cache_ok B t (view s')"
    by (rule invalidate_ok [OF ok run]) (use no_sets in \<open>auto dest!: tracker_cases\<close>)
  with OpInvalidateUserLists show ?thesis by simp
next
  case (OpInvalidateUserTaskCaches u)
  then have run: "invalidate R t ''get user_tasks members'' (user_tasks_key u) task_key s = (r, s')"
    using run by (simp add: cache_InvalidateUserTaskCaches_def)
  have "cache_ok B t (view s')" by (rule invalidate_ok [OF ok run]) (auto dest!: tracker_cases)
  with OpInvalidateUserTaskCaches show ?thesis by simp
next
  case (OpInvalidateTagTasks i)
  then have run: "invalidate R t ''get tag_tasks members'' (tag_tasks_key i) task_key s = (r, s')"
    using run by (simp add: cache_InvalidateTagTasks_def)
  have "cache_ok B t (view s')" by (rule invalidate_ok [OF ok run]) (auto dest!: tracker_cases)
  with OpInvalidateTagTasks show ?thesis by simp
qed

lemma cache_run_ok:
  assumes "cache_run R ops (B, s) = (B', s')" and "cache_ok B t0 (view s)"
    and "sorted (t0 # map fst ops)" and "\<forall>x \<in> set (t0 # map fst ops). x \<le> t"
  shows "cache_ok B' t (view s')"
  using assms
proof (induction ops arbitrary: B s t0)
  case Nil
  then show ?case using cache_ok_mono by auto
next
  case (Cons x ops)
  obtain tm op where x: "x = (tm, op)" by (cases x)
  obtain r s1 where s1: "cache_exec R tm op s = (r, s1)" by force
  have "t0 \<le> tm" using Cons.prems(3) x by simp
  then have "cache_ok (spoiled op r B) tm (view s1)"
    using cache_exec_ok [OF cache_ok_mono [OF Cons.prems(2)] s1] by simp
  with Cons.IH [of "spoiled op r B" s1 tm] Cons.prems x s1 show ?case by simp
qed

lemma live_later: "live_value t' v k = Some d \<Longrightarrow> t \<le> t' \<Longrightarrow> live_value t v k = Some d"
  by (auto simp: live_value_def split: option.splits if_splits)

lemma invalidate_gone:
  assumes ok: "cache_ok B t (view s)" and inv: "invalidate R t msg S keyOf s = (Inr (), s1)"
    and k: "tracker k d = Some (S, m)" "keyOf m = k" and later: "t \<le> t'"
    and live: "live_value t' (view s1) k = Some d"
  shows "k \<in> B"
proof (rule ccontr)
  assume fresh: "k \<notin> B"
  from invalidate_view [OF inv] show False
  proof (elim disjE conjE exE)
    assume v: "view s1 = view s" and none: "Inr () = Inr () \<longrightarrow> members_at t (view s) S = {}"
    have "live_value t (view s) k = Some d" using live_later [OF live later] by (simp add: v)
    from live_tracked [OF ok this k(1) fresh] none show False by simp
  next
    fix ks assume ks: "set ks = insert S (keyOf ` members_at t (view s) S)" and v: "view s1 = drop_keys ks (view s)"
    have "live_value t (view s) k = Some d" "k \<notin> set ks"
      using live_later [OF live later] unfolding v
      by (auto simp: live_value_def drop_keys_def split: option.splits if_splits)
    from live_tracked [OF ok this(1) k(1) fresh] this(2) ks k(2) show False by auto
  qed
qed

lemma lists_gone:
  assumes ok: "cache_ok B t (view s)" and inv: "cache_InvalidateUserLists R t u s = (Inr (), s1)"
    and k: "userListKey k = list_keys_key u" and later: "t \<le> t'"
    and g: "cache_GetList R t' k s1 = (Inr ts, s2)"
  shows "ts = [] \<or> k \<in> B"
proof -
  obtain r s3 where r: "rd_Get R t' k s1 = (r, s3)" by force
  show ?thesis
  proof (cases r)
    case (Inl e)
    then show ?thesis using g r by (auto simp: cache_GetList_def split: if_splits)
  next
    case (Inr d)
    then obtain l where l: "d = DocList l"
      using g r by (cases d) (auto simp: cache_GetList_def)
    have "live_value t' (view s1) k = Some (DocList l)" using get [OF r] Inr l by blast
    from invalidate_gone [OF ok inv [unfolded cache_InvalidateUserLists_def] tracker_list [OF k] refl later this]
    show ?thesis ..
  qed
qed

lemma tasks_gone:
  assumes ok: "cache_ok B t (view s)" and inv: "cache_InvalidateUserTaskCaches R t u s = (Inr (), s1)"
    and later: "t \<le> t'" and g: "cache_GetTask R t' i s1 = (Inr x, s2)"
  shows "t_UserID x \<noteq> u \<or> task_key i \<in> B"
proof (rule disjCI)
  assume "task_key i \<notin> B"
  show "t_UserID x \<noteq> u"
  proof
    assume u: "t_UserID x = u"
    obtain r s3 where r: "rd_Get R t' (task_key i) s1 = (r, s3)" by force
    then obtain c where c: "r = Inr (DocTask c)" "x = fromCacheTask c"
      using g by (auto simp: cache_GetTask_def split: sum.splits document.splits)
    have "tracker (task_key i) (DocTask c) = Some (user_tasks_key u, i)" using u c(2) by (simp add: fromCacheTask_def)
    moreover have "live_value t' (view s1) (task_key i) = Some (DocTask c)" using get [OF r] c by blast
    ultimately show False
      using invalidate_gone [OF ok inv [unfolded cache_InvalidateUserTaskCaches_def] _ refl later] \<open>task_key i \<notin> B\<close>
      by blast
  qed
qed

lemma set_get_task:
  assumes "cache_SetTask R t x s = (Inr (), s1)" and "up s1" and "t \<le> t'" "t' < t + hours 24"
  shows "\<exists>s2. cache_GetTask R t' (t_ID x) s1 = (Inr (fromCacheTask (toCacheTask x)), s2)"
proof -
  have "rd_Exec R t (set_task_cmds x) s = (Inr (), s1)" using assms(1) by (simp add: cache_SetTask_def)
  from exec [OF this] have v: "view s1 = fold (run_command t) (set_task_cmds x) (view s)" by blast
  have "live_value t' (view s1) (task_key (t_ID x)) = Some (DocTask (toCacheTask x))"
    unfolding v using assms(4) by (simp add: live_value_def SetTask_values)
  moreover obtain g s2 where g: "rd_Get R t' (task_key (t_ID x)) s1 = (g, s2)" by force
  moreover have "g = (case live_value t' (view s1) (task_key (t_ID x)) of None \<Rightarrow> Inl RedisNil | Some d \<Rightarrow> Inr d)"
    using get [OF g] assms(2) by blast
  ultimately have "g = Inr (DocTask (toCacheTask x))" by simp
  with g show ?thesis by (simp add: cache_GetTask_def)
qed

end

lemma fromCacheTask_toCacheTask:
  "status_IsValid (t_Status t) \<Longrightarrow>
     fromCacheTask (toCacheTask t) = t\<lparr>t_Reminder60mSentAt := None, t_Reminder15mSentAt := None,
       t_Reminder5mSentAt := None\<rparr>"
  by (cases t) (simp add: fromCacheTask_def toCacheTask_def NewStatus_id map_idI)

lemma fromCacheListTasks_toCacheListTasks:
  "fromCacheListTasks (toCacheListTasks t) = t\<lparr>tl_Description := []\<rparr>"
  by (simp add: fromCacheListTasks_def toCacheListTasks_def)

section \<open>A server to run against\<close>

text \<open>
  A server that keeps the view, behind a connection whose coming round trips meet the
  listed fates: answered, not sent, or executed without an answer.
\<close>

record server =
  sv_view :: view
  sv_faults :: "net list"

definition sv_step :: "(view \<Rightarrow> view) \<Rightarrow> (view \<Rightarrow> go_err + 'a) \<Rightarrow> server \<Rightarrow> (go_err + 'a) \<times> server" where
  "sv_step eff ans s =
     (let lost = Inl (Msg ''redis'') in
      case sv_faults s of
        [] \<Rightarrow> (ans (sv_view s), s\<lparr>sv_view := eff (sv_view s)\<rparr>)
      | Fine # fs \<Rightarrow> (ans (sv_view s), s\<lparr>sv_view := eff (sv_view s), sv_faults := fs\<rparr>)
      | Refused # fs \<Rightarrow> (lost, s\<lparr>sv_faults := fs\<rparr>)
      | ReplyLost # fs \<Rightarrow> (lost, s\<lparr>sv_view := eff (sv_view s), sv_faults := fs\<rparr>))"

definition server_ops :: "server redis" where
  "server_ops =
     \<lparr>rd_Get = (\<lambda>t k. sv_step (\<lambda>v. v) (\<lambda>v. case live_value t v k of None \<Rightarrow> Inl RedisNil | Some d \<Rightarrow> Inr d)),
      rd_Set = (\<lambda>t k d ttl. sv_step (run_command t (CSet k d ttl)) (\<lambda>v. Inr ())),
      rd_Del = (\<lambda>t ks. sv_step (drop_keys ks) (\<lambda>v. Inr ())),
      rd_SMembers = (\<lambda>t k. sv_step (\<lambda>v. v) (\<lambda>v. Inr (case live_set t v k of None \<Rightarrow> [] | Some (ms, e) \<Rightarrow> ms))),
      rd_Exec = (\<lambda>t cs. sv_step (fold (run_command t) cs) (\<lambda>v. Inr ()))\<rparr>"

definition server_up :: "server \<Rightarrow> bool" where
  "server_up s \<longleftrightarrow> sv_faults s = []"

lemma sv_step_cases:
  assumes "sv_step eff ans s = (r, s')"
  shows "(r = ans (sv_view s) \<and> sv_view s' = eff (sv_view s)
       \<or> r = Inl (Msg ''redis'') \<and> (sv_view s' = sv_view s \<or> sv_view s' = eff (sv_view s)))
     \<and> (server_up s \<longrightarrow> server_up s' \<and> r = ans (sv_view s))"
  using assms by (auto simp: sv_step_def server_up_def Let_def split: list.splits net.splits)

interpretation server: redis_store server_ops sv_view server_up
proof
  fix t k s s' and g :: "go_err + document"
  assume "rd_Get server_ops t k s = (g, s')"
  from sv_step_cases [OF this [unfolded server_ops_def, simplified]]
  show "sv_view s' = sv_view s \<and> (\<forall>d. g = Inr d \<longrightarrow> live_value t (sv_view s) k = Some d)
      \<and> (server_up s \<longrightarrow> server_up s' \<and> g = (case live_value t (sv_view s) k of None \<Rightarrow> Inl RedisNil | Some d \<Rightarrow> Inr d))"
    by (auto split: option.splits)
next
  fix t k d ttl s s' and r :: "go_err + unit"
  assume "rd_Set server_ops t k d ttl s = (r, s')"
  from sv_step_cases [OF this [unfolded server_ops_def, simplified]]
  show "(sv_view s' = run_command t (CSet k d ttl) (sv_view s) \<or> (\<exists>e. r = Inl e) \<and> sv_view s' = sv_view s)
      \<and> (server_up s \<longrightarrow> server_up s' \<and> r = Inr ())"
    by auto
next
  fix t ks s s' and r :: "go_err + unit"
  assume "rd_Del server_ops t ks s = (r, s')"
  from sv_step_cases [OF this [unfolded server_ops_def, simplified]]
  show "(sv_view s' = drop_keys ks (sv_view s) \<or> (\<exists>e. r = Inl e) \<and> sv_view s' = sv_view s)
      \<and> (server_up s \<longrightarrow> server_up s' \<and> r = Inr ())"
    by auto
next
  fix t k s s' and m :: "go_err + string list"
  assume "rd_SMembers server_ops t k s = (m, s')"
  from sv_step_cases [OF this [unfolded server_ops_def, simplified]]
  show "sv_view s' = sv_view s \<and> (\<forall>ms. m = Inr ms \<longrightarrow> set ms = members_at t (sv_view s) k)
      \<and> (\<forall>e. m = Inl e \<longrightarrow> \<not> errors_Is e RedisNil) \<and> (server_up s \<longrightarrow> server_up s' \<and> (\<exists>ms. m = Inr ms))"
    by (auto simp: members_at_def RedisNil_def split: option.splits)
next
  fix t cs s s' and r :: "go_err + unit"
  assume "rd_Exec server_ops t cs s = (r, s')"
  from sv_step_cases [OF this [unfolded server_ops_def, simplified]]
  have "r = Inr () \<and> sv_view s' = fold (run_command t) cs (sv_view s)
       \<or> r = Inl (Msg ''redis'') \<and> (sv_view s' = fold (run_command t) (take 0 cs) (sv_view s)
            \<or> sv_view s' = fold (run_command t) (take (length cs) cs) (sv_view s))"
    and "server_up s \<longrightarrow> server_up s' \<and> r = Inr ()" by auto
  then show "(\<exists>n. sv_view s' = fold (run_command t) (take n cs) (sv_view s))
      \<and> (r = Inr () \<longrightarrow> sv_view s' = fold (run_command t) cs (sv_view s))
      \<and> (server_up s \<longrightarrow> server_up s' \<and> r = Inr ())"
    by (metis Inl_Inr_False order_refl take_all)
qed

section \<open>Properties of the cache\<close>

definition empty_view :: view where
  "empty_view = \<lparr>v_values = (\<lambda>k. None), v_sets = (\<lambda>k. None)\<rparr>"

lemma cache_ok_empty: "cache_ok B t empty_view"
  by (rule cache_okI) (simp_all add: empty_view_def)

text \<open>A run of any calls on an empty cache.\<close>

lemma run_from_empty:
  assumes "redis_store R view up" and "view s0 = empty_view" and "cache_run R ops ({}, s0) = (B, s)"
    and "sorted (map fst ops)" and "\<forall>x \<in> set ops. fst x \<le> t"
  shows "cache_ok B t (view s)"
proof -
  define t0 where "t0 = (if ops = [] then t else fst (hd ops))"
  have "sorted (t0 # map fst ops)" "\<forall>x \<in> set (t0 # map fst ops). x \<le> t"
    using assms(4,5) by (cases ops; auto simp: t0_def)+
  then show ?thesis
    using redis_store.cache_run_ok [OF assms(1,3)] cache_ok_empty [of "{}" t0]
    by (simp only: assms(2) simp_thms)
qed

text \<open>C32: after any calls on an empty cache, one after the other, each of which may fail and have taken
  effect in part, a successful invalidation of a user's lists leaves none of them readable, whatever
  filters, sorting and tag it was cached under, except a list whose own last storing call had reported an
  error (its pipeline may have broken between the value and the tracking set). A failure never costs
  another list its tracking.\<close>

theorem invalidation_reaches_lists:
  assumes "redis_store R view up" and "view s0 = empty_view"
    and "cache_run R ops ({}, s0) = (B, s)" and "sorted (map fst ops)" and "\<forall>x \<in> set ops. fst x \<le> t"
    and "cache_InvalidateUserLists R t u s = (Inr (), s1)" and "t \<le> t'"
    and "CHR '':'' \<notin> set u" and "CHR '';'' \<notin> set u"
    and "key = BuildCacheKey u f so \<or> key = BuildCacheKeyWithTag u tag f so"
    and "cache_GetList R t' key s1 = (Inr ts, s2)"
  shows "ts = [] \<or> key \<in> B"
proof -
  have "userListKey key = list_keys_key u"
    using assms(10) userListKey_BuildCacheKey [OF assms(8,9)] userListKey_BuildCacheKeyWithTag [OF assms(8,9)]
    by (auto simp: list_keys_key_def)
  then show ?thesis
    using redis_store.lists_gone [OF assms(1) run_from_empty [OF assms(1-5)] assms(6) _ assms(7,11)] by blast
qed

text \<open>likewise a successful invalidation of a user's tasks (after a tag was renamed or
  deleted) leaves no task of this user readable under any id, but for one whose last storing call failed.\<close>

theorem invalidation_reaches_tasks:
  assumes "redis_store R view up" and "view s0 = empty_view"
    and "cache_run R ops ({}, s0) = (B, s)" and "sorted (map fst ops)" and "\<forall>x \<in> set ops. fst x \<le> t"
    and "cache_InvalidateUserTaskCaches R t u s = (Inr (), s1)" and "t \<le> t'"
    and "cache_GetTask R t' i s1 = (Inr x, s2)"
  shows "t_UserID x \<noteq> u \<or> task_key i \<in> B"
  using redis_store.tasks_gone [OF assms(1) run_from_empty [OF assms(1-5)] assms(6-8)] .

text \<open>within a day of being cached, and while the server answers, a task is read back
  as it was set, subtasks included and without the reminder marks.\<close>

theorem cached_task_roundtrip:
  assumes "redis_store R view up"
    and "cache_SetTask R t x s = (Inr (), s1)" and "up s1" and "t \<le> t'" and "t' < t + hours 24"
    and "status_IsValid (t_Status x)"
  shows "\<exists>s2. cache_GetTask R t' (t_ID x) s1 = (Inr (x\<lparr>t_Reminder60mSentAt := None,
     t_Reminder15mSentAt := None, t_Reminder5mSentAt := None\<rparr>), s2)"
  using redis_store.set_get_task [OF assms(1-5)] fromCacheTask_toCacheTask [OF assms(6)] by simp

text \<open>C34: a list read from the cache within a day is the list that was cached with every
  description blanked: the cached form has no field for it.\<close>

theorem cached_list_loses_descriptions:
  assumes "redis_store R view up" and "cache_SetList R t key ts s = (Inr (), s1)" and "up s1"
    and "t \<le> t'" and "t' < t + hours 24"
  shows "\<exists>s2. cache_GetList R t' key s1 = (Inr (map (\<lambda>x. x\<lparr>tl_Description := []\<rparr>) ts), s2)"
proof -
  have "rd_Exec R t (set_list_cmds key ts) s = (Inr (), s1)" using assms(2) by (simp add: cache_SetList_def)
  from redis_store.exec [OF assms(1) this]
  have v: "view s1 = fold (run_command t) (set_list_cmds key ts) (view s)" by blast
  have "live_value t' (view s1) key = Some (DocList (map toCacheListTasks ts))"
    using assms(5) unfolding v
    by (auto simp: set_list_cmds_def Let_def live_value_def split: option.splits)
  moreover obtain g s2 where g: "rd_Get R t' key s1 = (g, s2)" by force
  moreover have "g = (case live_value t' (view s1) key of None \<Rightarrow> Inl RedisNil | Some d \<Rightarrow> Inr d)"
    using redis_store.get [OF assms(1) g] assms(3) by blast
  ultimately show ?thesis by (simp add: cache_GetList_def fromCacheListTasks_toCacheListTasks comp_def)
qed

definition sample_server :: server where
  "sample_server = \<lparr>sv_view = empty_view, sv_faults = []\<rparr>"

definition sample_list :: "task_list list" where
  "sample_list = [\<lparr>tl_ID = ''t'', tl_Title = ''a'', tl_Description = ''long'', tl_Status = ''completed'',
     tl_Priory = ''red'', tl_DueDate = 0, tl_UserID = ''u'', tl_TagID = None, tl_TagName = None,
     tl_AdminDeleted = False, tl_AdminDeletedAt = None\<rparr>]"

lemmas server_redis = server.redis_store_axioms

lemma sample_server_up: "server_up sample_server" "sv_view sample_server = empty_view"
  by (simp_all add: server_up_def sample_server_def)

lemma sample_ops_up:
  assumes "server_up s"
  shows "\<exists>s'. cache_SetList server_ops t k ts s = (Inr (), s') \<and> server_up s'"
    and "\<exists>s'. cache_SetTask server_ops t x s = (Inr (), s') \<and> server_up s'"
    and "\<exists>s'. cache_InvalidateUserLists server_ops t u s = (Inr (), s') \<and> server_up s'"
    and "\<exists>s'. cache_InvalidateUserTaskCaches server_ops t u s = (Inr (), s') \<and> server_up s'"
  using assms
  by (auto simp: cache_SetList_def cache_SetTask_def cache_InvalidateUserLists_def
      cache_InvalidateUserTaskCaches_def invalidate_def server_ops_def sv_step_def server_up_def Let_def
      split: list.splits)

text \<open>The storing of a second list fails; the first one is found by the invalidation.\<close>

theorem invalidation_reaches_lists_witness:
  "\<exists>B s1 s2. cache_run server_ops
       [(1, OpSetList (BuildCacheKey ''u'' no_filter \<lparr>so_Fields = [], so_Order = []\<rparr>) sample_list), (1, OpSetList ''x'' [])]
       ({}, sample_server\<lparr>sv_faults := [Fine, Refused]\<rparr>) = (B, s1)
     \<and> B = {''x''} \<and> cache_InvalidateUserLists server_ops 2 ''u'' s1 = (Inr (), s2)
     \<and> (\<forall>t ts. fst (cache_GetList server_ops 3 (BuildCacheKey ''u'' no_filter \<lparr>so_Fields = [], so_Order = []\<rparr>) s2)
          \<noteq> Inr (t # ts))"
proof -
  let ?key = "BuildCacheKey ''u'' no_filter \<lparr>so_Fields = [], so_Order = []\<rparr>"
  let ?ops = "[(1, OpSetList ?key sample_list), (1, OpSetList ''x'' [])]"
  let ?s0 = "sample_server\<lparr>sv_faults := [Fine, Refused]\<rparr>"
  obtain s1 where s1: "cache_run server_ops ?ops ({}, ?s0) = ({''x''}, s1)" "server_up s1"
    by (auto simp: cache_SetList_def server_ops_def sv_step_def server_up_def sample_server_def Let_def)
  obtain s2 where s2: "cache_InvalidateUserLists server_ops 2 ''u'' s1 = (Inr (), s2)"
    using sample_ops_up(3) [OF s1(2)] by blast
  have view: "sv_view ?s0 = empty_view" by (simp add: sample_server_def)
  have key: "?key \<noteq> ''x''"
  proof
    assume "?key = ''x''"
    moreover have "userListKey ?key = ''user_list_keys:u''" using userListKey_BuildCacheKey [of "''u''"] by simp
    ultimately have "userListKey ''x'' = ''user_list_keys:u''" by (simp only:)
    then show False by (simp add: userListKey_def strings_SplitN2_def)
  qed
  obtain g s3 where g: "cache_GetList server_ops 3 ?key s2 = (g, s3)" by force
  have "ts' = []" if "g = Inr ts'" for ts'
    using invalidation_reaches_lists [OF server_redis view s1(1) _ _ s2, of 3 ?key] key g that by fastforce
  then have "\<forall>t ts. fst (cache_GetList server_ops 3 ?key s2) \<noteq> Inr (t # ts)" by (auto simp: g)
  with s1(1) s2 show ?thesis by blast
qed

definition cached_task :: task where
  "cached_task = zero_task\<lparr>t_ID := ''t'', t_UserID := ''u'', t_Status := ''completed''\<rparr>"

theorem invalidation_reaches_tasks_witness:
  "\<forall>x. fst (cache_GetTask server_ops 3 ''t'' (snd (cache_InvalidateUserTaskCaches server_ops 2 ''u''
        (snd (cache_SetTask server_ops 1 cached_task sample_server))))) \<noteq> Inr (x\<lparr>t_UserID := ''u''\<rparr>)"
proof
  fix x
  let ?ops = "[(1, OpSetTask cached_task)]"
  obtain s1 where s1: "cache_SetTask server_ops 1 cached_task sample_server = (Inr (), s1)" "server_up s1"
    using sample_ops_up(2) [OF sample_server_up(1)] by blast
  obtain s2 where s2: "cache_InvalidateUserTaskCaches server_ops 2 ''u'' s1 = (Inr (), s2)"
    using sample_ops_up(4) [OF s1(2)] by blast
  have run: "cache_run server_ops ?ops ({}, sample_server) = ({}, s1)" using s1(1) by simp
  obtain g s3 where g: "cache_GetTask server_ops 3 ''t'' s2 = (g, s3)" by force
  have "t_UserID y \<noteq> ''u''" if "g = Inr y" for y
    using invalidation_reaches_tasks [OF server_redis sample_server_up(2) run _ _ s2, of 3] g that by auto
  then show "fst (cache_GetTask server_ops 3 ''t'' (snd (cache_InvalidateUserTaskCaches server_ops 2 ''u''
        (snd (cache_SetTask server_ops 1 cached_task sample_server))))) \<noteq> Inr (x\<lparr>t_UserID := ''u''\<rparr>)"
    by (auto simp: s1(1) s2 g)
qed

theorem cached_task_roundtrip_witness:
  "fst (cache_GetTask server_ops 3 ''t'' (snd (cache_SetTask server_ops 1 cached_task sample_server)))
     = Inr cached_task"
proof -
  obtain s1 where s1: "cache_SetTask server_ops 1 cached_task sample_server = (Inr (), s1)" "server_up s1"
    using sample_ops_up(2) [OF sample_server_up(1)] by blast
  from cached_task_roundtrip [OF server_redis s1, of 3]
  show ?thesis unfolding s1(1) snd_conv
    by (auto simp: cached_task_def zero_task_def hours_def status_IsValid_def)
qed

theorem cached_list_loses_descriptions_witness:
  "map_sum id (map tl_Description) (fst (cache_GetList server_ops 3 ''tasks:user:u''
     (snd (cache_SetList server_ops 1 ''tasks:user:u'' sample_list sample_server)))) = Inr [[]]"
proof -
  obtain s1 where s1: "cache_SetList server_ops 1 ''tasks:user:u'' sample_list sample_server = (Inr (), s1)" "server_up s1"
    using sample_ops_up(1) [OF sample_server_up(1)] by blast
  from cached_list_loses_descriptions [OF server_redis s1, of 3]
  show ?thesis unfolding s1(1) snd_conv
    by (auto simp: sample_list_def hours_def)
qed

end
