(* ===== verification/TaskService.thy ===== *)
theory TaskService
  imports SubtaskRepo Cache
begin

text \<open>
  \<open>tasks/service/service.go\<close>: the service between the HTTP handlers and the repositories.
  A method that talks to one of the two servers maps that server's state (\<open>pg\<close>, or the
  Redis state \<open>'r\<close>); \<open>FindTask\<close> talks to both. Log lines are left out. A method of the
  service that passes the error on unchanged after logging it is the repository's operation.
\<close>

section \<open>Commands\<close>

text \<open>
  Two statements, not one transaction: the task, then its subtasks.
\<close>

definition svc_CreateTask :: "env \<Rightarrow> task \<Rightarrow> pg \<Rightarrow> (go_err + unit) \<times> pg" where
  "svc_CreateTask E t s =
     (case repo_Create E t s of
        (Inl e, s) \<Rightarrow> (Inl e, s)
      | (Inr _, s) \<Rightarrow>
          if HasSubtasks t
          then (case repo_CreateSubtasks E (t_ID t) (t_Subtasks t) s of
                  (Inl e, s) \<Rightarrow> (Inl e, s)
                | (Inr _, s) \<Rightarrow> (Inr (), s))
          else (Inr (), s))"

definition svc_CreateTaskBatch :: "env \<Rightarrow> task list \<Rightarrow> pg \<Rightarrow> (go_err + unit) \<times> pg" where
  "svc_CreateTaskBatch E ts s =
     (case repo_CreateBatch E ts s of (Inl e, s) \<Rightarrow> (Inl e, s) | (Inr _, s) \<Rightarrow> (Inr (), s))"

definition svc_UpdateTask :: "env \<Rightarrow> string \<Rightarrow> update_patch \<Rightarrow> pg \<Rightarrow> (go_err + task) \<times> pg" where
  "svc_UpdateTask E i p s =
     (case p_Status p of
        None \<Rightarrow> wrap_err (''update task '' @ i) (repo_Update E i p s)
      | Some st \<Rightarrow>
          (case repo_FindByID E i s of
             (Inl e, s) \<Rightarrow> (Inl (Wrap ''fetch task for update'' e), s)
           | (Inr current, s) \<Rightarrow>
               if \<not> CanTransitionTo current st
               then (Inl (Msg (''invalid status transition: '' @ t_Status current @ '' -> '' @ st)), s)
               else wrap_err (''update task '' @ i) (repo_Update E i p s)))"

definition svc_DeleteTask :: "env \<Rightarrow> string \<Rightarrow> pg \<Rightarrow> (go_err + unit) \<times> pg" where
  "svc_DeleteTask E i s = wrap_err (''delete task '' @ i) (repo_Delete E i s)"

definition svc_DeleteTaskBatch :: "env \<Rightarrow> string list \<Rightarrow> pg \<Rightarrow> (go_err + unit) \<times> pg" where
  "svc_DeleteTaskBatch E ids s =
     (case repo_DeleteBatch E ids s of (Inl e, s) \<Rightarrow> (Inl e, s) | (Inr _, s) \<Rightarrow> (Inr (), s))"

section \<open>Queries\<close>

text \<open>
  The cached task first, with the subtasks the database has now, then the database. The
  answer says whether the cache gave it. \<open>ps\<close> pairs the states of the two servers.
\<close>

definition svc_FindTask ::
    "env \<Rightarrow> 'r redis \<Rightarrow> string \<Rightarrow> pg \<times> 'r \<Rightarrow> (go_err + task \<times> bool) \<times> pg \<times> 'r" where
  "svc_FindTask E R i ps =
     (case ps of (s, c) \<Rightarrow>
     (case cache_GetTask R (now E) i c of
        (cached, c) \<Rightarrow>
          (case (case cached of Inr t \<Rightarrow> if t_ID t \<noteq> [] then Some t else None | Inl e \<Rightarrow> None) of
             Some t \<Rightarrow>
               (case repo_FindByTask E i s of
                  (Inr ss, s) \<Rightarrow> (Inr (t\<lparr>t_Subtasks := ss\<rparr>, True), s, c)
                | (Inl e, s) \<Rightarrow> (Inr (t, True), s, c))
           | None \<Rightarrow>
               (case repo_FindByID E i s of
                  (Inl e, s) \<Rightarrow> (Inl e, s, c)
                | (Inr t, s) \<Rightarrow> (Inr (t, False), s, c)))))"

definition svc_FindTasksByUser ::
    "env \<Rightarrow> engine \<Rightarrow> string \<Rightarrow> sort_options \<Rightarrow> filter_option \<Rightarrow> pg
      \<Rightarrow> ((go_err + task_list list) \<times> pg) outcome" where
  "svc_FindTasksByUser E Q u so fo s = repo_FindByUser E Q u so fo s"

definition svc_FindTasksByTag ::
    "env \<Rightarrow> string \<Rightarrow> string \<Rightarrow> pg \<Rightarrow> (go_err + task_list list) \<times> pg" where
  "svc_FindTasksByTag E u i s = repo_FindByTag E u i s"

definition svc_AdminFindAllTasks :: "env \<Rightarrow> pg \<Rightarrow> (go_err + task_list list) \<times> pg" where
  "svc_AdminFindAllTasks E s = repo_FindAll E s"

definition svc_AdminFindAllFiltered ::
    "env \<Rightarrow> string \<Rightarrow> string \<Rightarrow> string \<Rightarrow> string \<Rightarrow> pg \<Rightarrow> (go_err + task_list list) \<times> pg" where
  "svc_AdminFindAllFiltered E from to status priory s = repo_FindAllFiltered E from to status priory s"

section \<open>Administrative commands\<close>

definition svc_AdminSoftDelete :: "env \<Rightarrow> string \<Rightarrow> pg \<Rightarrow> (go_err + string) \<times> pg" where
  "svc_AdminSoftDelete E i s = repo_AdminSoftDelete E i s"

definition svc_AcknowledgeAdminDeletion :: "env \<Rightarrow> string \<Rightarrow> string \<Rightarrow> pg \<Rightarrow> (go_err + unit) \<times> pg" where
  "svc_AcknowledgeAdminDeletion E i u s = repo_AcknowledgeAdminDeletion E i u s"

definition svc_AdminSoftDeleteShared ::
    "env \<Rightarrow> string \<Rightarrow> pg \<Rightarrow> (go_err + string \<times> string \<times> string) \<times> pg" where
  "svc_AdminSoftDeleteShared E i s = repo_AdminSoftDeleteShared E i s"

definition svc_AcknowledgeAdminDeletionShared ::
    "env \<Rightarrow> string \<Rightarrow> string \<Rightarrow> pg \<Rightarrow> (go_err + unit) \<times> pg" where
  "svc_AcknowledgeAdminDeletionShared E i u s = repo_AcknowledgeAdminDeletionShared E i u s"

definition svc_AdminRestore :: "env \<Rightarrow> string \<Rightarrow> pg \<Rightarrow> (go_err + string) \<times> pg" where
  "svc_AdminRestore E i s = repo_AdminRestore E i s"

definition svc_AdminRestoreShared :: "env \<Rightarrow> string \<Rightarrow> pg \<Rightarrow> (go_err + string \<times> string) \<times> pg" where
  "svc_AdminRestoreShared E i s = repo_AdminRestoreShared E i s"

section \<open>The cache\<close>

definition svc_SetTask :: "'r redis \<Rightarrow> time \<Rightarrow> task \<Rightarrow> 'r \<Rightarrow> (go_err + unit) \<times> 'r" where
  "svc_SetTask R tm t c = cache_SetTask R tm t c"

definition svc_GetTask :: "'r redis \<Rightarrow> time \<Rightarrow> string \<Rightarrow> 'r \<Rightarrow> (go_err + task) \<times> 'r" where
  "svc_GetTask R tm i c = cache_GetTask R tm i c"

definition svc_DeleteCachedTask :: "'r redis \<Rightarrow> time \<Rightarrow> string \<Rightarrow> 'r \<Rightarrow> (go_err + unit) \<times> 'r" where
  "svc_DeleteCachedTask R tm i c = cache_DeleteTask R tm i c"

definition svc_GetList :: "'r redis \<Rightarrow> time \<Rightarrow> string \<Rightarrow> 'r \<Rightarrow> (go_err + task_list list) \<times> 'r" where
  "svc_GetList R tm k c = cache_GetList R tm k c"

definition svc_SetList :: "'r redis \<Rightarrow> time \<Rightarrow> string \<Rightarrow> task_list list \<Rightarrow> 'r \<Rightarrow> (go_err + unit) \<times> 'r" where
  "svc_SetList R tm k ts c = cache_SetList R tm k ts c"

definition svc_InvalidateUserLists :: "'r redis \<Rightarrow> time \<Rightarrow> string \<Rightarrow> 'r \<Rightarrow> (go_err + unit) \<times> 'r" where
  "svc_InvalidateUserLists R tm u c = cache_InvalidateUserLists R tm u c"

section \<open>Subtasks\<close>

definition svc_AddSubtask ::
    "env \<Rightarrow> string \<Rightarrow> string \<Rightarrow> string \<Rightarrow> pg \<Rightarrow> (go_err + subtask) \<times> pg" where
  "svc_AddSubtask E i u title s =
     (case repo_CreateSubtask E i u title s of (Inl e, s) \<Rightarrow> (Inl e, s) | (Inr x, s) \<Rightarrow> (Inr x, s))"

definition complete_patch :: update_patch where
  "complete_patch = empty_patch\<lparr>p_Status := Some StatusCompleted\<rparr>"

definition svc_ToggleSubtaskDone ::
    "env \<Rightarrow> string \<Rightarrow> string \<Rightarrow> pg \<Rightarrow> (go_err + subtask) \<times> pg" where
  "svc_ToggleSubtaskDone E i u s =
     (case repo_ToggleDone E i u s of
        (Inl e, s) \<Rightarrow> (Inl e, s)
      | (Inr sub, s) \<Rightarrow>
          if sub_IsDone sub
          then (case repo_AreAllDone E (sub_TaskID sub) s of
                  (Inl e, s) \<Rightarrow> (Inr sub, s)
                | (Inr allDone, s) \<Rightarrow>
                    if allDone
                    then (case repo_Update E (sub_TaskID sub) complete_patch s of
                            (Inl e, s) \<Rightarrow> (Inr sub, s)
                          | (Inr _, s) \<Rightarrow> (Inr sub, s))
                    else (Inr sub, s))
          else (Inr sub, s))"

definition svc_DeleteSubtask :: "env \<Rightarrow> string \<Rightarrow> string \<Rightarrow> pg \<Rightarrow> (go_err + unit) \<times> pg" where
  "svc_DeleteSubtask E i u s =
     (case repo_DeleteSubtask E i u s of (Inl e, s) \<Rightarrow> (Inl e, s) | (Inr _, s) \<Rightarrow> (Inr (), s))"

definition svc_UpdateSubtask ::
    "env \<Rightarrow> string \<Rightarrow> string \<Rightarrow> string \<Rightarrow> pg \<Rightarrow> (go_err + unit) \<times> pg" where
  "svc_UpdateSubtask E i u title s =
     (case repo_UpdateSubtask E i u title s of (Inl e, s) \<Rightarrow> (Inl e, s) | (Inr _, s) \<Rightarrow> (Inr (), s))"

section \<open>What the service keeps\<close>

lemma repo_AreAllDone_store: "repo_AreAllDone E i s = (r, s') \<Longrightarrow> store s' = store s"
  by (auto simp: repo_AreAllDone_def wrap_err_def split: prod.splits sum.splits dest: pg_query_store)

lemma repo_FindByTask_store: "repo_FindByTask E i s = (r, s') \<Longrightarrow> store s' = store s"
  by (auto simp: repo_FindByTask_def wrap_err_def split: prod.splits sum.splits dest: pg_query_store)

lemma svc_FindTask_store: "svc_FindTask E R i (s, c) = (r, s', c') \<Longrightarrow> store s' = store s"
  by (auto simp: svc_FindTask_def split: prod.splits sum.splits option.splits if_splits
      dest: repo_FindByID_store repo_FindByTask_store)

context task_repository
begin

lemma keeps_svc_CreateTask: "keeps (svc_CreateTask E t)"
  unfolding svc_CreateTask_def by (intro keeps_rules keeps_repo_Create keeps_repo_CreateSubtasks)

lemma keeps_svc_CreateTaskBatch: "keeps (svc_CreateTaskBatch E ts)"
  unfolding svc_CreateTaskBatch_def by (intro keeps_rules keeps_repo_CreateBatch)

lemma keeps_svc_UpdateTask: "keeps (svc_UpdateTask E i p)"
  unfolding svc_UpdateTask_def
  by (intro opt keeps_rules keeps_repo_Update quiet [of "repo_FindByID _ _", OF repo_FindByID_store])

lemma keeps_svc_DeleteTask: "keeps (svc_DeleteTask E i)"
  unfolding svc_DeleteTask_def by (intro keeps_rules keeps_repo_Delete)

lemma keeps_svc_DeleteTaskBatch: "keeps (svc_DeleteTaskBatch E ids)"
  unfolding svc_DeleteTaskBatch_def by (intro keeps_rules keeps_repo_DeleteBatch)

lemma keeps_svc_AddSubtask: "keeps (svc_AddSubtask E i u t)"
  unfolding svc_AddSubtask_def by (intro keeps_rules keeps_repo_CreateSubtask)

lemma keeps_svc_ToggleSubtaskDone: "keeps (svc_ToggleSubtaskDone E i u)"
  unfolding svc_ToggleSubtaskDone_def
  by (intro keeps_rules keeps_repo_ToggleDone keeps_repo_Update
      quiet [of "repo_AreAllDone _ _", OF repo_AreAllDone_store])

lemma keeps_svc_DeleteSubtask: "keeps (svc_DeleteSubtask E i u)"
  unfolding svc_DeleteSubtask_def by (intro keeps_rules keeps_repo_DeleteSubtask)

lemma keeps_svc_UpdateSubtask: "keeps (svc_UpdateSubtask E i u t)"
  unfolding svc_UpdateSubtask_def by (intro keeps_rules keeps_repo_UpdateSubtask)

lemma keeps_svc_admin:
  "keeps (svc_AdminSoftDelete E i)" "keeps (svc_AcknowledgeAdminDeletion E i u)"
  "keeps (svc_AdminSoftDeleteShared E i)" "keeps (svc_AcknowledgeAdminDeletionShared E i u)"
  "keeps (svc_AdminRestore E i)" "keeps (svc_AdminRestoreShared E i)"
  using keeps_repo_AdminSoftDelete keeps_repo_AcknowledgeAdminDeletion keeps_repo_AdminSoftDeleteShared
    keeps_repo_AcknowledgeAdminDeletionShared keeps_repo_AdminRestore keeps_repo_AdminRestoreShared
  by (simp_all add: svc_AdminSoftDelete_def [abs_def] svc_AcknowledgeAdminDeletion_def [abs_def]
      svc_AdminSoftDeleteShared_def [abs_def] svc_AcknowledgeAdminDeletionShared_def [abs_def]
      svc_AdminRestore_def [abs_def] svc_AdminRestoreShared_def [abs_def])

lemma keeps_svc_reads:
  "keeps (svc_FindTasksByTag E u i)" "keeps (svc_AdminFindAllTasks E)"
  "keeps (svc_AdminFindAllFiltered E from to status priory)"
  unfolding svc_FindTasksByTag_def repo_FindByTag_def svc_AdminFindAllTasks_def repo_FindAll_def
    svc_AdminFindAllFiltered_def repo_FindAllFiltered_def
  by (intro wrap query)+

lemmas keeps_service = keeps_svc_CreateTask keeps_svc_CreateTaskBatch keeps_svc_UpdateTask
  keeps_svc_DeleteTask keeps_svc_DeleteTaskBatch keeps_svc_AddSubtask keeps_svc_ToggleSubtaskDone
  keeps_svc_DeleteSubtask keeps_svc_UpdateSubtask keeps_svc_admin keeps_svc_reads

end

section \<open>Properties\<close>

text \<open>Inserting the subtasks of a task is one statement: all of them or none.\<close>

lemma repo_CreateSubtasks_cases:
  assumes "repo_CreateSubtasks E i ss s = (r, s')"
  obtains (failed) e where "r = Inl e" "store s' = store s"
  | (written) n tid where "pg_uuid E i = Some tid"
      "store s' = (store s)\<lparr>subtasks := subtasks (store s) @ subtask_rows E n 0 tid ss\<rparr>"
  | (none) "ss = []" "r = Inr ()" "s' = s"
proof (cases "ss = []")
  case True
  with assms show ?thesis by (intro none) (auto simp: repo_CreateSubtasks_def)
next
  case False
  define s1 where "s1 = s\<lparr>ctr := ctr s + length ss\<rparr>"
  have s1: "store s1 = store s" by (simp add: s1_def)
  obtain r1 where run: "pg_run (create_subtasks_sql E (ctr s) i ss) s1 = (r1, s')"
    and r: "r = fst (wrap_err ''batch insert subtasks'' (r1, s'))"
    using assms False
    by (cases "pg_run (create_subtasks_sql E (ctr s) i ss) s1")
      (auto simp: repo_CreateSubtasks_def Let_def s1_def wrap_err_def split: sum.splits)
  have shape: "\<exists>tid. pg_uuid E i = Some tid
      \<and> d' = d\<lparr>subtasks := subtasks d @ subtask_rows E (ctr s) 0 tid ss\<rparr>"
    if "create_subtasks_sql E (ctr s) i ss d = Inr (x, d')" for x d d'
    using that by (auto simp: create_subtasks_sql_def dest!: ins_all_subtask)
  from run show ?thesis
  proof (cases rule: pg_run_cases)
    case kept
    then show ?thesis using r s1 by (intro failed) auto
  next
    case (lost e x d)
    then show ?thesis using shape [OF lost(2)] s1 by (auto intro: written)
  next
    case (ok x d)
    then show ?thesis using shape [OF ok(2)] s1 by (auto intro: written)
  qed
qed

lemma svc_CreateTask_states:
  assumes "svc_CreateTask E t s = (r, s')"
  shows "(\<exists>e. r = Inl e) \<and> store s' = store s
    \<or> (\<exists>tid uid tag oid tags d. pg_uuid E (t_ID t) = Some tid \<and> pg_uuid E (t_UserID t) = Some uid
        \<and> tag_choice E t uid (store s) tag tags
        \<and> d = created E t tid uid tag oid tags (store s)
        \<and> (store s' = d \<and> (r = Inr () \<longrightarrow> t_Subtasks t = [])
           \<or> (\<exists>n. store s' = d\<lparr>subtasks := subtasks (store s) @ subtask_rows E n 0 tid (t_Subtasks t)\<rparr>)))"
proof -
  obtain r1 s1 where c: "repo_Create E t s = (r1, s1)" by force
  then show ?thesis
  proof (cases rule: repo_Create_cases)
    case (failed e)
    then show ?thesis using assms c by (auto simp: svc_CreateTask_def)
  next
    case (written tid uid tag oid tags)
    let ?d = "created E t tid uid tag oid tags (store s)"
    have subs: "subtasks ?d = subtasks (store s)" by (simp add: created_def)
    have "store s' = ?d \<and> (r = Inr () \<longrightarrow> t_Subtasks t = [])
        \<or> (\<exists>n. store s' = ?d\<lparr>subtasks := subtasks (store s) @ subtask_rows E n 0 tid (t_Subtasks t)\<rparr>)"
    proof (cases "r1 = Inr () \<and> HasSubtasks t")
      case False
      then show ?thesis using assms c written
        by (cases r1) (auto simp: svc_CreateTask_def HasSubtasks_def)
    next
      case True
      obtain r2 s2 where k: "repo_CreateSubtasks E (t_ID t) (t_Subtasks t) s1 = (r2, s2)" by force
      then have "s' = s2" "r = r2"
        using assms c True by (auto simp: svc_CreateTask_def split: sum.splits)
      with k written subs True show ?thesis
        by (cases rule: repo_CreateSubtasks_cases) (auto simp: HasSubtasks_def)
    qed
    note outcome = this
    show ?thesis
      by (rule disjI2, (rule exI)+, rule conjI [OF written(1)], rule conjI [OF written(2)],
          rule conjI [OF written(4)], rule conjI [OF refl], rule outcome)
  qed
qed

text \<open>creating a task ends in one of three states, whichever round trips fail: nothing
  was written and the caller learns of an error; the task and its event were written but
  none of its subtasks, which is a success only for a task without subtasks; or the task,
  its event and all its subtasks were written, numbered from 0 in the order given and all
  open.\<close>

theorem create_task_outcomes:
  assumes "svc_CreateTask E t s = (r, s')"
  shows "(\<exists>e. r = Inl e) \<and> store s' = store s
    \<or> (\<exists>tid uid tag oid tags d. pg_uuid E (t_ID t) = Some tid \<and> pg_uuid E (t_UserID t) = Some uid
        \<and> tag_choice E t uid (store s) tag tags
        \<and> d = created E t tid uid tag oid tags (store s)
        \<and> (store s' = d \<and> (r = Inr () \<longrightarrow> t_Subtasks t = [])
           \<or> (\<exists>n. store s' = d\<lparr>subtasks := subtasks (store s) @ subtask_rows E n 0 tid (t_Subtasks t)\<rparr>)))"
  by (rule svc_CreateTask_states [OF assms])

definition sample_with_subtask :: task where
  "sample_with_subtask = sample_task\<lparr>t_Subtasks := [zero_subtask\<lparr>sub_Title := ''x''\<rparr>]\<rparr>"

lemma pg_run_script:
  "pg_run stmt \<lparr>store = d, faults = Fine # fs, ctr = n\<rparr>
   = (case stmt d of Inl e \<Rightarrow> (Inl e, \<lparr>store = d, faults = fs, ctr = n\<rparr>)
      | Inr (x, d') \<Rightarrow> (Inr x, \<lparr>store = d', faults = fs, ctr = n\<rparr>))"
  "pg_run stmt \<lparr>store = d, faults = Refused # fs, ctr = n\<rparr>
   = (Inl (DbError ''connection''), \<lparr>store = d, faults = fs, ctr = n\<rparr>)"
  by (simp_all add: pg_run_def next_net_def split: sum.splits)

lemma sample_partial:
  "\<exists>e s'. svc_CreateTask sample_env sample_with_subtask (sample_pg\<lparr>faults := [Fine, Refused]\<rparr>) = (Inl e, s')
     \<and> length (tasks (store s')) = 1 \<and> subtasks (store s') = []"
proof -
  have "repo_Create sample_env sample_with_subtask (sample_pg\<lparr>faults := [Fine, Refused]\<rparr>)
    = (Inr (), \<lparr>store = created sample_env sample_with_subtask ''t'' ''u'' default_tag_id ''i'' [] empty_db,
               faults = [Refused], ctr = 1\<rparr>)"
    by (simp add: repo_Create_def sample_with_subtask_def sample_defs take_id_def nonblank_def
        pg_run_script create_plain_sql_def uuid_arg_def tag_arg_def ins_task_def ins_outbox_def
        new_task_row_def status_check_def priory_check_def StorageCode_def outbox_key_def
        int4_ok_def created_def new_event_def)
  then show ?thesis
    by (simp add: svc_CreateTask_def HasSubtasks_def sample_with_subtask_def repo_CreateSubtasks_def
        pg_run_script created_def empty_db_def)
qed

text \<open>The second state: the task is there, the caller got an error, the subtask is lost.\<close>

theorem create_task_outcomes_witness:
  "\<exists>e s' tid uid tag oid. svc_CreateTask sample_env sample_with_subtask
       (sample_pg\<lparr>faults := [Fine, Refused]\<rparr>) = (Inl e, s')
     \<and> store s' = created sample_env sample_with_subtask tid uid tag oid [] empty_db"
proof -
  obtain e s' where eq: "svc_CreateTask sample_env sample_with_subtask
       (sample_pg\<lparr>faults := [Fine, Refused]\<rparr>) = (Inl e, s')"
    and s': "length (tasks (store s')) = 1" "subtasks (store s') = []"
    using sample_partial by blast
  show ?thesis
    using create_task_outcomes [OF eq] s' eq
    by (auto simp: sample_with_subtask_def tag_choice_def nonblank_def sample_task_def zero_task_def)
qed

text \<open>What a toggle does to the tables: the mark of one row flips.\<close>

lemma toggle_done_sql_Inr:
  assumes "toggle_done_sql E i u d = Inr (row, d')" and ok: "db_ok d"
  shows "\<exists>r \<in> set (subtasks d). pg_uuid E i = Some (sr_id r)
     \<and> row = r\<lparr>sr_is_done := \<not> sr_is_done r\<rparr>
     \<and> d' = d\<lparr>subtasks := update_where (\<lambda>q. sr_id q = sr_id r)
          (\<lambda>q. q\<lparr>sr_is_done := \<not> sr_is_done q\<rparr>) (subtasks d)\<rparr>"
proof -
  obtain sid uid r where ids: "pg_uuid E i = Some sid" "pg_uuid E u = Some uid"
    and r: "find_row (owned_subtask d sid uid) (subtasks d) = Some r"
    and row: "row = r\<lparr>sr_is_done := \<not> sr_is_done r\<rparr>"
    and d': "d' = d\<lparr>subtasks := update_where (owned_subtask d sid uid)
          (\<lambda>q. q\<lparr>sr_is_done := \<not> sr_is_done q\<rparr>) (subtasks d)\<rparr>"
    using assms(1) by (auto simp: toggle_done_sql_def split: option.splits)
  have mem: "r \<in> set (subtasks d)" "owned_subtask d sid uid r" using r by (auto dest: find_row_Some)
  then have sid: "sr_id r = sid" by (simp add: owned_subtask_def)
  have "owned_subtask d sid uid q \<longleftrightarrow> sr_id q = sr_id r" if "q \<in> set (subtasks d)" for q
  proof
    assume "sr_id q = sr_id r"
    then have "q = r"
      using subtask_ids_distinct [OF ok] that mem(1) by (auto simp: distinct_map inj_on_def)
    with mem show "owned_subtask d sid uid q" by simp
  qed (simp add: owned_subtask_def sid)
  then have "update_where (owned_subtask d sid uid) f (subtasks d)
      = update_where (\<lambda>q. sr_id q = sr_id r) f (subtasks d)" for f
    by (intro update_where_cong) auto
  with ids mem sid row d' show ?thesis by auto
qed

lemma apply_complete:
  "apply_clauses (set_clauses complete_patch) = (\<lambda>r. r\<lparr>tr_status := ''3''\<rparr>)"
  by (simp add: fun_eq_iff apply_clauses_def set_clauses_def complete_patch_def empty_patch_def
      StorageCode_def)

lemma update_body_complete:
  "update_body E i complete_patch s = update_finish E i (set_clauses complete_patch) s"
  by (simp add: update_body_def complete_patch_def empty_patch_def)

lemma complete_tables:
  assumes "repo_Update E i complete_patch s = (r, s')" and "pg_uuid E i = Some i"
  shows "subtasks (store s') = subtasks (store s)"
    and "tasks (store s') = tasks (store s) \<and> (\<exists>e. r = Inl e)
      \<or> tasks (store s') = update_where (\<lambda>t. tr_task_id t = i) (\<lambda>t. t\<lparr>tr_status := ''3''\<rparr>) (tasks (store s))"
proof -
  have "subtasks (store s') = subtasks (store s)
    \<and> (tasks (store s') = tasks (store s) \<and> (\<exists>e. r = Inl e)
      \<or> tasks (store s') = update_where (\<lambda>t. tr_task_id t = i) (\<lambda>t. t\<lparr>tr_status := ''3''\<rparr>) (tasks (store s)))"
  proof (cases "uuid_Parse E i")
    case False
    then show ?thesis using assms by (auto simp: repo_Update_def)
  next
    case True
    then have "pg_tx ''begin tx'' (Wrap ''commit update tx'') (update_body E i complete_patch) s = (r, s')"
      using assms by (simp add: repo_Update_def)
    then show ?thesis
    proof (cases rule: pg_tx_cases)
      case (undone e)
      then show ?thesis by simp
    next
      case (committed t s1 s2)
      have ids: "tr_task_id (apply_clauses (set_clauses complete_patch) q) = tr_task_id q" for q
        by (simp add: apply_complete)
      show ?thesis
        using update_finish_Inr [OF committed(3) [unfolded update_body_complete] ids] committed assms(2)
        by (auto simp: apply_complete)
    qed
  qed
  then show "subtasks (store s') = subtasks (store s)"
    "tasks (store s') = tasks (store s) \<and> (\<exists>e. r = Inl e)
      \<or> tasks (store s') = update_where (\<lambda>t. tr_task_id t = i) (\<lambda>t. t\<lparr>tr_status := ''3''\<rparr>) (tasks (store s))"
    by auto
qed

text \<open>A server that answers completes a task that is there.\<close>

lemma complete_healthy:
  assumes healthy: "faults s = []" and ok: "db_ok (store s)" and laws: "uuid_laws E"
    and i: "pg_uuid E i = Some i" "uuid_Parse E i" "i \<in> tr_task_id ` set (tasks (store s))"
    and fresh: "fresh E (ctr s) \<notin> ob_id ` set (outbox_events (store s))"
    and room: "length (update_versions (store s) i) < 2 ^ 31"
  shows "\<exists>t s'. repo_Update E i complete_patch s = (Inr t, s')"
proof -
  let ?f = "\<lambda>t. t\<lparr>tr_status := ''3''\<rparr>"
  let ?d = "(store s)\<lparr>tasks := update_where (\<lambda>t. tr_task_id t = i) ?f (tasks (store s))\<rparr>"
  obtain row where row: "find_row (\<lambda>t. tr_task_id t = i) (tasks (store s)) = Some row"
    using i(3) by (cases "find_row (\<lambda>t. tr_task_id t = i) (tasks (store s))") (auto simp: find_row_None)
  have hit: "filter (\<lambda>t. tr_task_id t = i) (tasks (store s)) \<noteq> []"
    using i(3) by (auto simp: filter_empty_conv)
  have upd: "\<exists>n. n \<noteq> 0 \<and> update_row_sql E i (set_clauses complete_patch) (store s) = Inr (n, ?d)"
    using i(1) hit ok
    by (auto simp: update_row_sql_def uuid_arg_def apply_complete Let_def list_ex_iff status_check_def
        db_ok_def schema_ok_def)
  have row': "find_row (\<lambda>t. tr_task_id t = i) (tasks ?d) = Some (?f row)"
    using row by (simp add: find_row_update_hit)
  then obtain m where fetch: "fetch_updated_sql E i ?d = Inr m"
    using i(1) by (auto simp: fetch_updated_sql_def find_task_sql_def uuid_arg_def)
  have v: "next_version ?d i = int (length (update_versions (store s) i))"
    using next_version_length [of "store s" i] ok
    by (simp add: next_version_def update_versions_def db_ok_def)
  have key: "(''task'', i, ''update'', next_version ?d i) \<notin> outbox_key ` set (outbox_events (store s))"
  proof
    assume "(''task'', i, ''update'', next_version ?d i) \<in> outbox_key ` set (outbox_events (store s))"
    then have "next_version ?d i \<in> set (update_versions (store s) i)"
      by (auto simp: outbox_key_def update_versions_def)
    moreover have "set (update_versions (store s) i) = int ` {..<length (update_versions (store s) i)}"
      using versions_okD [of "store s" i] ok by (metis db_ok_def atLeast_upt list.set_map)
    ultimately show False using v by auto
  qed
  have ev: "\<exists>d'. update_event_sql E (fresh E (ctr s)) i j ?d = Inr ((), d')" for j
    using i(1) fresh key room laws
    by (auto simp: update_event_sql_def uuid_arg_def uuid_lawsD ins_outbox_def int4_ok_def v)
  let ?j = "payload_json (toTaskPayload (modelToEntity E m))"
  obtain n where n: "n \<noteq> 0" "update_row_sql E i (set_clauses complete_patch) (store s) = Inr (n, ?d)"
    using upd by blast
  obtain d' where d': "update_event_sql E (fresh E (ctr s)) i ?j ?d = Inr ((), d')" using ev by blast
  have len: "set_clauses complete_patch \<noteq> []"
    by (simp add: set_clauses_def complete_patch_def empty_patch_def)
  have fin: "update_finish E i (set_clauses complete_patch) s
    = (Inr (modelToEntity E m), s\<lparr>store := d', ctr := Suc (ctr s)\<rparr>)"
    using n d' len healthy fetch
    by (simp add: update_finish_def pg_run_healthy pg_query_healthy take_id_def)
  show ?thesis
    using i(2) healthy
    by (simp add: repo_Update_def pg_tx_def next_net_healthy update_body_complete fin)
qed

text \<open>The two steps before the completion: the toggle itself, and the question whether all are done.\<close>

lemma repo_ToggleDone_effect:
  assumes "repo_ToggleDone E i u s = (Inr sub, s1)" and ok: "db_ok (store s)"
  obtains r where "r \<in> set (subtasks (store s))" "pg_uuid E i = Some (sr_id r)"
    "sub = subtaskModelToEntity (r\<lparr>sr_is_done := \<not> sr_is_done r\<rparr>)"
    "store s1 = (store s)\<lparr>subtasks := update_where (\<lambda>q. sr_id q = sr_id r)
       (\<lambda>q. q\<lparr>sr_is_done := \<not> sr_is_done q\<rparr>) (subtasks (store s))\<rparr>"
    "ctr s1 = ctr s" "faults s = [] \<Longrightarrow> faults s1 = []" "db_ok (store s1)"
proof -
  obtain row where run: "pg_run (toggle_done_sql E i u) s = (Inr row, s1)" and sub: "sub = subtaskModelToEntity row"
    using assms(1) by (auto simp: repo_ToggleDone_def wrap_err_def split: prod.splits sum.splits if_splits)
  obtain d where d: "toggle_done_sql E i u (store s) = Inr (row, d)" "store s1 = d" "ctr s1 = ctr s"
    using run by (cases rule: pg_run_cases) auto
  have f1: "faults s1 = []" if "faults s = []"
    using run that by (auto simp: pg_run_healthy split: sum.splits)
  have ok1: "db_ok (store s1)"
    using repo_ToggleDone_db_ok assms(1) ok by (rule db_inv.keepsD [THEN mp])
  show thesis
    using toggle_done_sql_Inr [OF d(1) ok] d(2,3) sub f1 ok1 that by blast
qed

lemma repo_AreAllDone_answer:
  assumes "repo_AreAllDone E i s = (a, s')" and uuid: "pg_uuid E i = Some i"
  shows "store s' = store s" and "ctr s' = ctr s"
    and "a = Inr b \<Longrightarrow> b \<longleftrightarrow> list_all (\<lambda>q. sr_task_id q = i \<longrightarrow> sr_is_done q) (subtasks (store s))"
    and "faults s = [] \<Longrightarrow> (\<exists>b. a = Inr b) \<and> s' = s"
proof -
  show "store s' = store s" "ctr s' = ctr s"
    using assms(1) by (auto simp: repo_AreAllDone_def wrap_err_def split: prod.splits sum.splits dest: pg_query_store)
  show "b \<longleftrightarrow> list_all (\<lambda>q. sr_task_id q = i \<longrightarrow> sr_is_done q) (subtasks (store s))" if "a = Inr b"
    using assms(1) that uuid
    by (auto simp: repo_AreAllDone_def wrap_err_def count_open_sql_def uuid_arg_def filter_empty_conv list_all_iff
        split: prod.splits sum.splits dest!: pg_query_Inr)
  show "(\<exists>b. a = Inr b) \<and> s' = s" if "faults s = []"
    using assms(1) that uuid
    by (auto simp: repo_AreAllDone_def pg_query_healthy count_open_sql_def uuid_arg_def)
qed

text \<open>C25: toggling a subtask flips its mark, whatever fails after that. The task is touched only
  when the toggle finished its last open subtask; then its status becomes completed and
  nothing else of it changes. On a server that answers, the task is always completed then.\<close>

theorem toggle_completes_task:
  assumes toggle: "svc_ToggleSubtaskDone E i u s = (Inr sub, s')" and ok: "db_ok (store s)"
    and canonical: "\<forall>q \<in> set (subtasks (store s)). pg_uuid E (sr_task_id q) = Some (sr_task_id q)"
  shows "\<exists>r \<in> set (subtasks (store s)). pg_uuid E i = Some (sr_id r)
     \<and> sub = subtaskModelToEntity (r\<lparr>sr_is_done := \<not> sr_is_done r\<rparr>)
     \<and> subtasks (store s') = update_where (\<lambda>q. sr_id q = sr_id r)
          (\<lambda>q. q\<lparr>sr_is_done := \<not> sr_is_done q\<rparr>) (subtasks (store s))
     \<and> (let last = (sub_IsDone sub
            \<and> list_all (\<lambda>q. sr_task_id q = sr_task_id r \<longrightarrow> sr_is_done q) (subtasks (store s')));
           completed = update_where (\<lambda>t. tr_task_id t = sr_task_id r) (\<lambda>t. t\<lparr>tr_status := ''3''\<rparr>)
             (tasks (store s))
        in (tasks (store s') = tasks (store s) \<or> last \<and> tasks (store s') = completed)
           \<and> (last \<and> faults s = [] \<and> uuid_laws E \<and> uuid_Parse E (sr_task_id r)
                \<and> fresh E (ctr s) \<notin> ob_id ` set (outbox_events (store s))
                \<and> length (update_versions (store s) (sr_task_id r)) < 2 ^ 31
              \<longrightarrow> tasks (store s') = completed))"
proof -
  obtain s1 where t: "repo_ToggleDone E i u s = (Inr sub, s1)"
    using toggle by (auto simp: svc_ToggleSubtaskDone_def split: prod.splits sum.splits if_splits)
  obtain r where r: "r \<in> set (subtasks (store s))" "pg_uuid E i = Some (sr_id r)"
    "sub = subtaskModelToEntity (r\<lparr>sr_is_done := \<not> sr_is_done r\<rparr>)"
    and s1: "store s1 = (store s)\<lparr>subtasks := update_where (\<lambda>q. sr_id q = sr_id r)
          (\<lambda>q. q\<lparr>sr_is_done := \<not> sr_is_done q\<rparr>) (subtasks (store s))\<rparr>"
    and c1: "ctr s1 = ctr s" and f1: "faults s = [] \<Longrightarrow> faults s1 = []" and ok1: "db_ok (store s1)"
    using repo_ToggleDone_effect [OF t ok] by blast
  let ?i = "sr_task_id r"
  have tid: "sub_TaskID sub = ?i" using r(3) by (simp add: subtaskModelToEntity_def)
  have uuid: "pg_uuid E ?i = Some ?i" using canonical r(1) by blast
  define last where "last \<longleftrightarrow> sub_IsDone sub
     \<and> list_all (\<lambda>q. sr_task_id q = ?i \<longrightarrow> sr_is_done q) (subtasks (store s1))"
  define completed where "completed = update_where (\<lambda>t. tr_task_id t = ?i) (\<lambda>t. t\<lparr>tr_status := ''3''\<rparr>) (tasks (store s))"
  obtain a s2 where ask: "repo_AreAllDone E ?i s1 = (a, s2)" by force
  note answer = repo_AreAllDone_answer [OF ask uuid]
  obtain g s3 where upd: "repo_Update E ?i complete_patch s2 = (g, s3)" by force
  have s': "s' = (if sub_IsDone sub \<and> a = Inr True then s3 else if sub_IsDone sub then s2 else s1)"
    using toggle t ask upd tid
    by (cases a; cases g) (auto simp: svc_ToggleSubtaskDone_def)
  note upd_tables = complete_tables [OF upd uuid]
  have subs: "subtasks (store s') = subtasks (store s1)" using s' upd_tables(1) answer(1) by simp
  have tasks1: "tasks (store s1) = tasks (store s)" by (simp add: s1)
  have safe: "tasks (store s') = tasks (store s) \<or> last \<and> tasks (store s') = completed"
    using s' answer upd_tables(2) tasks1 by (auto simp: last_def completed_def)
  have live: "tasks (store s') = completed"
    if h: "last" "faults s = []" "uuid_laws E" "uuid_Parse E ?i"
      "fresh E (ctr s) \<notin> ob_id ` set (outbox_events (store s))"
      "length (update_versions (store s) ?i) < 2 ^ 31"
  proof -
    obtain b where b: "a = Inr b" "s2 = s1" using answer(4) f1 h(2) by blast
    then have "b" using answer(3) h(1) by (simp add: last_def)
    have "?i \<in> tr_task_id ` set (tasks (store s))"
      using r(1) ok by (auto simp: db_ok_def schema_ok_def)
    then have "\<exists>t s'. repo_Update E ?i complete_patch s1 = (Inr t, s')"
      using h f1 ok1 uuid c1 tasks1
      by (intro complete_healthy) (auto simp: s1 update_versions_def)
    then show ?thesis
      using upd_tables(2) b \<open>b\<close> s' h(1) upd tasks1 by (auto simp: completed_def last_def)
  qed
  show ?thesis
    using r subs safe live s1
    by (intro bexI [of _ r]) (auto simp: Let_def last_def completed_def)
qed

lemma sample_pg2_ok: "db_ok (store sample_pg2)"
  by (simp add: db_ok_def schema_ok_def acks_ok_def shared_status_ok_def versions_ok_def
      sample_pg2_def sample_row_def sample_defs new_task_row_def status_check_def
      priory_check_def StorageCode_def)

lemma sample_toggle:
  "\<exists>s'. svc_ToggleSubtaskDone sample_env ''s'' ''u'' sample_pg2
     = (Inr \<lparr>sub_ID = ''s'', sub_TaskID = ''t'', sub_Title = ''x'', sub_IsDone = True, sub_Order = 0\<rparr>, s')"
proof -
  let ?s = "sample_pg2\<lparr>store := (store sample_pg2)\<lparr>subtasks := [\<lparr>sr_id = ''s'', sr_task_id = ''t'',
      sr_title = ''x'', sr_is_done = True, sr_order_num = 0\<rparr>]\<rparr>\<rparr>"
  have t: "repo_ToggleDone sample_env ''s'' ''u'' sample_pg2
    = (Inr \<lparr>sub_ID = ''s'', sub_TaskID = ''t'', sub_Title = ''x'', sub_IsDone = True, sub_Order = 0\<rparr>, ?s)"
    by (simp add: repo_ToggleDone_def pg_run_healthy sample_pg2_def toggle_done_sql_def uuid_arg_def
        owned_subtask_def sample_row_def new_task_row_def sample_env_def sample_task_def
        subtaskModelToEntity_def)
  have a: "repo_AreAllDone sample_env ''t'' ?s = (Inr True, ?s)"
    by (simp add: repo_AreAllDone_def pg_query_healthy sample_pg2_def count_open_sql_def uuid_arg_def
        sample_env_def)
  obtain g s3 where "repo_Update sample_env ''t'' complete_patch ?s = (g, s3)" by force
  with t a show ?thesis by (cases g) (auto simp: svc_ToggleSubtaskDone_def)
qed

theorem toggle_completes_task_witness:
  "\<exists>s'. snd (svc_ToggleSubtaskDone sample_env ''s'' ''u'' sample_pg2) = s'
     \<and> map tr_status (tasks (store sample_pg2)) = [''2''] \<and> map tr_status (tasks (store s')) = [''3'']"
proof -
  obtain sub s' where eq: "svc_ToggleSubtaskDone sample_env ''s'' ''u'' sample_pg2 = (Inr sub, s')"
    and sub: "sub_IsDone sub"
    using sample_toggle by auto
  have rows: "subtasks (store sample_pg2) = [\<lparr>sr_id = ''s'', sr_task_id = ''t'', sr_title = ''x'',
      sr_is_done = False, sr_order_num = 0\<rparr>]"
    "tasks (store sample_pg2) = [sample_row]" "outbox_events (store sample_pg2) = []"
    "faults sample_pg2 = []"
    by (simp_all add: sample_pg2_def empty_db_def)
  have env: "pg_uuid sample_env ''t'' = Some ''t''" "uuid_Parse sample_env ''t''"
    by (simp_all add: sample_env_def)
  have row: "tr_task_id sample_row = ''t''" "tr_status sample_row = ''2''"
    by (simp_all add: sample_row_def new_task_row_def sample_task_def StorageCode_def)
  have "\<forall>q \<in> set (subtasks (store sample_pg2)). pg_uuid sample_env (sr_task_id q) = Some (sr_task_id q)"
    by (simp add: rows env)
  from toggle_completes_task [OF eq sample_pg2_ok this] show ?thesis
    by (auto simp: rows env row sample_env_laws update_versions_def eq sub Let_def)
qed

text \<open>The subtasks the database has for a task, in their order.\<close>

definition subtasks_now :: "db \<Rightarrow> string \<Rightarrow> subtask list" where
  "subtasks_now d tid =
     map subtaskModelToEntity (sort_key sr_order_num (filter (\<lambda>r. sr_task_id r = tid) (subtasks d)))"

text \<open>C26: finding a task changes nothing. An answer from the cache is the live cached task of
  that id with the subtasks replaced, an answer from the database the row of that id; and
  unless the connection fails the subtasks are the ones the database has now, so a toggled
  subtask is never shown stale.\<close>

theorem find_task_sources:
  assumes R: "redis_store R view up"
    and find: "svc_FindTask E R i (s, c) = (Inr (t, fromCache), s', c')"
  shows "store s' = store s \<and> view c' = view c
     \<and> (if fromCache
        then \<exists>ct. live_value (now E) (view c) (task_key i) = Some (DocTask ct) \<and> ct_ID ct \<noteq> []
               \<and> t = (fromCacheTask ct)\<lparr>t_Subtasks := t_Subtasks t\<rparr>
        else \<exists>tid row. pg_uuid E i = Some tid
               \<and> find_row (\<lambda>r. tr_task_id r = tid) (tasks (store s)) = Some row
               \<and> t = (modelToEntity E (row_model (store s) row))\<lparr>t_Subtasks := t_Subtasks t\<rparr>)
     \<and> (faults s = [] \<longrightarrow> (\<forall>tid. pg_uuid E i = Some tid \<longrightarrow> t_Subtasks t = subtasks_now (store s) tid))"
proof -
  obtain g c1 where g: "rd_Get R (now E) (task_key i) c = (g, c1)" by force
  note get = redis_store.get [OF R g]
  obtain cached c2 where cg: "cache_GetTask R (now E) i c = (cached, c2)" by force
  then have c2: "c2 = c1"
    and cached: "cached = Inr x \<Longrightarrow> \<exists>ct. g = Inr (DocTask ct) \<and> x = fromCacheTask ct" for x
    using g by (auto simp: cache_GetTask_def split: sum.splits document.splits)
  have st: "store s' = store s" using find by (auto dest: svc_FindTask_store)
  have c': "c' = c1"
    using find cg c2 by (auto simp: svc_FindTask_def split: prod.splits sum.splits if_splits)
  have by_task: "ss = subtasks_now (store s) tid"
    if "repo_FindByTask E i s = (Inr ss, s1)" "pg_uuid E i = Some tid" for ss s1 tid
    using that by (auto simp: repo_FindByTask_def wrap_err_def subtasks_of_sql_def uuid_arg_def
        subtasks_now_def split: prod.splits sum.splits dest!: pg_query_Inr)
  show ?thesis
  proof (cases fromCache)
    case True
    then obtain x where x: "cached = Inr x" "t_ID x \<noteq> []"
      and t: "(case repo_FindByTask E i s of (Inr ss, s) \<Rightarrow> t = x\<lparr>t_Subtasks := ss\<rparr> | (Inl e, s) \<Rightarrow> t = x)"
      using find cg by (auto simp: svc_FindTask_def split: prod.splits sum.splits if_splits)
    obtain ct where ct: "g = Inr (DocTask ct)" "x = fromCacheTask ct" using cached [OF x(1)] by blast
    have "live_value (now E) (view c) (task_key i) = Some (DocTask ct)" using get ct(1) by simp
    moreover have "t = x\<lparr>t_Subtasks := t_Subtasks t\<rparr>" using t by (auto split: prod.splits sum.splits)
    moreover have "t_Subtasks t = subtasks_now (store s) tid" if h: "faults s = []" "pg_uuid E i = Some tid" for tid
    proof -
      obtain ss s1 where "repo_FindByTask E i s = (Inr ss, s1)"
        using h by (auto simp: repo_FindByTask_def pg_query_healthy subtasks_of_sql_def uuid_arg_def)
      with t by_task [OF this h(2)] show ?thesis by simp
    qed
    moreover have "ct_ID ct \<noteq> []" using x ct by (simp add: fromCacheTask_def)
    ultimately show ?thesis using True st c' get ct by auto
  next
    case False
    then obtain s1 where f: "repo_FindByID E i s = (Inr t, s1)"
      using find cg by (auto simp: svc_FindTask_def split: prod.splits sum.splits if_splits)
    then obtain m s2 where m: "pg_query (find_task_sql E i) s = (Inr m, s2)"
      and t: "t = (modelToEntity E m)\<lparr>t_Subtasks := t_Subtasks t\<rparr>"
      and sub: "(case pg_query (subtasks_of_sql E i) s2 of (Inl e, s) \<Rightarrow> True
         | (Inr rs, s) \<Rightarrow> t_Subtasks t = map subtaskModelToEntity rs)"
      by (auto simp: repo_FindByID_def Let_def split: prod.splits sum.splits if_splits)
    obtain tid row where row: "pg_uuid E i = Some tid"
      "find_row (\<lambda>r. tr_task_id r = tid) (tasks (store s)) = Some row" "m = row_model (store s) row"
      using pg_query_Inr [OF m] by (auto simp: find_task_sql_def split: option.splits)
    have "t_Subtasks t = subtasks_now (store s) tid" if h: "faults s = []"
      using sub m h row by (auto simp: pg_query_healthy subtasks_of_sql_def uuid_arg_def subtasks_now_def)
    with False st c' get t row show ?thesis by auto
  qed
qed

theorem find_task_sources_witness:
  "\<exists>t r. svc_FindTask sample_env server_ops ''t'' (sample_pg2, sample_server) = (Inr (t, False), r)
     \<and> t_Title t = ''a'' \<and> map sub_Title (t_Subtasks t) = [''x'']"
proof -
  let ?s = sample_pg2
  have row: "find_row (\<lambda>r. tr_task_id r = ''t'') (tasks (store ?s)) = Some sample_row"
    by (simp add: sample_pg2_def sample_row_def new_task_row_def sample_task_def)
  have env: "pg_uuid sample_env ''t'' = Some ''t''" by (simp add: sample_env_def)
  have h: "faults ?s = []" by (simp add: sample_pg2_def)
  have find: "\<exists>t. repo_FindByID sample_env ''t'' ?s = (Inr t, ?s)"
    using row env h
    by (simp add: repo_FindByID_def pg_query_healthy find_task_sql_def subtasks_of_sql_def uuid_arg_def Let_def)
  obtain c where "cache_GetTask server_ops (now sample_env) ''t'' sample_server = (Inl RedisNil, c)"
    by (simp add: cache_GetTask_def server_ops_def sv_step_def sample_server_def live_value_def empty_view_def)
  with find obtain t where eq: "svc_FindTask sample_env server_ops ''t'' (?s, sample_server) = (Inr (t, False), ?s, c)"
    by (auto simp: svc_FindTask_def)
  have "subtasks_now (store ?s) ''t''
    = [subtaskModelToEntity \<lparr>sr_id = ''s'', sr_task_id = ''t'', sr_title = ''x'', sr_is_done = False, sr_order_num = 0\<rparr>]"
    by (simp add: subtasks_now_def sample_pg2_def)
  then have subs: "t_Subtasks t = [subtaskModelToEntity
      \<lparr>sr_id = ''s'', sr_task_id = ''t'', sr_title = ''x'', sr_is_done = False, sr_order_num = 0\<rparr>]"
    and t: "t = (modelToEntity sample_env (row_model (store ?s) sample_row))\<lparr>t_Subtasks := t_Subtasks t\<rparr>"
    using find_task_sources [OF server_redis eq] env h row by auto
  have "t_Title t = ''a''"
    by (subst t) (simp add: modelToEntity_def row_model_def sample_row_def new_task_row_def sample_task_def)
  with eq subs show ?thesis by (auto simp: subtaskModelToEntity_def)
qed

end
