(* ===== verification/Batch.thy ===== *)
theory Batch
  imports TaskService
begin

text \<open>
  \<open>tasks/batch/batch.go\<close>: creations and deletions the handlers accept go through two
  buffered channels to two workers, which collect them and write them in batches. The
  workers, the handlers and the goroutines that update the cache run interleaved: a state
  holds them all, and an event is one step of one of them. A worker's \<open>select\<close> picks any
  ready case, so an event names the case. \<open>flushCreate\<close> and \<open>flushDelete\<close> are one step each;
  the cache goroutines they start go on by themselves.
\<close>

definition taskChannelSize :: nat where [simp]: "taskChannelSize = 10000"
definition taskMaxBatch :: nat where [simp]: "taskMaxBatch = 500"
definition deleteChannelSize :: nat where [simp]: "deleteChannelSize = 10000"
definition deleteMaxBatch :: nat where [simp]: "deleteMaxBatch = 500"
definition redisConcurrencyLimit :: nat where [simp]: "redisConcurrencyLimit = 500"

record delete_item =
  di_ID :: string
  di_UserID :: string

section \<open>The workers\<close>

text \<open>
  \<open>runCreateWorker\<close> and \<open>runDeleteWorker\<close> are the same loop over different items.
  \<open>Running\<close> is the outer loop, \<open>Draining\<close> the inner one, entered when the context is
  cancelled. A step gives the new state of the worker and the batches it hands to its flush
  function, at most one; it is \<open>None\<close> where the case is not ready.
\<close>

datatype phase = Running | Draining | Stopped

datatype choice = Receive | TickerFires | CtxDone | Default

record 'a worker =
  w_ch :: "'a list"
  w_batch :: "'a list"
  w_phase :: phase

definition new_worker :: "'a worker" where
  "new_worker = \<lparr>w_ch = [], w_batch = [], w_phase = Running\<rparr>"

text \<open>\<open>batch = append(batch, item)\<close>, and a flush once it is full.\<close>

definition receive :: "nat \<Rightarrow> 'a worker \<Rightarrow> ('a worker \<times> 'a list list) option" where
  "receive maxBatch w =
     (case w_ch w of
        [] \<Rightarrow> None
      | x # xs \<Rightarrow>
          (let batch = w_batch w @ [x]
           in if length batch \<ge> maxBatch
              then Some (w\<lparr>w_ch := xs, w_batch := []\<rparr>, [batch])
              else Some (w\<lparr>w_ch := xs, w_batch := batch\<rparr>, [])))"

definition flush_rest :: "'a worker \<Rightarrow> 'a worker \<times> 'a list list" where
  "flush_rest w = (if length (w_batch w) > 0 then (w\<lparr>w_batch := []\<rparr>, [w_batch w]) else (w, []))"

definition worker_step ::
    "nat \<Rightarrow> bool \<Rightarrow> choice \<Rightarrow> 'a worker \<Rightarrow> ('a worker \<times> 'a list list) option" where
  "worker_step maxBatch cancelled c w =
     (case w_phase w of
        Running \<Rightarrow>
          (case c of
             Receive \<Rightarrow> receive maxBatch w
           | TickerFires \<Rightarrow> Some (flush_rest w)
           | CtxDone \<Rightarrow> if cancelled then Some (flush_rest (w\<lparr>w_phase := Draining\<rparr>)) else None
           | Default \<Rightarrow> None)
      | Draining \<Rightarrow>
          (case c of
             Receive \<Rightarrow> receive maxBatch w
           | Default \<Rightarrow> if w_ch w = [] then Some (flush_rest (w\<lparr>w_phase := Stopped\<rparr>)) else None
           | _ \<Rightarrow> None)
      | Stopped \<Rightarrow> None)"

text \<open>The phases in the order a worker goes through them.\<close>

fun rank :: "phase \<Rightarrow> nat" where
  "rank Running = 0"
| "rank Draining = 1"
| "rank Stopped = 2"

instantiation phase :: linorder
begin

definition less_eq_phase :: "phase \<Rightarrow> phase \<Rightarrow> bool" where
  "a \<le> b \<longleftrightarrow> rank a \<le> rank b"

definition less_phase :: "phase \<Rightarrow> phase \<Rightarrow> bool" where
  "a < b \<longleftrightarrow> rank a < rank b"

instance
proof
  fix a b c :: phase
  show "a < b \<longleftrightarrow> a \<le> b \<and> \<not> b \<le> a" by (auto simp: less_eq_phase_def less_phase_def)
  show "a \<le> a" by (simp add: less_eq_phase_def)
  show "a \<le> b \<Longrightarrow> b \<le> c \<Longrightarrow> a \<le> c" by (simp add: less_eq_phase_def)
  show "a \<le> b \<Longrightarrow> b \<le> a \<Longrightarrow> a = b" by (cases a; cases b) (simp_all add: less_eq_phase_def)
  show "a \<le> b \<or> b \<le> a" by (auto simp: less_eq_phase_def)
qed

end

text \<open>A non-blocking send on a buffered channel.\<close>

definition offer :: "nat \<Rightarrow> 'a \<Rightarrow> 'a worker \<Rightarrow> bool \<times> 'a worker" where
  "offer cap x w = (if length (w_ch w) < cap then (True, w\<lparr>w_ch := w_ch w @ [x]\<rparr>) else (False, w))"

section \<open>Flushing\<close>

text \<open>
  The calls a cache goroutine makes, their errors ignored. A goroutine is started for an
  item only if the semaphore has room.
\<close>

definition create_job :: "task \<Rightarrow> cache_op list" where
  "create_job t = [OpSetTask t, OpInvalidateUserLists (t_UserID t)]"

definition delete_job :: "delete_item \<Rightarrow> cache_op list" where
  "delete_job it =
     OpDeleteTask (di_ID it) # (if di_UserID it \<noteq> [] then [OpInvalidateUserLists (di_UserID it)] else [])"

fun spawn :: "('a \<Rightarrow> cache_op list) \<Rightarrow> 'a list \<Rightarrow> cache_op list list \<Rightarrow> cache_op list list" where
  "spawn mk [] jobs = jobs"
| "spawn mk (x # xs) jobs =
     spawn mk xs (if length jobs < redisConcurrencyLimit then jobs @ [mk x] else jobs)"

text \<open>The loop that creates the tasks with a tag name one by one and collects the others.\<close>

fun create_tagged :: "env \<Rightarrow> task list \<Rightarrow> pg \<Rightarrow> task list \<times> pg" where
  "create_tagged E [] s = ([], s)"
| "create_tagged E (t # ts) s =
     (if nonblank (t_TagName t)
      then (case svc_CreateTask E t s of (_, s) \<Rightarrow> create_tagged E ts s)
      else (case create_tagged E ts s of (simple, s) \<Rightarrow> (t # simple, s)))"

definition flushCreate :: "env \<Rightarrow> task list \<Rightarrow> pg \<times> cache_op list list \<Rightarrow> pg \<times> cache_op list list" where
  "flushCreate E ts sj =
     (case sj of (s, jobs) \<Rightarrow>
     (case create_tagged E ts s of (simple, s) \<Rightarrow>
       (let s = (if length simple > 0 then snd (svc_CreateTaskBatch E simple s) else s)
        in (s, spawn create_job ts jobs))))"

definition flushDelete ::
    "env \<Rightarrow> delete_item list \<Rightarrow> pg \<times> cache_op list list \<Rightarrow> pg \<times> cache_op list list" where
  "flushDelete E items sj =
     (case sj of (s, jobs) \<Rightarrow>
       (snd (svc_DeleteTaskBatch E (map di_ID items) s), spawn delete_job items jobs))"

section \<open>The processor\<close>

record 'r processor =
  pr_create :: "task worker"
  pr_delete :: "delete_item worker"
  pr_cancelled :: bool
  pr_jobs :: "cache_op list list"
  pr_pg :: pg
  pr_redis :: 'r

definition new_processor :: "pg \<Rightarrow> 'r \<Rightarrow> 'r processor" where
  "new_processor s c = \<lparr>pr_create = new_worker, pr_delete = new_worker, pr_cancelled = False,
     pr_jobs = [], pr_pg = s, pr_redis = c\<rparr>"

definition EnqueueCreate :: "task \<Rightarrow> 'r processor \<Rightarrow> bool \<times> 'r processor" where
  "EnqueueCreate t p =
     (case offer taskChannelSize t (pr_create p) of (ok, w) \<Rightarrow> (ok, p\<lparr>pr_create := w\<rparr>))"

definition EnqueueDelete :: "string \<Rightarrow> string \<Rightarrow> 'r processor \<Rightarrow> bool \<times> 'r processor" where
  "EnqueueDelete i u p =
     (case offer deleteChannelSize \<lparr>di_ID = i, di_UserID = u\<rparr> (pr_delete p) of
        (ok, w) \<Rightarrow> (ok, p\<lparr>pr_delete := w\<rparr>))"

definition runCreateWorker :: "env \<Rightarrow> choice \<Rightarrow> 'r processor \<Rightarrow> 'r processor option" where
  "runCreateWorker E c p =
     (case worker_step taskMaxBatch (pr_cancelled p) c (pr_create p) of
        None \<Rightarrow> None
      | Some (w, bs) \<Rightarrow>
          (case fold (flushCreate E) bs (pr_pg p, pr_jobs p) of
             (s, jobs) \<Rightarrow> Some (p\<lparr>pr_create := w, pr_pg := s, pr_jobs := jobs\<rparr>)))"

definition runDeleteWorker :: "env \<Rightarrow> choice \<Rightarrow> 'r processor \<Rightarrow> 'r processor option" where
  "runDeleteWorker E c p =
     (case worker_step deleteMaxBatch (pr_cancelled p) c (pr_delete p) of
        None \<Rightarrow> None
      | Some (w, bs) \<Rightarrow>
          (case fold (flushDelete E) bs (pr_pg p, pr_jobs p) of
             (s, jobs) \<Rightarrow> Some (p\<lparr>pr_delete := w, pr_pg := s, pr_jobs := jobs\<rparr>)))"

text \<open>The next call of the \<open>k\<close>-th cache goroutine; after its last one it leaves the semaphore.\<close>

definition job_step :: "'r redis \<Rightarrow> env \<Rightarrow> nat \<Rightarrow> 'r processor \<Rightarrow> 'r processor option" where
  "job_step R E k p =
     (if k < length (pr_jobs p)
      then (case pr_jobs p ! k of
              [] \<Rightarrow> Some (p\<lparr>pr_jobs := take k (pr_jobs p) @ drop (Suc k) (pr_jobs p)\<rparr>)
            | op # ops \<Rightarrow>
                Some (p\<lparr>pr_jobs := (pr_jobs p)[k := ops],
                        pr_redis := snd (cache_exec R (now E) op (pr_redis p))\<rparr>))
      else None)"

datatype event =
    PutCreate task
  | PutDelete string string
  | Cancel
  | CreateWorker choice
  | DeleteWorker choice
  | CacheJob nat

fun processor_step :: "'r redis \<Rightarrow> env \<Rightarrow> event \<Rightarrow> 'r processor \<Rightarrow> 'r processor option" where
  "processor_step R E (PutCreate t) p = Some (snd (EnqueueCreate t p))"
| "processor_step R E (PutDelete i u) p = Some (snd (EnqueueDelete i u p))"
| "processor_step R E Cancel p = Some (p\<lparr>pr_cancelled := True\<rparr>)"
| "processor_step R E (CreateWorker c) p = runCreateWorker E c p"
| "processor_step R E (DeleteWorker c) p = runDeleteWorker E c p"
| "processor_step R E (CacheJob k) p = job_step R E k p"

text \<open>What an event adds to the accepted items, and the batches it flushes.\<close>

fun put_creates :: "event \<Rightarrow> 'r processor \<Rightarrow> task list" where
  "put_creates (PutCreate t) p = (if fst (EnqueueCreate t p) then [t] else [])"
| "put_creates _ p = []"

fun put_deletes :: "event \<Rightarrow> 'r processor \<Rightarrow> delete_item list" where
  "put_deletes (PutDelete i u) p =
     (if fst (EnqueueDelete i u p) then [\<lparr>di_ID = i, di_UserID = u\<rparr>] else [])"
| "put_deletes _ p = []"

fun flushed_creates :: "event \<Rightarrow> 'r processor \<Rightarrow> task list list" where
  "flushed_creates (CreateWorker c) p =
     (case worker_step taskMaxBatch (pr_cancelled p) c (pr_create p) of None \<Rightarrow> [] | Some (w, bs) \<Rightarrow> bs)"
| "flushed_creates _ p = []"

fun flushed_deletes :: "event \<Rightarrow> 'r processor \<Rightarrow> delete_item list list" where
  "flushed_deletes (DeleteWorker c) p =
     (case worker_step deleteMaxBatch (pr_cancelled p) c (pr_delete p) of None \<Rightarrow> [] | Some (w, bs) \<Rightarrow> bs)"
| "flushed_deletes _ p = []"

text \<open>
  A history of the process: the items accepted and the batches flushed so far, for both
  workers, and the state reached.
\<close>

inductive history ::
    "'r redis \<Rightarrow> task list \<Rightarrow> task list list \<Rightarrow> delete_item list \<Rightarrow> delete_item list list
      \<Rightarrow> 'r processor \<Rightarrow> bool" for R where
  start: "history R [] [] [] [] (new_processor s c)"
| event: "history R cs cbs ds dbs p \<Longrightarrow> processor_step R E ev p = Some p' \<Longrightarrow>
    history R (cs @ put_creates ev p) (cbs @ flushed_creates ev p)
              (ds @ put_deletes ev p) (dbs @ flushed_deletes ev p) p'"

section \<open>Nothing accepted is lost, doubled or reordered\<close>

lemma flush_rest_items:
  "flush_rest w = (w', bs) \<Longrightarrow>
     concat bs @ w_batch w' = w_batch w \<and> w_ch w' = w_ch w \<and> w_phase w' = w_phase w
     \<and> (\<forall>b \<in> set bs. b \<noteq> [] \<and> b = w_batch w) \<and> w_batch w' = []"
  by (auto simp: flush_rest_def split: if_splits)

lemma receive_items:
  assumes "receive n w = Some (w', bs)" and "length (w_batch w) < n"
  shows "concat bs @ w_batch w' @ w_ch w' = w_batch w @ w_ch w \<and> w_phase w' = w_phase w
    \<and> (\<forall>b \<in> set bs. b \<noteq> [] \<and> length b \<le> n) \<and> length (w_batch w') < n
    \<and> Suc (length (w_ch w')) = length (w_ch w)"
  using assms by (auto simp: receive_def Let_def split: list.splits if_splits)

text \<open>A worker is in bounds when its channel and its collected batch are.\<close>

definition in_bounds :: "nat \<Rightarrow> nat \<Rightarrow> 'a worker \<Rightarrow> bool" where
  "in_bounds cap n w \<longleftrightarrow> length (w_ch w) \<le> cap \<and> length (w_batch w) < n"

lemma worker_step_items:
  assumes step: "worker_step n k c w = Some (w', bs)" and w: "in_bounds cap n w"
  shows "concat bs @ w_batch w' @ w_ch w' = w_batch w @ w_ch w"
    and "\<forall>b \<in> set bs. b \<noteq> [] \<and> length b \<le> n" and "in_bounds cap n w'"
proof -
  have "concat bs @ w_batch w' @ w_ch w' = w_batch w @ w_ch w
    \<and> (\<forall>b \<in> set bs. b \<noteq> [] \<and> length b \<le> n) \<and> in_bounds cap n w'"
  proof (cases "c = Receive")
    case True
    then have "receive n w = Some (w', bs)"
      using step by (auto simp: worker_step_def split: phase.splits)
    with receive_items [OF this] w show ?thesis by (auto simp: in_bounds_def)
  next
    case False
    then have "flush_rest w = (w', bs) \<or> (\<exists>ph. flush_rest (w\<lparr>w_phase := ph\<rparr>) = (w', bs))"
      using step by (cases c; cases "w_phase w") (auto simp: worker_step_def split: if_splits)
    then obtain v where "flush_rest v = (w', bs)" and v: "w_ch v = w_ch w" "w_batch v = w_batch w"
      by (metis worker.ext_inject worker.surjective worker.update_convs(3))
    from flush_rest_items [OF this(1)] w show ?thesis by (auto simp: in_bounds_def v)
  qed
  then show "concat bs @ w_batch w' @ w_ch w' = w_batch w @ w_ch w"
    "\<forall>b \<in> set bs. b \<noteq> [] \<and> length b \<le> n" "in_bounds cap n w'" by auto
qed

text \<open>No event takes a worker back to an earlier phase.\<close>

lemma worker_phase_advances: "worker_step n k c w = Some (w', bs) \<Longrightarrow> w_phase w \<le> w_phase w'"
  by (auto simp: worker_step_def receive_def flush_rest_def Let_def less_eq_phase_def
      split: phase.splits choice.splits list.splits if_splits)

lemma processor_phases_advance:
  "processor_step R E ev p = Some p' \<Longrightarrow>
     w_phase (pr_create p) \<le> w_phase (pr_create p') \<and> w_phase (pr_delete p) \<le> w_phase (pr_delete p')"
  by (cases ev) (auto simp: EnqueueCreate_def EnqueueDelete_def offer_def runCreateWorker_def runDeleteWorker_def
      job_step_def split: option.splits prod.splits if_splits list.splits dest: worker_phase_advances)

lemma offer_items:
  "offer cap x w = (ok, w') \<Longrightarrow> in_bounds cap n w \<Longrightarrow>
     w_batch w' @ w_ch w' = (w_batch w @ w_ch w) @ (if ok then [x] else []) \<and> in_bounds cap n w'"
  by (auto simp: offer_def in_bounds_def split: if_splits)

lemma spawn_bound: "length jobs \<le> redisConcurrencyLimit \<Longrightarrow> length (spawn mk xs jobs) \<le> redisConcurrencyLimit"
  by (induction xs arbitrary: jobs) auto

lemma flushes_jobs:
  "fold (flushCreate E) bs (s, jobs) = (s', jobs') \<Longrightarrow>
     length jobs \<le> redisConcurrencyLimit \<Longrightarrow> length jobs' \<le> redisConcurrencyLimit"
  "fold (flushDelete E) dbs (s, jobs) = (s', jobs') \<Longrightarrow>
     length jobs \<le> redisConcurrencyLimit \<Longrightarrow> length jobs' \<le> redisConcurrencyLimit"
proof -
  show "fold (flushCreate E) bs (s, jobs) = (s', jobs') \<Longrightarrow>
     length jobs \<le> redisConcurrencyLimit \<Longrightarrow> length jobs' \<le> redisConcurrencyLimit"
  proof (induction bs arbitrary: s jobs)
    case (Cons b bs)
    obtain s1 j1 where f: "flushCreate E b (s, jobs) = (s1, j1)" by force
    then have "length j1 \<le> redisConcurrencyLimit"
      using Cons.prems(2) spawn_bound by (auto simp: flushCreate_def Let_def split: prod.splits)
    with Cons f show ?case by simp
  qed simp
  show "fold (flushDelete E) dbs (s, jobs) = (s', jobs') \<Longrightarrow>
     length jobs \<le> redisConcurrencyLimit \<Longrightarrow> length jobs' \<le> redisConcurrencyLimit"
  proof (induction dbs arbitrary: s jobs)
    case (Cons b dbs)
    obtain s1 j1 where f: "flushDelete E b (s, jobs) = (s1, j1)" by force
    then have "length j1 \<le> redisConcurrencyLimit"
      using Cons.prems(2) spawn_bound by (auto simp: flushDelete_def)
    with Cons f show ?case by simp
  qed simp
qed

text \<open>The invariant of a history.\<close>

definition accounted :: "nat \<Rightarrow> nat \<Rightarrow> 'a list \<Rightarrow> 'a list list \<Rightarrow> 'a worker \<Rightarrow> bool" where
  "accounted cap n xs bs w \<longleftrightarrow>
     xs = concat bs @ w_batch w @ w_ch w \<and> (\<forall>b \<in> set bs. b \<noteq> [] \<and> length b \<le> n) \<and> in_bounds cap n w"

lemma accounted_step:
  "accounted cap n xs bs w \<Longrightarrow> worker_step n k c w = Some (w', bs') \<Longrightarrow> accounted cap n xs (bs @ bs') w'"
  using worker_step_items [of n k c w w' bs' cap] by (auto simp: accounted_def)

lemma accounted_offer:
  "accounted cap n xs bs w \<Longrightarrow> offer cap x w = (ok, w') \<Longrightarrow>
     accounted cap n (xs @ (if ok then [x] else [])) bs w'"
  using offer_items [of cap x w ok w' n] by (auto simp: accounted_def)

lemma history_accounted:
  assumes "history R cs cbs ds dbs p"
  shows "accounted taskChannelSize taskMaxBatch cs cbs (pr_create p)
    \<and> accounted deleteChannelSize deleteMaxBatch ds dbs (pr_delete p)
    \<and> length (pr_jobs p) \<le> redisConcurrencyLimit"
  using assms
proof induction
  case (start s c)
  then show ?case by (simp add: accounted_def in_bounds_def new_processor_def new_worker_def)
next
  case (event cs cbs ds dbs p E ev p')
  show ?case
  proof (cases ev)
    case (PutCreate t)
    obtain ok w where o: "offer taskChannelSize t (pr_create p) = (ok, w)" by force
    from accounted_offer [OF _ this] event o PutCreate show ?thesis
      by (auto simp: EnqueueCreate_def)
  next
    case (PutDelete i u)
    obtain ok w where o: "offer deleteChannelSize \<lparr>di_ID = i, di_UserID = u\<rparr> (pr_delete p) = (ok, w)" by force
    from accounted_offer [OF _ this] event o PutDelete show ?thesis
      by (auto simp: EnqueueDelete_def)
  next
    case Cancel
    with event show ?thesis by auto
  next
    case (CreateWorker c)
    then obtain w bs where w: "worker_step taskMaxBatch (pr_cancelled p) c (pr_create p) = Some (w, bs)"
      and p': "p' = (case fold (flushCreate E) bs (pr_pg p, pr_jobs p) of
             (s, jobs) \<Rightarrow> p\<lparr>pr_create := w, pr_pg := s, pr_jobs := jobs\<rparr>)"
      using event.hyps(2) by (auto simp: runCreateWorker_def split: option.splits prod.splits)
    obtain s jobs where f: "fold (flushCreate E) bs (pr_pg p, pr_jobs p) = (s, jobs)" by force
    from accounted_step [OF _ w] flushes_jobs(1) [OF f] event.IH w p' f CreateWorker show ?thesis by simp
  next
    case (DeleteWorker c)
    then obtain w bs where w: "worker_step deleteMaxBatch (pr_cancelled p) c (pr_delete p) = Some (w, bs)"
      and p': "p' = (case fold (flushDelete E) bs (pr_pg p, pr_jobs p) of
             (s, jobs) \<Rightarrow> p\<lparr>pr_delete := w, pr_pg := s, pr_jobs := jobs\<rparr>)"
      using event.hyps(2) by (auto simp: runDeleteWorker_def split: option.splits prod.splits)
    obtain s jobs where f: "fold (flushDelete E) bs (pr_pg p, pr_jobs p) = (s, jobs)" by force
    from accounted_step [OF _ w] flushes_jobs(2) [OF f] event.IH w p' f DeleteWorker show ?thesis by simp
  next
    case (CacheJob k)
    with event show ?thesis by (auto simp: job_step_def split: if_splits list.splits)
  qed
qed

text \<open>C15: every accepted creation and deletion is accounted for under every interleaving: the
  batches flushed so far, the batch being collected and the channel hold, in this order,
  exactly the accepted items in the order they were accepted. A batch is never empty and
  never longer than 500, the channels never hold more than 10000 items, and at most 500
  cache goroutines run.\<close>

theorem accepted_items_accounted:
  assumes "history R cs cbs ds dbs p"
  shows "cs = concat cbs @ w_batch (pr_create p) @ w_ch (pr_create p)
     \<and> ds = concat dbs @ w_batch (pr_delete p) @ w_ch (pr_delete p)
     \<and> list_all (\<lambda>b. 0 < length b \<and> length b \<le> 500) cbs
     \<and> list_all (\<lambda>b. 0 < length b \<and> length b \<le> 500) dbs
     \<and> length (w_ch (pr_create p)) \<le> 10000 \<and> length (w_ch (pr_delete p)) \<le> 10000
     \<and> length (pr_jobs p) \<le> 500"
  using history_accounted [OF assms] by (auto simp: accounted_def in_bounds_def list_all_iff)

section \<open>Shutdown\<close>

text \<open>The steps of a worker that is left alone after the cancellation.\<close>

fun worker_run :: "nat \<Rightarrow> choice list \<Rightarrow> 'a worker \<Rightarrow> ('a worker \<times> 'a list list) option" where
  "worker_run n [] w = Some (w, [])"
| "worker_run n (c # cs) w =
     (case worker_step n True c w of
        None \<Rightarrow> None
      | Some (w, bs) \<Rightarrow>
          (case worker_run n cs w of None \<Rightarrow> None | Some (w, bs') \<Rightarrow> Some (w, bs @ bs')))"

text \<open>Cutting a list into pieces of \<open>n\<close>.\<close>

function chunks :: "nat \<Rightarrow> 'a list \<Rightarrow> 'a list list" where
  "chunks n xs = (if n = 0 \<or> xs = [] then [] else take n xs # chunks n (drop n xs))"
  by auto
termination by (relation "measure (\<lambda>(n, xs). length xs)") auto

declare chunks.simps [simp del]

lemma chunks_short: "n \<noteq> 0 \<Longrightarrow> length xs \<le> n \<Longrightarrow> chunks n xs = (if xs = [] then [] else [xs])"
  by (subst chunks.simps) (simp add: chunks.simps [of n "[]"])

lemma chunks_full: "n \<noteq> 0 \<Longrightarrow> length xs = n \<Longrightarrow> chunks n (xs @ ys) = xs # chunks n ys"
  by (subst chunks.simps) auto

lemma drain_all:
  assumes "worker_run n (replicate (length (w_ch w)) Receive @ [Default]) w = Some (w', bs)"
    and "w_phase w = Draining" and "length (w_batch w) < n"
  shows "w_phase w' = Stopped \<and> w_ch w' = [] \<and> w_batch w' = [] \<and> bs = chunks n (w_batch w @ w_ch w)"
  using assms
proof (induction "w_ch w" arbitrary: w bs)
  case Nil
  then show ?case by (auto simp: worker_step_def flush_rest_def chunks_short split: if_splits)
next
  case (Cons x xs)
  then obtain w1 b1 bs' where rec: "receive n w = Some (w1, b1)"
    and r: "worker_run n (replicate (length xs) Receive @ [Default]) w1 = Some (w', bs')"
    and bs: "bs = b1 @ bs'"
    by (auto simp: worker_step_def simp flip: Cons.hyps(2) split: option.splits)
  note items = receive_items [OF rec Cons.prems(3)]
  have ch: "w_ch w1 = xs" using rec by (auto simp: receive_def Let_def simp flip: Cons.hyps(2) split: if_splits)
  have IH: "w_phase w' = Stopped \<and> w_ch w' = [] \<and> w_batch w' = [] \<and> bs' = chunks n (w_batch w1 @ w_ch w1)"
    using items ch r Cons.prems by (intro Cons.hyps(1)) auto
  moreover have "b1 @ chunks n (w_batch w1 @ w_ch w1) = chunks n (w_batch w @ w_ch w)"
  proof (cases "b1 = []")
    case True
    then show ?thesis using items by simp
  next
    case False
    then have "length (w_batch w @ [x]) = n" "b1 = [w_batch w @ [x]]" "w_batch w1 = []"
      using rec Cons.prems(3) by (auto simp: receive_def Let_def simp flip: Cons.hyps(2) split: if_splits)
    with chunks_full [of n "w_batch w @ [x]" xs] ch show ?thesis by (simp flip: Cons.hyps(2))
  qed
  ultimately show ?case using bs by simp
qed

lemma worker_run_draining:
  assumes "w_phase w = Draining" and "length (w_batch w) < n"
  shows "worker_run n cs w \<noteq> None \<longleftrightarrow> prefix cs (replicate (length (w_ch w)) Receive @ [Default])"
  using assms
proof (induction cs arbitrary: w)
  case (Cons c cs)
  show ?case
  proof (cases "w_ch w")
    case Nil
    have "worker_run n ds v \<noteq> None \<longleftrightarrow> ds = []" if "w_phase v = Stopped" for v :: "'a worker" and ds
      using that by (cases ds) (auto simp: worker_step_def)
    with Nil Cons.prems show ?thesis
      by (cases c) (auto simp: worker_step_def receive_def flush_rest_def split: option.splits)
  next
    case xs: (Cons x xs)
    have "receive n w \<noteq> None" using xs by (simp add: receive_def Let_def)
    then obtain w1 b1 where rec: "receive n w = Some (w1, b1)" by auto
    note items = receive_items [OF this Cons.prems(2)]
    have "worker_run n cs w1 \<noteq> None \<longleftrightarrow> prefix cs (replicate (length xs) Receive @ [Default])"
      using Cons.IH [of w1] items xs Cons.prems(1) by simp
    with rec xs Cons.prems(1) show ?thesis
      by (cases c) (auto simp: worker_step_def split: option.splits)
  qed
qed simp

text \<open>C16: after a cancellation a worker that is left alone stops: its drain loop can go on in
  one way only, receiving as long as its channel has items and then taking the default case,
  which is one step per item and one more; when it ends everything the worker held has been
  flushed, in order, in batches of 500 and a rest.\<close>

theorem drain_terminates:
  assumes "w_phase w = Draining" and "length (w_batch w) < taskMaxBatch"
  shows "(worker_run taskMaxBatch cs w \<noteq> None)
        = prefix cs (replicate (length (w_ch w)) Receive @ [Default])
     \<and> (\<exists>w'. worker_run taskMaxBatch (replicate (length (w_ch w)) Receive @ [Default]) w
           = Some (w', chunks 500 (w_batch w @ w_ch w))
         \<and> w_phase w' = Stopped \<and> w_ch w' = [] \<and> w_batch w' = [])"
proof -
  let ?all = "replicate (length (w_ch w)) Receive @ [Default]"
  note det = worker_run_draining [OF assms]
  have "worker_run taskMaxBatch ?all w \<noteq> None" unfolding det by simp
  then obtain w' bs where run: "worker_run taskMaxBatch ?all w = Some (w', bs)" by auto
  show ?thesis
    using drain_all [OF run] run assms det by auto
qed

section \<open>What a flush writes\<close>

text \<open>The row of a created task.\<close>

definition saves :: "env \<Rightarrow> task \<Rightarrow> task_row \<Rightarrow> bool" where
  "saves E t r \<longleftrightarrow>
     (\<exists>tid uid tag. pg_uuid E (t_ID t) = Some tid \<and> pg_uuid E (t_UserID t) = Some uid
        \<and> r = new_task_row E t tid uid (Some tag))"

lemma svc_CreateTask_rows:
  assumes "svc_CreateTask E t s = (r, s')"
  shows "tasks (store s') = tasks (store s) \<or> (\<exists>row. saves E t row \<and> tasks (store s') = tasks (store s) @ [row])"
proof -
  obtain r1 s1 where c: "repo_Create E t s = (r1, s1)" by force
  obtain r2 s2 where k: "repo_CreateSubtasks E (t_ID t) (t_Subtasks t) s1 = (r2, s2)" by force
  have "tasks (store s2) = tasks (store s1)"
    using k by (cases rule: repo_CreateSubtasks_cases) auto
  then have "tasks (store s') = tasks (store s1)"
    using assms c k by (auto simp: svc_CreateTask_def split: sum.splits if_splits)
  moreover have "tasks (store s1) = tasks (store s)
      \<or> (\<exists>row. saves E t row \<and> tasks (store s1) = tasks (store s) @ [row])"
    using c by (cases rule: repo_Create_cases) (auto simp: created_def saves_def)
  ultimately show ?thesis by simp
qed

lemma batch_rows_saves: "batch_rows E ts = Inr rs \<Longrightarrow> list_all2 (saves E) ts rs"
  by (induction ts arbitrary: rs) (auto simp: saves_def)

lemma svc_CreateTaskBatch_rows:
  assumes "svc_CreateTaskBatch E ts s = (r, s')" and "ts \<noteq> []"
  shows "tasks (store s') = tasks (store s) \<and> (\<exists>e. r = Inl e)
    \<or> (\<exists>rs. list_all2 (saves E) ts rs \<and> tasks (store s') = tasks (store s) @ rs)"
proof -
  obtain r1 where "pg_tx ''create batch begin tx'' (Wrap ''create batch commit'')
      (create_batch_body E (ctr s) ts) (s\<lparr>ctr := ctr s + length ts\<rparr>) = (r1, s')"
    and r: "(\<exists>e. r1 = Inl e) \<longrightarrow> (\<exists>e. r = Inl e)"
    using assms by (auto simp: svc_CreateTaskBatch_def repo_CreateBatch_def Let_def split: prod.splits sum.splits)
  then show ?thesis
  proof (cases rule: pg_tx_cases)
    case (undone e)
    then show ?thesis using r by simp
  next
    case (committed x s1 s2)
    with create_batch_body_Inr [OF committed(3)] batch_rows_saves show ?thesis by auto
  qed
qed

lemma create_tagged_rows:
  assumes "create_tagged E ts s = (simple, s')"
  shows "simple = filter (\<lambda>t. \<not> nonblank (t_TagName t)) ts"
    and "\<exists>saved rows. subseq saved (filter (\<lambda>t. nonblank (t_TagName t)) ts)
      \<and> list_all2 (saves E) saved rows \<and> tasks (store s') = tasks (store s) @ rows"
  using assms
proof (induction ts arbitrary: s simple)
  case Nil
  {
    case 1
    then show ?case by simp
  next
    case 2
    then show ?case by (intro exI [of _ "[]"]) simp
  }
next
  case (Cons t ts)
  {
    case 1
    then show ?case using Cons.IH(1) by (auto split: prod.splits if_splits)
  next
    case 2
    show ?case
    proof (cases "nonblank (t_TagName t)")
      case False
      then show ?thesis using 2 Cons.IH(2) by (auto split: prod.splits)
    next
      case True
      then obtain r s1 where c: "svc_CreateTask E t s = (r, s1)" and rest: "create_tagged E ts s1 = (simple, s')"
        using 2 by (auto split: prod.splits)
      obtain saved rows where IH: "subseq saved (filter (\<lambda>t. nonblank (t_TagName t)) ts)"
        "list_all2 (saves E) saved rows" "tasks (store s') = tasks (store s1) @ rows"
        using Cons.IH(2) [OF rest] by blast
      from svc_CreateTask_rows [OF c] show ?thesis
      proof (elim disjE exE conjE)
        assume "tasks (store s1) = tasks (store s)"
        with IH True show ?thesis by (intro exI [of _ saved] exI [of _ rows]) auto
      next
        fix row assume "saves E t row" "tasks (store s1) = tasks (store s) @ [row]"
        with IH True show ?thesis by (intro exI [of _ "t # saved"] exI [of _ "row # rows"]) auto
      qed
    qed
  }
qed

lemma spawn_jobs:
  "length jobs \<le> redisConcurrencyLimit \<Longrightarrow>
     spawn mk xs jobs = jobs @ map mk (take (redisConcurrencyLimit - length jobs) xs)"
proof (induction xs arbitrary: jobs)
  case (Cons x xs)
  then show ?case
    by (cases "length jobs < redisConcurrencyLimit") (auto simp: take_Cons' simp del: redisConcurrencyLimit_def)
qed simp

text \<open>C31: what flushing a batch of accepted tasks writes, whatever fails. Of the tasks with a tag
  name any may be lost on its own; the others are saved together or lost together. Nothing
  but tasks of the batch is written, in their order. In every case the goroutines that put
  the tasks into the cache are started, also for the lost ones, as many as the semaphore has
  room for.\<close>

theorem flush_create_effect:
  assumes "flushCreate E ts (s, jobs) = (s', jobs')" and "length jobs \<le> 500"
  shows "\<exists>saved rest rows. subseq saved (filter (\<lambda>t. nonblank (t_TagName t)) ts)
     \<and> (rest = [] \<or> rest = filter (\<lambda>t. \<not> nonblank (t_TagName t)) ts)
     \<and> list_all2 (saves E) (saved @ rest) rows
     \<and> tasks (store s') = tasks (store s) @ rows
     \<and> jobs' = jobs @ map create_job (take (500 - length jobs) ts)"
proof -
  obtain simple s1 where c: "create_tagged E ts s = (simple, s1)" by force
  obtain saved rows where tagged: "subseq saved (filter (\<lambda>t. nonblank (t_TagName t)) ts)"
    "list_all2 (saves E) saved rows" "tasks (store s1) = tasks (store s) @ rows"
    using create_tagged_rows(2) [OF c] by blast
  have simple: "simple = filter (\<lambda>t. \<not> nonblank (t_TagName t)) ts"
    by (rule create_tagged_rows(1) [OF c])
  have jobs: "jobs' = jobs @ map create_job (take (500 - length jobs) ts)"
    using assms c spawn_jobs [of jobs create_job ts] by (auto simp: flushCreate_def Let_def)
  have "\<exists>rest rows'. (rest = [] \<or> rest = simple) \<and> list_all2 (saves E) rest rows'
      \<and> tasks (store s') = tasks (store s1) @ rows'"
  proof (cases "simple = []")
    case True
    with assms(1) c show ?thesis by (auto simp: flushCreate_def Let_def)
  next
    case False
    then obtain r where "svc_CreateTaskBatch E simple s1 = (r, s')"
      using assms(1) c by (cases "svc_CreateTaskBatch E simple s1") (auto simp: flushCreate_def Let_def)
    from svc_CreateTaskBatch_rows [OF this False] show ?thesis
    proof (elim disjE exE conjE)
      assume "tasks (store s') = tasks (store s1)"
      then show ?thesis by (intro exI [of _ "[]"]) simp
    qed blast
  qed
  then obtain rest rows' where "rest = [] \<or> rest = simple" "list_all2 (saves E) rest rows'"
    "tasks (store s') = tasks (store s1) @ rows'" by blast
  with tagged simple jobs show ?thesis
    by (intro exI [of _ saved] exI [of _ rest] exI [of _ "rows @ rows'"]) (auto intro: list_all2_appendI)
qed

text \<open>A lost batch: nothing is saved, and the task goes into the cache all the same.\<close>

theorem flush_create_effect_witness:
  "\<exists>s'. flushCreate sample_env [sample_task] (sample_pg\<lparr>faults := [Refused]\<rparr>, [])
     = (s', [create_job sample_task]) \<and> tasks (store s') = []"
proof -
  obtain s' jobs' where eq: "flushCreate sample_env [sample_task] (sample_pg\<lparr>faults := [Refused]\<rparr>, []) = (s', jobs')"
    by force
  have "repo_CreateBatch sample_env [sample_task] (sample_pg\<lparr>faults := [Refused]\<rparr>)
      = (Inl (Wrap ''create batch begin tx'' (DbError ''connection'')), sample_pg\<lparr>faults := [], ctr := 1\<rparr>)"
    by (simp add: repo_CreateBatch_def pg_tx_def next_net_def sample_pg_def)
  then have "tasks (store s') = []"
    using eq by (auto simp: flushCreate_def svc_CreateTaskBatch_def)
  with flush_create_effect [OF eq] eq show ?thesis by auto
qed

lemma new_worker_simps [simp]: "w_ch new_worker = []" "w_batch new_worker = []" "w_phase new_worker = Running"
  by (simp_all add: new_worker_def)

theorem accepted_items_accounted_witness:
  "\<exists>p. history server_ops [] [] [\<lparr>di_ID = ''t'', di_UserID = ''u''\<rparr>] [[\<lparr>di_ID = ''t'', di_UserID = ''u''\<rparr>]] p
     \<and> w_ch (pr_delete p) = [] \<and> w_batch (pr_delete p) = []"
proof -
  let ?it = "\<lparr>di_ID = ''t'', di_UserID = ''u''\<rparr>"
  let ?p0 = "new_processor sample_pg sample_server"
  let ?p1 = "?p0\<lparr>pr_delete := new_worker\<lparr>w_ch := [?it]\<rparr>\<rparr>"
  let ?p2 = "?p0\<lparr>pr_delete := new_worker\<lparr>w_batch := [?it]\<rparr>\<rparr>"
  have h0: "history server_ops [] [] [] [] ?p0" by (rule history.start)
  have "processor_step server_ops sample_env (PutDelete ''t'' ''u'') ?p0 = Some ?p1"
    by (simp add: EnqueueDelete_def offer_def new_processor_def)
  from history.event [OF h0 this] have h1: "history server_ops [] [] [?it] [] ?p1"
    by (simp add: EnqueueDelete_def offer_def new_processor_def)
  have s1: "worker_step deleteMaxBatch (pr_cancelled ?p1) Receive (pr_delete ?p1) = Some (new_worker\<lparr>w_batch := [?it]\<rparr>, [])"
    by (simp add: worker_step_def receive_def new_processor_def)
  then have "processor_step server_ops sample_env (DeleteWorker Receive) ?p1 = Some ?p2"
    by (simp add: runDeleteWorker_def)
  from history.event [OF h1 this] have h2: "history server_ops [] [] [?it] [] ?p2"
    using s1 by simp
  obtain s jobs where f: "flushDelete sample_env [?it] (pr_pg ?p2, pr_jobs ?p2) = (s, jobs)" by force
  have s2: "worker_step deleteMaxBatch (pr_cancelled ?p2) TickerFires (pr_delete ?p2) = Some (new_worker, [[?it]])"
    by (simp add: worker_step_def flush_rest_def)
  with f have "processor_step server_ops sample_env (DeleteWorker TickerFires) ?p2
      = Some (?p0\<lparr>pr_pg := s, pr_jobs := jobs\<rparr>)"
    by (simp add: runDeleteWorker_def new_processor_def)
  from history.event [OF h2 this]
  have h3: "history server_ops [] [] [?it] [[?it]] (?p0\<lparr>pr_pg := s, pr_jobs := jobs\<rparr>)"
    using s2 by simp
  from accepted_items_accounted [OF h3] h3 show ?thesis by auto
qed

theorem drain_terminates_witness:
  "\<exists>w'. worker_run taskMaxBatch [Receive, Receive, Default]
       \<lparr>w_ch = [sample_task, sample_task], w_batch = [], w_phase = Draining\<rparr>
     = Some (w', chunks 500 [sample_task, sample_task]) \<and> w_phase w' = Stopped"
  using drain_terminates [of "\<lparr>w_ch = [sample_task, sample_task], w_batch = [], w_phase = Draining\<rparr>" "[]"]
  by (simp add: numeral_2_eq_2) blast

section \<open>What the processor does to the tables\<close>

context task_repository
begin

lemma create_tagged_keeps: "create_tagged E ts s = (simple, s') \<Longrightarrow> R (store s) (store s')"
proof (induction ts arbitrary: s simple)
  case (Cons t ts)
  then show ?case
    by (auto split: prod.splits if_splits dest: keepsD [OF keeps_svc_CreateTask] intro: R_trans)
qed (simp add: R_refl)

lemma flushCreate_keeps: "flushCreate E ts (s, jobs) = (s', jobs') \<Longrightarrow> R (store s) (store s')"
  by (auto simp: flushCreate_def Let_def R_refl split: prod.splits if_splits
      dest!: create_tagged_keeps intro: keeps_step [OF keeps_svc_CreateTaskBatch])

lemma flushDelete_keeps: "flushDelete E items (s, jobs) = (s', jobs') \<Longrightarrow> R (store s) (store s')"
  using keeps_svc_DeleteTaskBatch [of E] by (auto simp: flushDelete_def keeps_def R_refl)

lemma fold_flush_keeps:
  assumes "\<And>b s jobs s' jobs'. f b (s, jobs) = (s', jobs') \<Longrightarrow> R (store s) (store s')"
  shows "fold f bs (s, jobs) = (s', jobs') \<Longrightarrow> R (store s) (store s')"
proof (induction bs arbitrary: s jobs)
  case (Cons b bs)
  obtain s1 j1 where b: "f b (s, jobs) = (s1, j1)" by force
  with Cons have "R (store s1) (store s')" by simp
  with assms [OF b] show ?case by (rule R_trans)
qed (simp add: R_refl)

lemma processor_step_keeps:
  assumes "processor_step Rd E ev p = Some p'"
  shows "R (store (pr_pg p)) (store (pr_pg p'))"
proof (cases ev)
  case (CreateWorker c)
  then obtain w bs s jobs where f: "fold (flushCreate E) bs (pr_pg p, pr_jobs p) = (s, jobs)"
    and p': "p' = p\<lparr>pr_create := w, pr_pg := s, pr_jobs := jobs\<rparr>"
    using assms(1) by (auto simp: runCreateWorker_def split: option.splits prod.splits)
  have "R (store (pr_pg p)) (store s)" by (rule fold_flush_keeps [OF _ f]) (rule flushCreate_keeps)
  with p' show ?thesis by simp
next
  case (DeleteWorker c)
  then obtain w bs s jobs where f: "fold (flushDelete E) bs (pr_pg p, pr_jobs p) = (s, jobs)"
    and p': "p' = p\<lparr>pr_delete := w, pr_pg := s, pr_jobs := jobs\<rparr>"
    using assms(1) by (auto simp: runDeleteWorker_def split: option.splits prod.splits)
  have "R (store (pr_pg p)) (store s)" by (rule fold_flush_keeps [OF _ f]) (rule flushDelete_keeps)
  with p' show ?thesis by simp
qed (use assms in \<open>auto simp: EnqueueCreate_def EnqueueDelete_def job_step_def R_refl
       split: prod.splits if_splits list.splits\<close>)

end

end
