(* ===== verification/Http.thy ===== *)
theory Http
  imports GoTime
begin

text \<open>
  What stands between a connection and the handlers: the response writer of \<open>net/http\<close> and
  the recorder of \<open>pkg/api/resilience\<close>, the error middleware of \<open>internal/apperror\<close>, the
  signature check of \<open>pkg/api/signature\<close>, the retries and the circuit breaker of
  \<open>pkg/api/resilience\<close>, and the two small helpers \<open>validate.UUID\<close> and
  \<open>repeatable.DoWithTries\<close>. Response headers are not modelled, a body is the list of the
  values written to it. A handler maps the writer and a state \<open>'s\<close> of the program; it may
  panic, after which only the state is left.
\<close>

section \<open>Responses and requests\<close>

record app_error =
  ae_Err :: "go_err option"
  ae_Message :: string
  ae_DeveloperMessage :: string
  ae_Code :: string

datatype 'j body = Text string | Json 'j | ErrorJson app_error

text \<open>
  The first status stays on a connection, the last one on a \<open>responseRecorder\<close>. A write
  without a status sends 200.
\<close>

record 'j writer =
  wr_recorder :: bool
  wr_status :: "nat option"
  wr_body :: "'j body list"

definition new_conn :: "'j writer" where
  "new_conn = \<lparr>wr_recorder = False, wr_status = None, wr_body = []\<rparr>"

definition responseRecorder :: "'j writer" where
  "responseRecorder = \<lparr>wr_recorder = True, wr_status = Some 200, wr_body = []\<rparr>"

definition WriteHeader :: "nat \<Rightarrow> 'j writer \<Rightarrow> 'j writer" where
  "WriteHeader c w =
     (if wr_recorder w \<or> wr_status w = None then w\<lparr>wr_status := Some c\<rparr> else w)"

definition Write :: "'j body \<Rightarrow> 'j writer \<Rightarrow> 'j writer" where
  "Write b w =
     (let w = (if wr_status w = None then w\<lparr>wr_status := Some 200\<rparr> else w)
      in w\<lparr>wr_body := wr_body w @ [b]\<rparr>)"

definition http_Error :: "string \<Rightarrow> nat \<Rightarrow> 'j writer \<Rightarrow> 'j writer" where
  "http_Error msg c w = Write (Text msg) (WriteHeader c w)"

definition status_of :: "'j writer \<Rightarrow> nat" where
  "status_of w = (case wr_status w of None \<Rightarrow> 200 | Some c \<Rightarrow> c)"

text \<open>
  A request: \<open>Header.Get\<close> and \<open>ByName\<close> give the empty text for what is absent; \<open>rq_read\<close> says
  that the body could be read, \<open>rq_json\<close> is what \<open>encoding/json\<close> makes of it.
\<close>

record 'b request =
  rq_method :: string
  rq_path :: string
  rq_header :: "string \<Rightarrow> string"
  rq_param :: "string \<Rightarrow> string"
  rq_query :: "(string \<times> string list) list"
  rq_read :: bool
  rq_json :: "go_err + 'b"

text \<open>\<open>json.NewDecoder(r.Body).Decode\<close>.\<close>

definition decode :: "'b request \<Rightarrow> go_err + 'b" where
  "decode r = (if rq_read r then rq_json r else Inl (Msg ''read body''))"

type_synonym ('j, 's) http_handler = "'j writer \<Rightarrow> 's \<Rightarrow> 'j writer outcome \<times> 's"

section \<open>Application errors\<close>

text \<open>
  \<open>ErrNotFound\<close> is one value, compared by its address, so it is a constructor of its own.
\<close>

datatype handler_err = ErrNotFoundApp | AppErr app_error | OtherErr go_err

type_synonym ('j, 's) app_handler =
  "'j writer \<Rightarrow> 's \<Rightarrow> (handler_err option \<times> 'j writer) outcome \<times> 's"

fun err_text :: "go_err \<Rightarrow> string" where
  "err_text (Wrap m e) = m @ '': '' @ err_text e"
| "err_text (DbError m) = m"
| "err_text (Msg m) = m"
| "err_text ErrNoRows = ''sql: no rows in result set''"
| "err_text PgxNoRows = ''no rows in result set''"
| "err_text ErrNotFound = ''not found''"
| "err_text ErrDeadlineExpired = ''deadline expired''"

definition NewAppError :: "go_err option \<Rightarrow> string \<Rightarrow> string \<Rightarrow> string \<Rightarrow> app_error" where
  "NewAppError e msg dev code =
     \<lparr>ae_Err = e, ae_Message = msg, ae_DeveloperMessage = dev, ae_Code = code\<rparr>"

definition NotFoundDoc :: app_error where
  "NotFoundDoc = NewAppError None ''not found'' [] ''RAT-000300''"

definition BadRequest :: "string \<Rightarrow> string \<Rightarrow> app_error" where
  "BadRequest msg dev = NewAppError (Some (Msg msg)) msg dev ''RAT-000001''"

definition systemError :: "go_err \<Rightarrow> app_error" where
  "systemError e = NewAppError None ''system error'' (err_text e) ''RAT-000000''"

definition apperror_Middleware :: "('j, 's) app_handler \<Rightarrow> ('j, 's) http_handler" where
  "apperror_Middleware handler w s =
     (case handler w s of
        (Panic, s) \<Rightarrow> (Panic, s)
      | (Ret (None, w), s) \<Rightarrow> (Ret w, s)
      | (Ret (Some ErrNotFoundApp, w), s) \<Rightarrow> (Ret (Write (ErrorJson NotFoundDoc) (WriteHeader 404 w)), s)
      | (Ret (Some (AppErr e), w), s) \<Rightarrow> (Ret (Write (ErrorJson e) (WriteHeader 400 w)), s)
      | (Ret (Some (OtherErr e), w), s) \<Rightarrow>
          (Ret (Write (ErrorJson (systemError e)) (WriteHeader 500 w)), s))"

section \<open>Signatures\<close>

text \<open>\<open>strconv.ParseInt(s, 10, 64)\<close>: an optional sign and decimal digits, in the range of int64.\<close>

fun parse_digits :: "string \<Rightarrow> int \<Rightarrow> int option" where
  "parse_digits [] acc = Some acc"
| "parse_digits (c # s) acc =
     (case digit_val c of None \<Rightarrow> None | Some v \<Rightarrow> parse_digits s (acc * 10 + v))"

definition ParseInt64 :: "string \<Rightarrow> int option" where
  "ParseInt64 s =
     (let (neg, ds) = (case s of
            [] \<Rightarrow> (False, [])
          | c # r \<Rightarrow> if c = CHR ''-'' then (True, r) else if c = CHR ''+'' then (False, r) else (False, s))
      in if ds = [] then None
         else case parse_digits ds 0 of
                None \<Rightarrow> None
              | Some v \<Rightarrow>
                  (let n = (if neg then - v else v)
                   in if - (2 ^ 63) \<le> n \<and> n < 2 ^ 63 then Some n else None))"

text \<open>
  \<open>time.Unix(sec, 0)\<close> counts from year 1 in an int64, so a second close to \<open>2 ^ 63\<close> wraps
  round.
\<close>

definition time_Unix :: "int \<Rightarrow> time" where
  "time_Unix sec =
     ((sec + 62135596800 + 2 ^ 63) mod 2 ^ 64 - 2 ^ 63 - 62135596800) * 1000000"

definition publicRoutes :: "string list" where
  "publicRoutes = [''/health'', ''/metrics'', ''/ready'', ''/live'', ''/docs'', ''/swagger'', ''/favicon.ico'']"

definition isPublicRoute :: "string \<Rightarrow> bool" where
  "isPublicRoute path \<longleftrightarrow> list_ex (\<lambda>route. strings_HasPrefix path route) publicRoutes"

definition dataToSign :: "'b request \<Rightarrow> string" where
  "dataToSign r =
     (let userID = rq_header r ''X-User-ID'';
          sessionID = rq_header r ''X-Session-ID'';
          userSubscription = rq_header r ''X-User-Subscription'';
          parts = [rq_method r, rq_path r, rq_header r ''X-Timestamp''];
          parts = (if userID \<noteq> [] then parts @ [userID] else parts);
          parts = (if sessionID \<noteq> [] then parts @ [sessionID] else parts);
          parts = (if userSubscription \<noteq> [] then parts @ [userSubscription] else parts)
      in strings_Join ''|'' parts)"

text \<open>
  \<open>hmac_hex secret text\<close> is the hexadecimal HMAC-SHA256 of the text, a parameter.
\<close>

definition signature_Middleware ::
    "(string \<Rightarrow> string \<Rightarrow> string) \<Rightarrow> string \<Rightarrow> time \<Rightarrow> 'b request \<Rightarrow> ('j, 's) http_handler
      \<Rightarrow> ('j, 's) http_handler" where
  "signature_Middleware hmac_hex secret nw r h w s =
     (if isPublicRoute (rq_path r) then h w s
      else let sig = rq_header r ''X-Signature''; timestampStr = rq_header r ''X-Timestamp''
      in if sig = [] \<or> timestampStr = [] then (Ret (http_Error ''Signature required'' 401 w), s)
      else if rq_header r ''X-Service-Name'' \<noteq> ''gateway''
        then (Ret (http_Error ''Invalid service source'' 401 w), s)
      else case ParseInt64 timestampStr of
        None \<Rightarrow> (Ret (http_Error ''Invalid timestamp'' 401 w), s)
      | Some timestamp \<Rightarrow>
          if nw - time_Unix timestamp > minutes 5 then (Ret (http_Error ''Request too old'' 401 w), s)
          else if sig \<noteq> hmac_hex secret (dataToSign r)
            then (Ret (http_Error ''Invalid signature'' 401 w), s)
          else h w s)"

section \<open>Resilience\<close>

text \<open>
  The rate limiter and the circuit breaker are libraries: \<open>g_allow\<close> is \<open>limiter.Allow\<close>,
  \<open>g_before\<close> tells whether the breaker lets a call through, \<open>g_after\<close> reports how it went.
  \<open>Execute\<close> returns the error of a closed door, or that of the function.
\<close>

datatype cb_closed = ErrOpenState | ErrTooManyRequests

datatype cb_err = Refusal cb_closed | ServerError nat

record 'g guard =
  g_allow :: "'g \<Rightarrow> bool \<times> 'g"
  g_before :: "'g \<Rightarrow> cb_closed option \<times> 'g"
  g_after :: "bool \<Rightarrow> 'g \<Rightarrow> 'g"

definition maxRetries :: nat where
  "maxRetries = 3"

text \<open>\<open>breaker.Execute\<close> of the closure that calls the handler on a fresh recorder.\<close>

definition execute ::
    "'g guard \<Rightarrow> ('j, 's) http_handler \<Rightarrow> 'g \<times> 's \<Rightarrow> (cb_err option \<times> 'j writer) outcome \<times> 'g \<times> 's" where
  "execute G h gs =
     (case gs of (g, s) \<Rightarrow>
     (case g_before G g of
        (Some e, g) \<Rightarrow> (Ret (Some (Refusal e), responseRecorder), g, s)
      | (None, g) \<Rightarrow>
          (case h responseRecorder s of
             (Panic, s) \<Rightarrow> (Panic, g_after G False g, s)
           | (Ret rec, s) \<Rightarrow>
               if status_of rec \<ge> 500
               then (Ret (Some (ServerError (status_of rec)), rec), g_after G False g, s)
               else (Ret (None, rec), g_after G True g, s))))"

definition copy_response :: "'j writer \<Rightarrow> 'j writer \<Rightarrow> 'j writer" where
  "copy_response rec w = fold Write (wr_body rec) (WriteHeader (status_of rec) w)"

text \<open>The loop over the attempts, \<open>n\<close> of them left.\<close>

fun attempts ::
    "'g guard \<Rightarrow> ('j, 's) http_handler \<Rightarrow> nat \<Rightarrow> 'j writer \<Rightarrow> 'g \<times> 's \<Rightarrow> 'j writer outcome \<times> 'g \<times> 's" where
  "attempts G h 0 w gs = (Ret (http_Error ''service temporarily unavailable'' 503 w), gs)"
| "attempts G h (Suc n) w gs =
     (case execute G h gs of
        (Panic, gs) \<Rightarrow> (Panic, gs)
      | (Ret (None, rec), gs) \<Rightarrow> (Ret (copy_response rec w), gs)
      | (Ret (Some e, rec), gs) \<Rightarrow> attempts G h n w gs)"

definition resilience_Middleware :: "'g guard \<Rightarrow> ('j, 's) http_handler \<Rightarrow> ('j, 'g \<times> 's) http_handler" where
  "resilience_Middleware G h w gs =
     (case gs of (g, s) \<Rightarrow>
     (case g_allow G g of
        (False, g) \<Rightarrow> (Ret (http_Error ''too many requests'' 429 w), g, s)
      | (True, g) \<Rightarrow> attempts G h maxRetries w (g, s)))"

definition resilience_WriteMiddleware :: "'g guard \<Rightarrow> ('j, 's) http_handler \<Rightarrow> ('j, 'g \<times> 's) http_handler" where
  "resilience_WriteMiddleware G h w gs =
     (case gs of (g, s) \<Rightarrow>
     (case g_allow G g of
        (False, g) \<Rightarrow> (Ret (http_Error ''too many requests'' 429 w), g, s)
      | (True, g) \<Rightarrow>
          (case execute G h (g, s) of
             (Panic, gs) \<Rightarrow> (Panic, gs)
           | (Ret (cbErr, rec), gs) \<Rightarrow>
               if cbErr = Some (Refusal ErrOpenState) \<or> cbErr = Some (Refusal ErrTooManyRequests)
               then (Ret (http_Error ''service temporarily unavailable'' 503 w), gs)
               else (Ret (copy_response rec w), gs))))"

section \<open>Helpers\<close>

definition validate_UUID :: "env \<Rightarrow> string \<Rightarrow> go_err option" where
  "validate_UUID E i =
     (if i = [] then Some (Msg ''id must not be empty'')
      else if \<not> uuid_Parse E i then Some (Msg (''invalid UUID: '' @ i))
      else None)"

text \<open>
  \<open>DoWithTries\<close>: the result is the named one, \<open>nil\<close> when no attempt is left to make at the
  start. \<open>fn\<close> threads a state and returns its error.
\<close>

function DoWithTries :: "('s \<Rightarrow> go_err option \<times> 's) \<Rightarrow> int \<Rightarrow> go_err option \<Rightarrow> 's \<Rightarrow> go_err option \<times> 's" where
  "DoWithTries fn n err s =
     (if n > 0
      then (case fn s of
              (Some e, s) \<Rightarrow> DoWithTries fn (n - 1) (Some e) s
            | (None, s) \<Rightarrow> (None, s))
      else (err, s))"
  by auto
termination by (relation "measure (\<lambda>(fn, n, err, s). nat n)") auto

declare DoWithTries.simps [simp del]

section \<open>Properties\<close>

text \<open>The state after \<open>k\<close> calls of a handler on fresh recorders, and a call that failed with 5xx.\<close>

definition calls :: "('j, 's) http_handler \<Rightarrow> nat \<Rightarrow> 's \<Rightarrow> 's" where
  "calls h k s = ((\<lambda>s. snd (h responseRecorder s)) ^^ k) s"

definition failed_call :: "('j, 's) http_handler \<Rightarrow> 's \<Rightarrow> bool" where
  "failed_call h s \<longleftrightarrow> (\<exists>rec. fst (h responseRecorder s) = Ret rec \<and> status_of rec \<ge> 500)"

lemma calls_Suc: "calls h (Suc k) s = calls h k (snd (h responseRecorder s))"
  by (simp only: calls_def funpow_Suc_right o_def)

lemma execute_cases:
  assumes "execute G h (g, s) = (r, g', s')"
  obtains (refused) e where "r = Ret (Some (Refusal e), responseRecorder)" "s' = s" "fst (g_before G g) = Some e"
  | (crashed) "fst (h responseRecorder s) = Panic" "r = Panic" "s' = snd (h responseRecorder s)"
  | (bad) rec where "fst (h responseRecorder s) = Ret rec" "status_of rec \<ge> 500"
      "r = Ret (Some (ServerError (status_of rec)), rec)" "s' = snd (h responseRecorder s)"
  | (good) rec where "fst (h responseRecorder s) = Ret rec" "status_of rec < 500"
      "r = Ret (None, rec)" "s' = snd (h responseRecorder s)"
proof -
  obtain b g1 where b: "g_before G g = (b, g1)" by force
  obtain v s1 where h: "h responseRecorder s = (v, s1)" by force
  show thesis
  proof (cases b)
    case (Some e)
    then show ?thesis using assms b by (intro refused) (auto simp: execute_def)
  next
    case None
    show ?thesis
    proof (cases v)
      case Panic
      then show ?thesis using assms b h None by (intro crashed) (auto simp: execute_def)
    next
      case (Ret rec)
      show ?thesis
      proof (cases "status_of rec \<ge> 500")
        case True
        then show ?thesis using assms b h None Ret by (intro bad) (auto simp: execute_def)
      next
        case False
        then show ?thesis using assms b h None Ret by (intro good) (auto simp: execute_def)
      qed
    qed
  qed
qed

definition answered :: "('j, 's) http_handler \<Rightarrow> nat \<Rightarrow> 's \<Rightarrow> 'j writer outcome \<Rightarrow> 'j writer \<Rightarrow> bool" where
  "answered h k s r w \<longleftrightarrow>
     (case r of
        Panic \<Rightarrow> k > 0 \<and> fst (h responseRecorder (calls h (k - 1) s)) = Panic
      | Ret w' \<Rightarrow>
          w' = http_Error ''service temporarily unavailable'' 503 w
          \<or> k > 0 \<and> (\<exists>rec. fst (h responseRecorder (calls h (k - 1) s)) = Ret rec
                \<and> status_of rec < 500 \<and> w' = copy_response rec w))"

lemma attempts_calls:
  "attempts G h n w (g, s) = (r, g', s') \<Longrightarrow>
     \<exists>k \<le> n. s' = calls h k s \<and> (\<forall>i. Suc i < k \<longrightarrow> failed_call h (calls h i s)) \<and> answered h k s r w"
proof (induction n arbitrary: g s)
  case 0
  then show ?case by (auto simp: calls_def answered_def)
next
  case (Suc n)
  obtain v g1 s1 where e: "execute G h (g, s) = (v, g1, s1)" by (metis prod_cases3)
  then show ?case
  proof (cases rule: execute_cases)
    case (refused x)
    then have "attempts G h n w (g1, s) = (r, g', s')" using Suc.prems e by simp
    from Suc.IH [OF this] show ?thesis using le_SucI by blast
  next
    case crashed
    then have "r = Panic" "s' = snd (h responseRecorder s)" using Suc.prems e by auto
    with crashed show ?thesis
      by (intro exI [of _ "Suc 0"]) (auto simp: calls_def answered_def)
  next
    case (good rec)
    then have "r = Ret (copy_response rec w)" "s' = snd (h responseRecorder s)" using Suc.prems e by auto
    with good show ?thesis
      by (intro exI [of _ "Suc 0"]) (auto simp: calls_def answered_def)
  next
    case (bad rec)
    then have "attempts G h n w (g1, snd (h responseRecorder s)) = (r, g', s')" using Suc.prems e by simp
    from Suc.IH [OF this] obtain k where k: "k \<le> n" "s' = calls h k (snd (h responseRecorder s))"
      "\<forall>i. Suc i < k \<longrightarrow> failed_call h (calls h i (snd (h responseRecorder s)))"
      "answered h k (snd (h responseRecorder s)) r w" by blast
    show ?thesis
    proof (cases "k = 0")
      case True
      with k bad show ?thesis
        by (intro exI [of _ "Suc 0"]) (auto simp: calls_def answered_def split: outcome.splits)
    next
      case False
      have f0: "failed_call h (calls h 0 s)" using bad by (auto simp: failed_call_def calls_def)
      have "\<forall>i. Suc i < Suc k \<longrightarrow> failed_call h (calls h i s)"
      proof (intro allI impI)
        fix i assume "Suc i < Suc k"
        then show "failed_call h (calls h i s)" using f0 k(3) by (cases i) (auto simp: calls_Suc)
      qed
      moreover have "answered h (Suc k) s r w"
        using k(4) False by (cases k) (auto simp: answered_def calls_Suc split: outcome.splits)
      ultimately show ?thesis
        using k(1,2) by (intro exI [of _ "Suc k"]) (auto simp: calls_Suc)
    qed
  qed
qed

text \<open>A request that writes calls its handler at most once and passes its answer on.\<close>

lemma WriteMiddleware_once:
  assumes wr: "resilience_WriteMiddleware G h' new_conn (g, t) = (q, g'', t')"
  shows "t' = t \<and> (\<exists>w. q = Ret w \<and> status_of w \<in> {429, 503})
      \<or> t' = snd (h' responseRecorder t)
        \<and> q = (case fst (h' responseRecorder t) of Panic \<Rightarrow> Panic | Ret rec \<Rightarrow> Ret (copy_response rec new_conn))"
proof -
  obtain ok g1 where a: "g_allow G g = (ok, g1)" by force
  show ?thesis
  proof (cases ok)
    case False
    with wr a show ?thesis
      by (auto simp: resilience_WriteMiddleware_def http_Error_def Write_def WriteHeader_def
          new_conn_def status_of_def Let_def)
  next
    case True
    obtain v g2 t2 where e: "execute G h' (g1, t) = (v, g2, t2)" by (metis prod_cases3)
    have w: "resilience_WriteMiddleware G h' new_conn (g, t) =
      (case execute G h' (g1, t) of
             (Panic, gs) \<Rightarrow> (Panic, gs)
           | (Ret (cbErr, rec), gs) \<Rightarrow>
               if cbErr = Some (Refusal ErrOpenState) \<or> cbErr = Some (Refusal ErrTooManyRequests)
               then (Ret (http_Error ''service temporarily unavailable'' 503 new_conn), gs)
               else (Ret (copy_response rec new_conn), gs))"
      using True a by (simp add: resilience_WriteMiddleware_def)
    from e show ?thesis
    proof (cases rule: execute_cases)
      case (refused x)
      then show ?thesis
        using wr w e
        by (cases x) (auto simp: http_Error_def Write_def WriteHeader_def new_conn_def status_of_def Let_def)
    qed (use wr w e in auto)
  qed
qed

text \<open>C24: retries. A request that only reads is served by at most three calls of its handler;
  every call but the last failed with a 5xx status, and the client gets the answer of the
  last call when it is below 500, and otherwise 429 or 503. A request that writes is served
  by at most one call: either its handler was not called and the client gets 429 or 503, or
  the client gets exactly what that call answered, errors included.\<close>

theorem retries_only_reads:
  assumes rd: "resilience_Middleware G h new_conn (g, s) = (r, g', s')"
    and wr: "resilience_WriteMiddleware G h' new_conn (g, t) = (q, g'', t')"
  shows "(\<exists>k \<le> 3. s' = calls h k s \<and> (\<forall>i. Suc i < k \<longrightarrow> failed_call h (calls h i s))
      \<and> (answered h k s r new_conn \<or> k = 0 \<and> r = Ret (http_Error ''too many requests'' 429 new_conn)))
    \<and> (t' = t \<and> (\<exists>w. q = Ret w \<and> status_of w \<in> {429, 503})
      \<or> t' = snd (h' responseRecorder t)
        \<and> q = (case fst (h' responseRecorder t) of Panic \<Rightarrow> Panic | Ret rec \<Rightarrow> Ret (copy_response rec new_conn)))"
proof
  obtain ok g1 where a: "g_allow G g = (ok, g1)" by force
  show "\<exists>k \<le> 3. s' = calls h k s \<and> (\<forall>i. Suc i < k \<longrightarrow> failed_call h (calls h i s))
      \<and> (answered h k s r new_conn \<or> k = 0 \<and> r = Ret (http_Error ''too many requests'' 429 new_conn))"
  proof (cases ok)
    case False
    with rd a show ?thesis by (auto simp: resilience_Middleware_def calls_def)
  next
    case True
    then have "attempts G h 3 new_conn (g1, s) = (r, g', s')"
      using rd a by (simp add: resilience_Middleware_def maxRetries_def)
    from attempts_calls [OF this] show ?thesis by blast
  qed
qed (rule WriteMiddleware_once [OF wr])

text \<open>A request passes the signature check when the handler is what answers it.\<close>

definition signed_ok :: "(string \<Rightarrow> string \<Rightarrow> string) \<Rightarrow> string \<Rightarrow> time \<Rightarrow> 'b request \<Rightarrow> bool" where
  "signed_ok mac secret nw r \<longleftrightarrow>
     rq_header r ''X-Signature'' \<noteq> [] \<and> rq_header r ''X-Timestamp'' \<noteq> []
     \<and> rq_header r ''X-Service-Name'' = ''gateway''
     \<and> (case ParseInt64 (rq_header r ''X-Timestamp'') of
          None \<Rightarrow> False | Some t \<Rightarrow> nw - time_Unix t \<le> minutes 5)
     \<and> rq_header r ''X-Signature'' = mac secret (dataToSign r)"

lemma signature_Middleware_cases:
  assumes "\<not> isPublicRoute (rq_path r)"
  shows "signed_ok mac secret nw r \<Longrightarrow> signature_Middleware mac secret nw r h w s = h w s"
    and "\<not> signed_ok mac secret nw r \<Longrightarrow>
      \<exists>msg. signature_Middleware mac secret nw r h w s = (Ret (http_Error msg 401 w), s)"
  using assms by (auto simp: signature_Middleware_def signed_ok_def Let_def split: option.splits)

text \<open>C23: what a signature protects. On a route that is not public a request without a valid
  signature is answered 401 and changes nothing. But a valid signature vouches for less than
  the handlers read: any other role header, body or query passes under the same signature,
  and when a request carries a session but no user, the same request with that session as
  the user does.\<close>

theorem signature_protects:
  assumes "\<not> isPublicRoute (rq_path r)"
  shows "(\<not> signed_ok mac secret nw r \<longrightarrow>
        (\<exists>msg. signature_Middleware mac secret nw r h w s = (Ret (http_Error msg 401 w), s)))
    \<and> (signed_ok mac secret nw r \<longrightarrow>
        (\<forall>role body qry read.
          let r' = r\<lparr>rq_header := (rq_header r)(''X-User-Role'' := role), rq_json := body,
                     rq_query := qry, rq_read := read\<rparr>
          in signature_Middleware mac secret nw r' h w s = h w s))
    \<and> (signed_ok mac secret nw r \<and> rq_header r ''X-User-ID'' = [] \<longrightarrow>
        (let r' = r\<lparr>rq_header := (rq_header r)(''X-User-ID'' := rq_header r ''X-Session-ID'',
                                               ''X-Session-ID'' := [])\<rparr>
         in signature_Middleware mac secret nw r' h w s = h w s))"
proof (intro conjI impI allI)
  show "\<exists>msg. signature_Middleware mac secret nw r h w s = (Ret (http_Error msg 401 w), s)"
    if "\<not> signed_ok mac secret nw r"
    using signature_Middleware_cases(2) [OF assms that] .
  show "let r' = r\<lparr>rq_header := (rq_header r)(''X-User-Role'' := role), rq_json := body,
                   rq_query := qry, rq_read := read\<rparr>
        in signature_Middleware mac secret nw r' h w s = h w s"
    if ok: "signed_ok mac secret nw r" for role body qry read
  proof -
    let ?r = "r\<lparr>rq_header := (rq_header r)(''X-User-Role'' := role), rq_json := body,
                   rq_query := qry, rq_read := read\<rparr>"
    have "dataToSign ?r = dataToSign r" by (simp add: dataToSign_def)
    then have "signed_ok mac secret nw ?r" using ok by (auto simp: signed_ok_def)
    moreover have "\<not> isPublicRoute (rq_path ?r)" using assms by simp
    ultimately show ?thesis unfolding Let_def by (intro signature_Middleware_cases(1))
  qed
  show "let r' = r\<lparr>rq_header := (rq_header r)(''X-User-ID'' := rq_header r ''X-Session-ID'',
                                               ''X-Session-ID'' := [])\<rparr>
        in signature_Middleware mac secret nw r' h w s = h w s"
    if ok: "signed_ok mac secret nw r \<and> rq_header r ''X-User-ID'' = []"
  proof -
    let ?r = "r\<lparr>rq_header := (rq_header r)(''X-User-ID'' := rq_header r ''X-Session-ID'',
                                               ''X-Session-ID'' := [])\<rparr>"
    have "dataToSign ?r = dataToSign r" using ok by (simp add: dataToSign_def)
    then have "signed_ok mac secret nw ?r" using ok by (auto simp: signed_ok_def)
    moreover have "\<not> isPublicRoute (rq_path ?r)" using assms by simp
    ultimately show ?thesis unfolding Let_def by (intro signature_Middleware_cases(1))
  qed
qed

definition sample_request :: "unit request" where
  "sample_request = \<lparr>rq_method = ''GET'', rq_path = ''/admin/tasks'',
     rq_header = (\<lambda>k. if k = ''X-Signature'' then ''mac'' else if k = ''X-Timestamp'' then ''1700000000''
                      else if k = ''X-Service-Name'' then ''gateway''
                      else if k = ''X-Session-ID'' then ''session'' else []),
     rq_param = (\<lambda>k. []), rq_query = [], rq_read = True, rq_json = Inr ()\<rparr>"

theorem signature_protects_witness:
  "let r = sample_request\<lparr>rq_header := (rq_header sample_request)
         (''X-User-ID'' := ''session'', ''X-Session-ID'' := [])\<rparr>
   in signature_Middleware (\<lambda>k t. ''mac'') ''secret'' (1700000000 * 1000000) r (\<lambda>w n. (Ret w, Suc n)) new_conn 0
      = (Ret (new_conn :: unit writer), Suc 0)"
proof -
  have path: "\<not> isPublicRoute (rq_path sample_request)"
    by (simp add: isPublicRoute_def publicRoutes_def sample_request_def strings_HasPrefix_def)
  have "ParseInt64 ''1700000000'' = Some 1700000000"
    by (simp add: ParseInt64_def digit_val_def of_char_def)
  then have ok: "signed_ok (\<lambda>k t. ''mac'') ''secret'' (1700000000 * 1000000) sample_request
      \<and> rq_header sample_request ''X-User-ID'' = []"
    by (simp add: signed_ok_def sample_request_def time_Unix_def minutes_def)
  have "rq_header sample_request ''X-Session-ID'' = ''session''" by (simp add: sample_request_def)
  with signature_protects [OF path, of "\<lambda>k t. ''mac''" "''secret''" "1700000000 * 1000000"
      "\<lambda>w n. (Ret w, Suc n)" new_conn 0] ok
  show ?thesis unfolding Let_def by metis
qed

text \<open>A handler that fails once and then answers, behind a breaker that never opens.\<close>

definition open_guard :: "unit guard" where
  "open_guard = \<lparr>g_allow = (\<lambda>g. (True, g)), g_before = (\<lambda>g. (None, g)), g_after = (\<lambda>b g. g)\<rparr>"

definition flaky :: "(unit, nat) http_handler" where
  "flaky w n = (Ret (if n = 0 then http_Error ''down'' 500 w else Write (Text ''ok'') w), Suc n)"

theorem retries_only_reads_witness:
  "fst (resilience_Middleware open_guard flaky new_conn ((), 0))
     = Ret (copy_response (Write (Text ''ok'') responseRecorder) new_conn)
   \<and> snd (snd (resilience_Middleware open_guard flaky new_conn ((), 0))) = 2
   \<and> snd (snd (resilience_WriteMiddleware open_guard flaky new_conn ((), 0))) = 1"
proof -
  have f0: "flaky responseRecorder 0 = (Ret (http_Error ''down'' 500 responseRecorder), 1)"
    and f1: "flaky responseRecorder 1 = (Ret (Write (Text ''ok'') responseRecorder), 2)"
    by (simp_all add: flaky_def numeral_2_eq_2)
  have st: "status_of (http_Error ''down'' 500 responseRecorder) = 500"
    "status_of (Write (Text ''ok'') responseRecorder) = 200"
    by (simp_all add: http_Error_def Write_def WriteHeader_def responseRecorder_def status_of_def Let_def)
  have e: "execute open_guard flaky ((), 0)
      = (Ret (Some (ServerError 500), http_Error ''down'' 500 responseRecorder), (), 1)"
    "execute open_guard flaky ((), 1) = (Ret (None, Write (Text ''ok'') responseRecorder), (), 2)"
    by (simp_all add: execute_def open_guard_def f0 f1 [simplified] st)
  have allow: "g_allow open_guard g = (True, g)" for g by (simp add: open_guard_def)
  have rd: "resilience_Middleware open_guard flaky new_conn ((), 0)
      = (Ret (copy_response (Write (Text ''ok'') responseRecorder) new_conn), (), 2)"
    by (simp add: resilience_Middleware_def allow maxRetries_def numeral_3_eq_3 e [simplified])
  obtain q g'' t' where wr: "resilience_WriteMiddleware open_guard flaky new_conn ((), 0) = (q, g'', t')"
    by (metis prod_cases3)
  have "resilience_WriteMiddleware open_guard flaky new_conn ((), 0)
      = (Ret (copy_response (http_Error ''down'' 500 responseRecorder) new_conn), (), 1)"
    using e(1) by (simp add: resilience_WriteMiddleware_def allow)
  with retries_only_reads [OF rd wr] rd wr show ?thesis by simp
qed

text \<open>\<open>DoWithTries\<close> calls its function at most \<open>n\<close> times, until it succeeds; without an attempt
  to make it reports success.\<close>

lemma DoWithTries_spec:
  "DoWithTries fn n err s = (r, s') \<Longrightarrow>
     \<exists>k \<le> nat n. s' = ((\<lambda>s. snd (fn s)) ^^ k) s
       \<and> (r = None \<longrightarrow> n > 0 \<and> k > 0 \<and> fst (fn (((\<lambda>s. snd (fn s)) ^^ (k - 1)) s)) = None \<or> n \<le> 0 \<and> err = None)"
proof (induction fn n err s rule: DoWithTries.induct)
  case (1 fn n err s)
  obtain v s1 where f: "fn s = (v, s1)" by force
  show ?case
  proof (cases "n > 0")
    case False
    with 1(2) show ?thesis by (subst (asm) DoWithTries.simps) auto
  next
    case True
    show ?thesis
    proof (cases v)
      case None
      with 1(2) True f show ?thesis
        by (subst (asm) DoWithTries.simps) (auto intro!: exI [of _ "Suc 0"])
    next
      case (Some e)
      with 1(2) True f have "DoWithTries fn (n - 1) (Some e) s1 = (r, s')"
        by (subst (asm) DoWithTries.simps) auto
      from 1(1) [OF True f [symmetric] Some this]
      obtain k where k: "k \<le> nat (n - 1)" "s' = ((\<lambda>s. snd (fn s)) ^^ k) s1"
        "r = None \<longrightarrow> n - 1 > 0 \<and> k > 0 \<and> fst (fn (((\<lambda>s. snd (fn s)) ^^ (k - 1)) s1)) = None"
        by auto
      have shift: "((\<lambda>s. snd (fn s)) ^^ Suc j) s = ((\<lambda>s. snd (fn s)) ^^ j) s1" for j
        by (simp only: funpow_Suc_right o_def) (simp add: f)
      show ?thesis
      proof (intro exI [of _ "Suc k"] conjI)
        show "Suc k \<le> nat n" using k(1) True by linarith
        show "s' = ((\<lambda>s. snd (fn s)) ^^ Suc k) s" using k(2) shift by simp
        show "r = None \<longrightarrow> n > 0 \<and> Suc k > 0
            \<and> fst (fn (((\<lambda>s. snd (fn s)) ^^ (Suc k - 1)) s)) = None \<or> n \<le> 0 \<and> err = None"
          using k(3) shift [of "k - 1"] True by (cases k) auto
      qed
    qed
  qed
qed

end
