(* ===== verification/TaskHandlers.thy ===== *)
theory TaskHandlers
  imports Batch Http Subscriptions
begin

text \<open>
  \<open>tasks/handlers/handler.go\<close>: the HTTP handlers of tasks, subtasks, subscriptions and the
  administrator, and the state of the running service they work on. A handler runs as one
  step; the goroutines it starts are left in the state and go on later. Log lines and
  response headers are left out.
\<close>

section \<open>The state of the service\<close>

text \<open>
  \<open>ap_proc\<close> holds the batch processor and the two servers; \<open>ap_sema\<close> are the goroutines under
  the handler's semaphore, \<open>ap_free\<close> those started without one, \<open>ap_notes\<close> the messages on
  their way to the users' service.
\<close>

datatype message =
    WsNotify string string "(string \<times> string) list"
  | UserMessage string string string

record 'r app =
  ap_proc :: "'r processor"
  ap_sema :: "cache_op list list"
  ap_free :: "cache_op list list"
  ap_notes :: "message list"

definition on_pg :: "(pg \<Rightarrow> 'a \<times> pg) \<Rightarrow> 'r app \<Rightarrow> 'a \<times> 'r app" where
  "on_pg f S =
     (case f (pr_pg (ap_proc S)) of (x, s) \<Rightarrow> (x, S\<lparr>ap_proc := (ap_proc S)\<lparr>pr_pg := s\<rparr>\<rparr>))"

definition on_redis :: "('r \<Rightarrow> 'a \<times> 'r) \<Rightarrow> 'r app \<Rightarrow> 'a \<times> 'r app" where
  "on_redis f S =
     (case f (pr_redis (ap_proc S)) of (x, c) \<Rightarrow> (x, S\<lparr>ap_proc := (ap_proc S)\<lparr>pr_redis := c\<rparr>\<rparr>))"

definition on_both :: "(pg \<times> 'r \<Rightarrow> 'a \<times> pg \<times> 'r) \<Rightarrow> 'r app \<Rightarrow> 'a \<times> 'r app" where
  "on_both f S =
     (case f (pr_pg (ap_proc S), pr_redis (ap_proc S)) of
        (x, s, c) \<Rightarrow> (x, S\<lparr>ap_proc := (ap_proc S)\<lparr>pr_pg := s, pr_redis := c\<rparr>\<rparr>))"

text \<open>Cache calls whose errors the code ignores.\<close>

definition cache_calls :: "'r redis \<Rightarrow> time \<Rightarrow> cache_op list \<Rightarrow> 'r app \<Rightarrow> 'r app" where
  "cache_calls R tm ops S =
     snd (on_redis (\<lambda>c. ((), fold (\<lambda>op c. snd (cache_exec R tm op c)) ops c)) S)"

definition go_sema :: "cache_op list \<Rightarrow> 'r app \<Rightarrow> 'r app" where
  "go_sema job S =
     (if length (ap_sema S) < redisConcurrencyLimit then S\<lparr>ap_sema := ap_sema S @ [job]\<rparr> else S)"

definition go_free :: "cache_op list \<Rightarrow> 'r app \<Rightarrow> 'r app" where
  "go_free job S = S\<lparr>ap_free := ap_free S @ [job]\<rparr>"

definition notify :: "message \<Rightarrow> 'r app \<Rightarrow> 'r app" where
  "notify n S = S\<lparr>ap_notes := ap_notes S @ [n]\<rparr>"

section \<open>Requests and responses\<close>

record subtask_response =
  sx_ID :: string
  sx_Title :: string
  sx_IsDone :: bool
  sx_Order :: int

record task_response =
  tx_ID :: string
  tx_Title :: string
  tx_Description :: string
  tx_Priority :: string
  tx_Status :: string
  tx_DueDate :: string
  tx_CreatedAt :: string
  tx_UserID :: string
  tx_TagName :: string
  tx_Subtasks :: "subtask_response list"

datatype task_doc =
    TaskDoc task_response
  | ListDoc "task_list list"
  | SubtaskDoc subtask_response
  | MarkDoc string bool
  | MessageDoc string

definition entityToResponse :: "task \<Rightarrow> task_response" where
  "entityToResponse t =
     \<lparr>tx_ID = t_ID t, tx_Title = t_Title t, tx_Description = t_Description t,
      tx_Priority = t_Priority t, tx_Status = t_Status t,
      tx_DueDate = format_response (t_DueDate t), tx_CreatedAt = format_response (t_CreatedAt t),
      tx_UserID = t_UserID t, tx_TagName = t_TagName t,
      tx_Subtasks = map (\<lambda>s. \<lparr>sx_ID = sub_ID s, sx_Title = sub_Title s, sx_IsDone = sub_IsDone s,
        sx_Order = sub_Order s\<rparr>) (t_Subtasks t)\<rparr>"

text \<open>The fields of the bodies, as \<open>encoding/json\<close> fills them; a \<open>CustomTime\<close> is its bytes.\<close>

record create_wire =
  cw_Title :: string
  cw_Description :: string
  cw_Priority :: string
  cw_Status :: string
  cw_DueDate :: string
  cw_TagID :: "string option"
  cw_TagName :: string
  cw_Subtasks :: "string list"

definition CreateTaskRequest_UnmarshalJSON :: "create_wire \<Rightarrow> go_err + create_req" where
  "CreateTaskRequest_UnmarshalJSON a =
     (case time_Parse layout_minute (cw_DueDate a) of
        None \<Rightarrow> Inl (Wrap ''invalid due_date format'' (Msg ''time''))
      | Some t \<Rightarrow> Inr \<lparr>cr_Title = cw_Title a, cr_Description = cw_Description a,
          cr_Priority = cw_Priority a, cr_Status = cw_Status a, cr_DueDate = t,
          cr_TagID = cw_TagID a, cr_TagName = cw_TagName a, cr_Subtasks = cw_Subtasks a\<rparr>)"

record update_wire =
  uw_Title :: "string option"
  uw_Description :: "string option"
  uw_Status :: "string option"
  uw_Priority :: "string option"
  uw_DueDate :: "string option"
  uw_TagName :: "string option"

definition decode_update :: "update_wire \<Rightarrow> (go_err + update_req) outcome" where
  "decode_update a =
     (let req = (\<lambda>due. \<lparr>ur_Title = uw_Title a, ur_Description = uw_Description a,
            ur_Status = uw_Status a, ur_Priority = uw_Priority a, ur_DueDate = due,
            ur_TagName = uw_TagName a\<rparr>)
      in case uw_DueDate a of
           None \<Rightarrow> Ret (Inr (req None))
         | Some b \<Rightarrow>
             (case CustomTime_UnmarshalJSON b of
                Panic \<Rightarrow> Panic
              | Ret (Inl e) \<Rightarrow> Ret (Inl e)
              | Ret (Inr t) \<Rightarrow> Ret (Inr (req (Some t)))))"

record sync_request =
  sy_UserID :: string
  sy_Name :: string
  sy_HasSubscription :: bool
  sy_ExpiresAt :: "time option"
  sy_TelegramChatID :: "int option"

section \<open>Ends of a handler\<close>

type_synonym ('j, 'r) reply = "(handler_err option \<times> 'j writer) outcome \<times> 'r app"

definition reply :: "'j writer \<Rightarrow> 'r app \<Rightarrow> ('j, 'r) reply" where
  "reply w S = (Ret (None, w), S)"

definition reject :: "string \<Rightarrow> nat \<Rightarrow> 'j writer \<Rightarrow> 'r app \<Rightarrow> ('j, 'r) reply" where
  "reject msg code w S = reply (http_Error msg code w) S"

definition reply_json :: "nat \<Rightarrow> 'j \<Rightarrow> 'j writer \<Rightarrow> 'r app \<Rightarrow> ('j, 'r) reply" where
  "reply_json code doc w S = reply (Write (Json doc) (WriteHeader code w)) S"

definition reply_text :: "nat \<Rightarrow> string \<Rightarrow> 'j writer \<Rightarrow> 'r app \<Rightarrow> ('j, 'r) reply" where
  "reply_text code t w S = reply (Write (Text t) (WriteHeader code w)) S"

definition reply_empty :: "nat \<Rightarrow> 'j writer \<Rightarrow> 'r app \<Rightarrow> ('j, 'r) reply" where
  "reply_empty code w S = reply (WriteHeader code w) S"

section \<open>Cache helpers\<close>

definition invalidateTaskCache :: "'r redis \<Rightarrow> time \<Rightarrow> string \<Rightarrow> string \<Rightarrow> 'r app \<Rightarrow> 'r app" where
  "invalidateTaskCache R tm taskID userID S =
     (let S = cache_calls R tm [OpDeleteTask taskID] S
      in if userID \<noteq> [] then cache_calls R tm [OpInvalidateUserLists userID] S else S)"

definition invalidateTaskCacheAsync :: "string \<Rightarrow> string \<Rightarrow> 'r app \<Rightarrow> 'r app" where
  "invalidateTaskCacheAsync taskID userID S =
     go_sema (OpDeleteTask taskID # (if userID \<noteq> [] then [OpInvalidateUserLists userID] else [])) S"

section \<open>Tasks\<close>

definition h_Create ::
    "'r redis \<Rightarrow> env \<Rightarrow> create_wire request \<Rightarrow> task_doc writer \<Rightarrow> 'r app \<Rightarrow> (task_doc, 'r) reply" where
  "h_Create R E r w S =
     (let userID = rq_header r ''X-User-ID'' in
      if userID = [] then reject ''unauthorized'' 401 w S
      else if validate_UUID E userID \<noteq> None then reject ''invalid user id'' 400 w S
      else if \<not> rq_read r
        then (Ret (Some (OtherErr (Msg ''read body'')), http_Error ''Failed to read request body'' 500 w), S)
      else case ebind (rq_json r) CreateTaskRequest_UnmarshalJSON of
        Inl e \<Rightarrow> reject ''Invalid request payload'' 400 w S
      | Inr req \<Rightarrow>
          (case on_pg (take_id E) S of
             (newID, S) \<Rightarrow>
               (let task = dtoToEntity newID userID req in
                if HasSubtasks task
                then (case on_pg (svc_CreateTask E task) S of
                        (Inl e, S) \<Rightarrow> reject ''Failed to save task'' 500 w S
                      | (Inr _, S) \<Rightarrow>
                          reply_text 201 (''Task created with ID: '' @ t_ID task) w
                            (go_free (create_job task) S))
                else (case EnqueueCreate task (ap_proc S) of
                        (True, p) \<Rightarrow>
                          reply_text 202 (''Task accepted with ID: '' @ t_ID task) w (S\<lparr>ap_proc := p\<rparr>)
                      | (False, p) \<Rightarrow>
                          (case on_pg (svc_CreateTask E task) (S\<lparr>ap_proc := p\<rparr>) of
                             (Inl e, S) \<Rightarrow> reject ''Failed to save task'' 500 w S
                           | (Inr _, S) \<Rightarrow>
                               reply_text 201 (''Task created with ID: '' @ t_ID task) w S)))))"

definition h_Update ::
    "'r redis \<Rightarrow> env \<Rightarrow> update_wire request \<Rightarrow> task_doc writer \<Rightarrow> 'r app \<Rightarrow> (task_doc, 'r) reply" where
  "h_Update R E r w S =
     (let i = rq_param r ''uuid'' in
      if validate_UUID E i \<noteq> None then reject ''Invalid ID'' 400 w S
      else case (case decode r of Inl e \<Rightarrow> Ret (Inl e) | Inr a \<Rightarrow> decode_update a) of
        Panic \<Rightarrow> (Panic, S)
      | Ret (Inl e) \<Rightarrow> reject ''Invalid input'' 400 w S
      | Ret (Inr req) \<Rightarrow>
          (case on_pg (svc_UpdateTask E i (updateRequestToPatch req)) S of
             (Inl e, S) \<Rightarrow> reject (err_text e) 500 w S
           | (Inr task, S) \<Rightarrow>
               reply_json 200 (TaskDoc (entityToResponse task)) w (go_sema (create_job task) S)))"

definition h_Delete ::
    "'r redis \<Rightarrow> env \<Rightarrow> 'b request \<Rightarrow> task_doc writer \<Rightarrow> 'r app \<Rightarrow> (task_doc, 'r) reply" where
  "h_Delete R E r w S =
     (let i = rq_param r ''uuid'' in
      if validate_UUID E i \<noteq> None then reject ''Invalid ID'' 400 w S
      else case on_redis (svc_GetTask R (now E) i) S of
        (cached, S) \<Rightarrow>
          (let userID = (case cached of Inl e \<Rightarrow> [] | Inr t \<Rightarrow> t_UserID t) in
           case (if userID = []
                 then (case on_both (svc_FindTask E R i) S of
                         (Inr (t, _), S) \<Rightarrow> (t_UserID t, S)
                       | (Inl e, S) \<Rightarrow> ([], S))
                 else (userID, S)) of
             (userID, S) \<Rightarrow>
               (case on_pg (svc_DeleteTask E i) S of
                  (Inl e, S) \<Rightarrow> reject (err_text e) 500 w S
                | (Inr _, S) \<Rightarrow>
                    reply_json 200 (MessageDoc ''successful delete'') w
                      (invalidateTaskCache R (now E) i userID S))))"

definition h_FindOne ::
    "'r redis \<Rightarrow> env \<Rightarrow> 'b request \<Rightarrow> task_doc writer \<Rightarrow> 'r app \<Rightarrow> (task_doc, 'r) reply" where
  "h_FindOne R E r w S =
     (let i = rq_param r ''uuid'' in
      if validate_UUID E i \<noteq> None then reject ''Identifier is required'' 400 w S
      else case on_both (svc_FindTask E R i) S of
        (Inl e, S) \<Rightarrow>
          if errors_Is e ErrNoRows then reject ''Task not found'' 404 w S
          else reject ''Service unavailable'' 503 w S
      | (Inr (task, fromCache), S) \<Rightarrow>
          reply_json 200 (TaskDoc (entityToResponse task)) w
            (if \<not> fromCache then go_sema [OpSetTask task] S else S))"

text \<open>The filters and the sorting are what the two middlewares put into the context.\<close>

definition h_GetList ::
    "'r redis \<Rightarrow> env \<Rightarrow> engine \<Rightarrow> filter_option \<Rightarrow> sort_options \<Rightarrow> 'b request \<Rightarrow> task_doc writer \<Rightarrow> 'r app
      \<Rightarrow> (task_doc, 'r) reply" where
  "h_GetList R E Q filterOpts sortOpts r w S =
     (let userID = rq_header r ''X-User-ID'' in
      if userID = [] then reject ''unauthorized'' 401 w S
      else if validate_UUID E userID \<noteq> None then reject ''invalid user id'' 400 w S
      else let cacheKey = BuildCacheKey userID filterOpts sortOpts in
      case on_redis (svc_GetList R (now E) cacheKey) S of
        (cached, S) \<Rightarrow>
          (if (case cached of Inl e \<Rightarrow> True | Inr ts \<Rightarrow> length ts = 0)
           then (case svc_FindTasksByUser E Q userID sortOpts filterOpts (pr_pg (ap_proc S)) of
                   Panic \<Rightarrow> (Panic, S)
                 | Ret (res, s) \<Rightarrow>
                     (let S = S\<lparr>ap_proc := (ap_proc S)\<lparr>pr_pg := s\<rparr>\<rparr> in
                      case res of
                        Inl e \<Rightarrow>
                          if errors_Is e ErrNoRows then reply_empty 204 w S
                          else reject ''Error finding tasks'' 500 w S
                      | Inr ts \<Rightarrow>
                          if length ts > 0
                          then reply_json 200 (ListDoc ts) w (go_free [OpSetList cacheKey ts] S)
                          else reply_empty 204 w S))
           else (case cached of
                   Inr ts \<Rightarrow> reply_json 200 (ListDoc ts) w S
                 | Inl e \<Rightarrow> reply_empty 204 w S)))"

definition h_GetListByTag ::
    "'r redis \<Rightarrow> env \<Rightarrow> filter_option \<Rightarrow> sort_options \<Rightarrow> 'b request \<Rightarrow> task_doc writer \<Rightarrow> 'r app
      \<Rightarrow> (task_doc, 'r) reply" where
  "h_GetListByTag R E filterOpts sortOpts r w S =
     (let tagID = rq_param r ''tagsId''; userID = rq_header r ''X-User-ID'' in
      if userID = [] \<or> tagID = [] then reject ''unauthorized or missing tag ID'' 401 w S
      else let cacheKey = BuildCacheKeyWithTag userID tagID filterOpts sortOpts in
      case on_redis (svc_GetList R (now E) cacheKey) S of
        (cached, S) \<Rightarrow>
          (if (case cached of Inl e \<Rightarrow> True | Inr ts \<Rightarrow> length ts = 0)
           then (case on_pg (svc_FindTasksByTag E userID tagID) S of
                   (Inl e, S) \<Rightarrow>
                     if errors_Is e ErrNoRows then reply_empty 204 w S
                     else reject ''Error finding tasks'' 500 w S
                 | (Inr ts, S) \<Rightarrow>
                     if length ts > 0
                     then reply_json 200 (ListDoc ts) w (go_free [OpSetList cacheKey ts] S)
                     else reply_empty 204 w S)
           else (case cached of
                   Inr ts \<Rightarrow> reply_json 200 (ListDoc ts) w S
                 | Inl e \<Rightarrow> reply_empty 204 w S)))"

section \<open>Subscriptions\<close>

definition sync_subscription :: "sync_request \<Rightarrow> subscription_row" where
  "sync_subscription q =
     \<lparr>us_user_id = sy_UserID q, us_name = sy_Name q, us_has_subscription = sy_HasSubscription q,
      us_expires_at = sy_ExpiresAt q, us_telegram_chat_id = sy_TelegramChatID q,
      us_updated_at = zero_time\<rparr>"

definition h_SyncSubscription ::
    "env \<Rightarrow> sync_request request \<Rightarrow> task_doc writer \<Rightarrow> 'r app \<Rightarrow> (task_doc, 'r) reply" where
  "h_SyncSubscription E r w S =
     (if \<not> rq_read r then reject ''cannot read body'' 400 w S
      else case rq_json r of
        Inl e \<Rightarrow> reject ''invalid request payload'' 400 w S
      | Inr q \<Rightarrow>
          if sy_UserID q = [] then reject ''user_id is required'' 400 w S
          else (case on_pg (SyncSubscription E (sync_subscription q)) S of
                  (Inl e, S) \<Rightarrow> reject ''failed to sync subscription'' 500 w S
                | (Inr _, S) \<Rightarrow> reply_text 200 ''ok'' w S))"

section \<open>Subtasks\<close>

text \<open>The body \<open>{"title": ...}\<close>.\<close>

definition title_body :: "string request \<Rightarrow> string option" where
  "title_body r =
     (case decode r of Inl e \<Rightarrow> None | Inr title \<Rightarrow> if title = [] then None else Some title)"

definition h_AddSubtask ::
    "env \<Rightarrow> string request \<Rightarrow> task_doc writer \<Rightarrow> 'r app \<Rightarrow> (task_doc, 'r) reply" where
  "h_AddSubtask E r w S =
     (let taskID = rq_param r ''uuid''; userID = rq_header r ''X-User-ID'' in
      if validate_UUID E taskID \<noteq> None then reject ''invalid task id'' 400 w S
      else if validate_UUID E userID \<noteq> None then reject ''unauthorized'' 401 w S
      else case title_body r of
        None \<Rightarrow> reject ''title required'' 400 w S
      | Some title \<Rightarrow>
          (case on_pg (svc_AddSubtask E taskID userID title) S of
             (Inl e, S) \<Rightarrow> reject (err_text e) 400 w S
           | (Inr sub, S) \<Rightarrow>
               reply_json 201 (SubtaskDoc \<lparr>sx_ID = sub_ID sub, sx_Title = sub_Title sub,
                   sx_IsDone = sub_IsDone sub, sx_Order = sub_Order sub\<rparr>) w
                 (invalidateTaskCacheAsync taskID userID S)))"

definition h_ToggleTaskSubtask ::
    "env \<Rightarrow> 'b request \<Rightarrow> task_doc writer \<Rightarrow> 'r app \<Rightarrow> (task_doc, 'r) reply" where
  "h_ToggleTaskSubtask E r w S =
     (let subtaskID = rq_param r ''sid''; userID = rq_header r ''X-User-ID'' in
      if validate_UUID E subtaskID \<noteq> None then reject ''invalid subtask id'' 400 w S
      else if validate_UUID E userID \<noteq> None then reject ''unauthorized'' 401 w S
      else case on_pg (svc_ToggleSubtaskDone E subtaskID userID) S of
        (Inl e, S) \<Rightarrow> reject (err_text e) 400 w S
      | (Inr sub, S) \<Rightarrow>
          reply_json 200 (MarkDoc (sub_ID sub) (sub_IsDone sub)) w
            (invalidateTaskCacheAsync (sub_TaskID sub) userID S))"

definition h_UpdateTaskSubtask ::
    "env \<Rightarrow> string request \<Rightarrow> task_doc writer \<Rightarrow> 'r app \<Rightarrow> (task_doc, 'r) reply" where
  "h_UpdateTaskSubtask E r w S =
     (let subtaskID = rq_param r ''sid''; userID = rq_header r ''X-User-ID'' in
      if userID = [] then reject ''unauthorized'' 401 w S
      else case title_body r of
        None \<Rightarrow> reject ''title required'' 400 w S
      | Some title \<Rightarrow>
          (case on_pg (svc_UpdateSubtask E subtaskID userID title) S of
             (Inl e, S) \<Rightarrow> reject (err_text e) 400 w S
           | (Inr _, S) \<Rightarrow> reply_empty 200 w S))"

definition h_DeleteTaskSubtask ::
    "env \<Rightarrow> 'b request \<Rightarrow> task_doc writer \<Rightarrow> 'r app \<Rightarrow> (task_doc, 'r) reply" where
  "h_DeleteTaskSubtask E r w S =
     (let subtaskID = rq_param r ''sid''; userID = rq_header r ''X-User-ID'' in
      if userID = [] then reject ''unauthorized'' 401 w S
      else case on_pg (svc_DeleteSubtask E subtaskID userID) S of
        (Inl e, S) \<Rightarrow> reject (err_text e) 400 w S
      | (Inr _, S) \<Rightarrow> reply_empty 204 w S)"

section \<open>The administrator and acknowledgements\<close>

text \<open>\<open>ws\<close> says that a notifier is configured, as \<open>main\<close> does.\<close>

definition h_AdminDeleteTask ::
    "'r redis \<Rightarrow> env \<Rightarrow> bool \<Rightarrow> 'b request \<Rightarrow> task_doc writer \<Rightarrow> 'r app \<Rightarrow> (task_doc, 'r) reply" where
  "h_AdminDeleteTask R E ws r w S =
     (if rq_header r ''X-User-Role'' \<noteq> ''admin'' then reject ''forbidden'' 403 w S
      else let i = rq_param r ''uuid'' in
      if i = [] then reject ''task id required'' 400 w S
      else case on_both (svc_FindTask E R i) S of
        (existing, S) \<Rightarrow>
          (let title = (case existing of Inl e \<Rightarrow> [] | Inr (t, _) \<Rightarrow> t_Title t) in
           case on_pg (svc_AdminSoftDelete E i) S of
             (Inl e, S) \<Rightarrow> reject ''task not found or error'' 404 w S
           | (Inr ownerID, S) \<Rightarrow>
               (let S = invalidateTaskCache R (now E) i ownerID S;
                    S = (if ownerID \<noteq> [] \<and> ws
                         then notify (WsNotify ownerID ''task_admin_deleted''
                                [(''task_id'', i), (''title'', title)]) S
                         else S)
                in reply_empty 204 w S)))"

text \<open>Dropping the lists of both participants of a shared task, and a message to each.\<close>

definition invalidate_pair :: "'r redis \<Rightarrow> time \<Rightarrow> string \<Rightarrow> string \<Rightarrow> 'r app \<Rightarrow> 'r app" where
  "invalidate_pair R tm proposerID addresseeID S =
     (let S = (if proposerID \<noteq> [] then cache_calls R tm [OpInvalidateUserLists proposerID] S else S)
      in if addresseeID \<noteq> [] \<and> addresseeID \<noteq> proposerID
         then cache_calls R tm [OpInvalidateUserLists addresseeID] S else S)"

definition notify_pair ::
    "bool \<Rightarrow> string \<Rightarrow> (string \<times> string) list \<Rightarrow> string \<Rightarrow> string \<Rightarrow> 'r app \<Rightarrow> 'r app" where
  "notify_pair ws event payload proposerID addresseeID S =
     (if ws
      then (let S = (if proposerID \<noteq> [] then notify (WsNotify proposerID event payload) S else S)
            in if addresseeID \<noteq> [] \<and> addresseeID \<noteq> proposerID
               then notify (WsNotify addresseeID event payload) S else S)
      else S)"

definition h_AdminDeleteSharedTask ::
    "'r redis \<Rightarrow> env \<Rightarrow> bool \<Rightarrow> 'b request \<Rightarrow> task_doc writer \<Rightarrow> 'r app \<Rightarrow> (task_doc, 'r) reply" where
  "h_AdminDeleteSharedTask R E ws r w S =
     (if rq_header r ''X-User-Role'' \<noteq> ''admin'' then reject ''forbidden'' 403 w S
      else let i = rq_param r ''uuid'' in
      if i = [] then reject ''shared task id required'' 400 w S
      else case on_pg (svc_AdminSoftDeleteShared E i) S of
        (Inl e, S) \<Rightarrow> reject ''shared task not found or error'' 404 w S
      | (Inr (proposerID, addresseeID, title), S) \<Rightarrow>
          reply_empty 204 w
            (notify_pair ws ''shared_task_admin_deleted'' [(''shared_task_id'', i), (''title'', title)]
               proposerID addresseeID (invalidate_pair R (now E) proposerID addresseeID S)))"

definition h_AcknowledgeAdminDeletion ::
    "'r redis \<Rightarrow> env \<Rightarrow> 'b request \<Rightarrow> task_doc writer \<Rightarrow> 'r app \<Rightarrow> (task_doc, 'r) reply" where
  "h_AcknowledgeAdminDeletion R E r w S =
     (let taskID = rq_param r ''uuid''; userID = rq_header r ''X-User-ID'' in
      if taskID = [] \<or> userID = [] then reject ''task id and user id required'' 400 w S
      else case on_pg (svc_AcknowledgeAdminDeletion E taskID userID) S of
        (Inl e, S) \<Rightarrow> reject (err_text e) 400 w S
      | (Inr _, S) \<Rightarrow> reply_empty 204 w (invalidateTaskCache R (now E) taskID userID S))"

text \<open>
  The route of the next handler names its parameter \<open>:stid\<close>, the handler reads \<open>uuid\<close>.
\<close>

definition h_AcknowledgeAdminDeletionShared ::
    "'r redis \<Rightarrow> env \<Rightarrow> 'b request \<Rightarrow> task_doc writer \<Rightarrow> 'r app \<Rightarrow> (task_doc, 'r) reply" where
  "h_AcknowledgeAdminDeletionShared R E r w S =
     (let taskID = rq_param r ''uuid''; userID = rq_header r ''X-User-ID'' in
      if taskID = [] \<or> userID = [] then reject ''task id and user id required'' 400 w S
      else case on_pg (svc_AcknowledgeAdminDeletionShared E taskID userID) S of
        (Inl e, S) \<Rightarrow> reject (err_text e) 400 w S
      | (Inr _, S) \<Rightarrow> reply_empty 204 w (invalidateTaskCache R (now E) taskID userID S))"

definition h_AdminRestoreTask ::
    "'r redis \<Rightarrow> env \<Rightarrow> bool \<Rightarrow> 'b request \<Rightarrow> task_doc writer \<Rightarrow> 'r app \<Rightarrow> (task_doc, 'r) reply" where
  "h_AdminRestoreTask R E ws r w S =
     (let i = rq_param r ''uuid'' in
      if i = [] then reject ''task id required'' 400 w S
      else case on_pg (svc_AdminRestore E i) S of
        (Inl e, S) \<Rightarrow>
          if errors_Is e ErrNotFound then reject ''task not found'' 404 w S
          else if errors_Is e ErrDeadlineExpired then reject ''deadline expired'' 422 w S
          else reject (err_text e) 500 w S
      | (Inr ownerID, S) \<Rightarrow>
          (let S = invalidateTaskCache R (now E) i ownerID S;
               S = (if ownerID \<noteq> [] \<and> ws
                    then notify (WsNotify ownerID ''task_admin_restored'' [(''task_id'', i)]) S else S)
           in reply_empty 204 w S))"

definition h_AdminRestoreSharedTask ::
    "'r redis \<Rightarrow> env \<Rightarrow> bool \<Rightarrow> 'b request \<Rightarrow> task_doc writer \<Rightarrow> 'r app \<Rightarrow> (task_doc, 'r) reply" where
  "h_AdminRestoreSharedTask R E ws r w S =
     (let i = rq_param r ''uuid'' in
      if i = [] then reject ''shared task id required'' 400 w S
      else case on_pg (svc_AdminRestoreShared E i) S of
        (Inl e, S) \<Rightarrow> reject (err_text e) 400 w S
      | (Inr (proposerID, addresseeID), S) \<Rightarrow>
          reply_empty 204 w
            (notify_pair ws ''shared_task_admin_restored'' [(''shared_task_id'', i)]
               proposerID addresseeID (invalidate_pair R (now E) proposerID addresseeID S)))"

definition h_AdminGetAllTasks ::
    "env \<Rightarrow> 'b request \<Rightarrow> task_doc writer \<Rightarrow> 'r app \<Rightarrow> (task_doc, 'r) reply" where
  "h_AdminGetAllTasks E r w S =
     (if rq_header r ''X-User-Role'' \<noteq> ''admin'' then reject ''forbidden'' 403 w S
      else let q = rq_query r; from = query_Get q ''from''; to = query_Get q ''to'';
               status = query_Get q ''status''; priory = query_Get q ''priory''
      in case (if from \<noteq> [] \<or> to \<noteq> [] \<or> status \<noteq> [] \<or> priory \<noteq> []
               then on_pg (svc_AdminFindAllFiltered E from to status priory) S
               else on_pg (svc_AdminFindAllTasks E) S) of
           (Inl e, S) \<Rightarrow> reject ''internal error'' 500 w S
         | (Inr ts, S) \<Rightarrow> reply_json 200 (ListDoc ts) w S)"

section \<open>What the handlers do to the tables\<close>

abbreviation app_db :: "'r app \<Rightarrow> db" where
  "app_db S \<equiv> store (pr_pg (ap_proc S))"

lemma on_redis_db: "on_redis f S = (x, S') \<Longrightarrow> app_db S' = app_db S"
  by (auto simp: on_redis_def split: prod.splits)

lemma find_task_db: "on_both (svc_FindTask E R i) S = (x, S') \<Longrightarrow> app_db S' = app_db S"
  by (auto simp: on_both_def split: prod.splits dest: svc_FindTask_store)

lemma quiet_db [simp]:
  "app_db (cache_calls R tm ops S) = app_db S" "app_db (go_sema job S) = app_db S"
  "app_db (go_free job S) = app_db S" "app_db (notify m S) = app_db S"
  "app_db (invalidateTaskCache R tm i u S) = app_db S" "app_db (invalidateTaskCacheAsync i u S) = app_db S"
  "app_db (invalidate_pair R tm p a S) = app_db S" "app_db (notify_pair ws e pl p a S) = app_db S"
  by (auto simp: cache_calls_def on_redis_def go_sema_def go_free_def notify_def invalidateTaskCache_def
      invalidateTaskCacheAsync_def invalidate_pair_def notify_pair_def Let_def)

lemma reply_state [simp]:
  "snd (reply w S) = S" "snd (reject m c w S) = S" "snd (reply_json c j w S) = S"
  "snd (reply_text c t w S) = S" "snd (reply_empty c w S) = S"
  by (simp_all add: reply_def reject_def reply_json_def reply_text_def reply_empty_def)

lemma enqueue_db: "EnqueueCreate t p = (ok, p') \<Longrightarrow> pr_pg p' = pr_pg p"
  by (auto simp: EnqueueCreate_def split: prod.splits)

lemma find_by_user_store:
  "svc_FindTasksByUser E Q u so fo s = Ret (r, s') \<Longrightarrow> store s' = store s"
  by (auto simp: svc_FindTasksByUser_def repo_FindByUser_def wrap_err_def
      split: prod.splits outcome.splits sum.splits dest: pg_query_store)

text \<open>A handler stays within a relation whatever it answers, also when it panics.\<close>

context store_rel
begin

definition h_keeps :: "('j writer \<Rightarrow> 'r app \<Rightarrow> ('j, 'r) reply) \<Rightarrow> bool" where
  "h_keeps h \<longleftrightarrow> (\<forall>w S. R (app_db S) (app_db (snd (h w S))))"

lemma h_keepsI: "(\<And>d w S. R d (app_db S) \<Longrightarrow> R d (app_db (snd (h w S)))) \<Longrightarrow> h_keeps h"
  by (simp add: h_keeps_def R_refl)

lemma h_keepsD: "h_keeps h \<Longrightarrow> R d (app_db S) \<Longrightarrow> R d (app_db (snd (h w S)))"
  unfolding h_keeps_def by (blast intro: R_trans)

lemma on_pg_keeps: "on_pg f S = (x, S') \<Longrightarrow> keeps f \<Longrightarrow> R (app_db S) (app_db S')"
  by (auto simp: on_pg_def split: prod.splits dest: keepsD)

lemma on_pg_step: "on_pg f S = (x, S') \<Longrightarrow> keeps f \<Longrightarrow> R d (app_db S) \<Longrightarrow> R d (app_db S')"
  by (blast intro: R_trans on_pg_keeps)

lemma keeps_take_id: "keeps (take_id E)"
  by (rule quiet) (auto simp: take_id_def)

end

text \<open>The handlers of tasks run on the task and the subscription services.\<close>

locale task_service = task_repository R + subscription_repository R
  for R :: "db \<Rightarrow> db \<Rightarrow> bool"
begin

lemmas handler_dest = on_pg_step [OF _ keeps_take_id] on_pg_step [OF _ keeps_SyncSubscription]
  on_redis_db find_task_db enqueue_db find_by_user_store keeps_service [THEN [2] on_pg_step]

lemma keeps_h_Create: "h_keeps (h_Create Rd E r)"
  by (rule h_keepsI)
    (auto simp: h_Create_def Let_def split: prod.split sum.split option.split bool.split outcome.split
      dest!: handler_dest)

lemma keeps_h_Update: "h_keeps (h_Update Rd E r)"
  by (rule h_keepsI)
    (auto simp: h_Update_def Let_def split: prod.split sum.split option.split bool.split outcome.split
      dest!: handler_dest)

lemma keeps_h_Delete: "h_keeps (h_Delete Rd E r)"
  by (rule h_keepsI)
    (auto simp: h_Delete_def Let_def split: prod.split sum.split option.split bool.split outcome.split
      dest!: handler_dest)

lemma keeps_h_FindOne: "h_keeps (h_FindOne Rd E r)"
  by (rule h_keepsI)
    (auto simp: h_FindOne_def Let_def split: prod.split sum.split option.split bool.split outcome.split
      dest!: handler_dest)

lemma keeps_h_GetList: "h_keeps (h_GetList Rd E Q fo so r)"
  by (rule h_keepsI)
    (auto simp: h_GetList_def Let_def split: prod.split sum.split option.split bool.split outcome.split
      dest!: handler_dest)

lemma keeps_h_GetListByTag: "h_keeps (h_GetListByTag Rd E fo so r)"
  by (rule h_keepsI)
    (auto simp: h_GetListByTag_def Let_def split: prod.split sum.split option.split bool.split outcome.split
      dest!: handler_dest)

lemma keeps_h_SyncSubscription: "h_keeps (h_SyncSubscription E r)"
  by (rule h_keepsI)
    (auto simp: h_SyncSubscription_def Let_def split: prod.split sum.split option.split bool.split outcome.split
      dest!: handler_dest)

lemma keeps_h_AddSubtask: "h_keeps (h_AddSubtask E r)"
  by (rule h_keepsI)
    (auto simp: h_AddSubtask_def Let_def split: prod.split sum.split option.split bool.split outcome.split
      dest!: handler_dest)

lemma keeps_h_ToggleTaskSubtask: "h_keeps (h_ToggleTaskSubtask E r)"
  by (rule h_keepsI)
    (auto simp: h_ToggleTaskSubtask_def Let_def split: prod.split sum.split option.split bool.split outcome.split
      dest!: handler_dest)

lemma keeps_h_UpdateTaskSubtask: "h_keeps (h_UpdateTaskSubtask E r)"
  by (rule h_keepsI)
    (auto simp: h_UpdateTaskSubtask_def Let_def split: prod.split sum.split option.split bool.split outcome.split
      dest!: handler_dest)

lemma keeps_h_DeleteTaskSubtask: "h_keeps (h_DeleteTaskSubtask E r)"
  by (rule h_keepsI)
    (auto simp: h_DeleteTaskSubtask_def Let_def split: prod.split sum.split option.split bool.split outcome.split
      dest!: handler_dest)

lemma keeps_h_AdminDeleteTask: "h_keeps (h_AdminDeleteTask Rd E ws r)"
  by (rule h_keepsI)
    (auto simp: h_AdminDeleteTask_def Let_def split: prod.split sum.split option.split bool.split outcome.split
      dest!: handler_dest)

lemma keeps_h_AdminDeleteSharedTask: "h_keeps (h_AdminDeleteSharedTask Rd E ws r)"
  by (rule h_keepsI)
    (auto simp: h_AdminDeleteSharedTask_def Let_def split: prod.split sum.split option.split bool.split outcome.split
      dest!: handler_dest)

lemma keeps_h_AcknowledgeAdminDeletion: "h_keeps (h_AcknowledgeAdminDeletion Rd E r)"
  by (rule h_keepsI)
    (auto simp: h_AcknowledgeAdminDeletion_def Let_def split: prod.split sum.split option.split bool.split outcome.split
      dest!: handler_dest)

lemma keeps_h_AcknowledgeAdminDeletionShared: "h_keeps (h_AcknowledgeAdminDeletionShared Rd E r)"
  by (rule h_keepsI)
    (auto simp: h_AcknowledgeAdminDeletionShared_def Let_def split: prod.split sum.split option.split bool.split outcome.split
      dest!: handler_dest)

lemma keeps_h_AdminRestoreTask: "h_keeps (h_AdminRestoreTask Rd E ws r)"
  by (rule h_keepsI)
    (auto simp: h_AdminRestoreTask_def Let_def split: prod.split sum.split option.split bool.split outcome.split
      dest!: handler_dest)

lemma keeps_h_AdminRestoreSharedTask: "h_keeps (h_AdminRestoreSharedTask Rd E ws r)"
  by (rule h_keepsI)
    (auto simp: h_AdminRestoreSharedTask_def Let_def split: prod.split sum.split option.split bool.split outcome.split
      dest!: handler_dest)

lemma keeps_h_AdminGetAllTasks: "h_keeps (h_AdminGetAllTasks E r)"
  by (rule h_keepsI)
    (auto simp: h_AdminGetAllTasks_def Let_def split: prod.split sum.split option.split bool.split outcome.split
      dest!: handler_dest)

lemmas keeps_task_handlers = keeps_h_Create keeps_h_Update keeps_h_Delete keeps_h_FindOne
  keeps_h_GetList keeps_h_GetListByTag keeps_h_SyncSubscription keeps_h_AddSubtask
  keeps_h_ToggleTaskSubtask keeps_h_UpdateTaskSubtask keeps_h_DeleteTaskSubtask
  keeps_h_AdminDeleteTask keeps_h_AdminDeleteSharedTask keeps_h_AcknowledgeAdminDeletion
  keeps_h_AcknowledgeAdminDeletionShared keeps_h_AdminRestoreTask keeps_h_AdminRestoreSharedTask
  keeps_h_AdminGetAllTasks

end

interpretation db_inv: task_service "\<lambda>d d'. db_ok d \<longrightarrow> db_ok d'"
  by unfold_locales

end
