(* ===== verification/SharedHandlers.thy ===== *)
theory SharedHandlers
  imports TaskHandlers SharedTasks
begin

text \<open>
  \<open>shared_tasks/handlers/handler.go\<close> and \<open>shared_tasks/dto/dto.go\<close>: the HTTP handlers of
  shared tasks and the messages they send to the other participant. The texts of the
  messages are given in English.
\<close>

section \<open>Responses\<close>

record shared_subtask_response =
  sq_ID :: string
  sq_SharedTaskID :: string
  sq_Title :: string
  sq_AssigneeID :: string
  sq_AssigneeName :: string
  sq_IsDone :: bool
  sq_Order :: int

record shared_task_response =
  sp_ID :: string
  sp_ProposerID :: string
  sp_AddresseeID :: string
  sp_Title :: string
  sp_Description :: string
  sp_Priority :: string
  sp_Status :: string
  sp_DueDate :: "time option"
  sp_CreatedAt :: time
  sp_ProposerName :: string
  sp_AddresseeName :: string
  sp_Subtasks :: "shared_subtask_response list"
  sp_AdminDeleted :: bool

definition ToResponse :: "shared_task \<Rightarrow> shared_task_response" where
  "ToResponse t =
     \<lparr>sp_ID = x_ID t, sp_ProposerID = x_ProposerID t, sp_AddresseeID = x_AddresseeID t,
      sp_Title = x_Title t, sp_Description = x_Description t, sp_Priority = x_Priority t,
      sp_Status = x_Status t, sp_DueDate = x_DueDate t, sp_CreatedAt = x_CreatedAt t,
      sp_ProposerName = x_ProposerName t, sp_AddresseeName = x_AddresseeName t,
      sp_Subtasks = map (\<lambda>s. \<lparr>sq_ID = xs_ID s, sq_SharedTaskID = xs_SharedTaskID s,
        sq_Title = xs_Title s, sq_AssigneeID = xs_AssigneeID s, sq_AssigneeName = xs_AssigneeName s,
        sq_IsDone = xs_IsDone s, sq_Order = xs_Order s\<rparr>) (x_Subtasks t),
      sp_AdminDeleted = x_AdminDeleted t\<rparr>"

definition ToResponses :: "shared_task list \<Rightarrow> shared_task_response list" where
  "ToResponses ts = map ToResponse ts"

datatype shared_doc =
    SharedDoc shared_task_response
  | SharedsDoc "shared_task_response list"
  | IdDoc string
  | DoneDoc bool

section \<open>Requests\<close>

record propose_body =
  pb_AddresseeID :: string
  pb_Title :: string
  pb_Description :: string
  pb_Priority :: string
  pb_DueDate :: string
  pb_Subtasks :: "subtask_input list"

definition resolveUserID :: "'b request \<Rightarrow> string" where
  "resolveUserID r =
     (if rq_header r ''X-User-ID'' \<noteq> [] then rq_header r ''X-User-ID'' else rq_param r ''userId'')"

text \<open>\<open>subs\<close> says that a subscription service is configured, as \<open>main\<close> does.\<close>

definition hasActiveSubscription ::
    "env \<Rightarrow> bool \<Rightarrow> 'b request \<Rightarrow> string \<Rightarrow> 'r app \<Rightarrow> bool \<times> 'r app" where
  "hasActiveSubscription E subs r userID S =
     (if rq_header r ''X-User-Subscription'' = ''pro'' then (True, S)
      else if \<not> subs \<or> userID = [] then (False, S)
      else on_pg (IsActive E userID) S)"

section \<open>Messages to the other participant\<close>

definition counter_message :: "string \<Rightarrow> string \<Rightarrow> string" where
  "counter_message newTitle oldTitle =
     (let title = (if newTitle = [] then oldTitle else newTitle)
      in ''counter-proposal for task '' @ title)"

definition prioLabel :: "string \<Rightarrow> string" where
  "prioLabel p =
     (if p = ''red'' then ''Red'' else if p = ''blue'' then ''Blue'' else if p = ''green'' then ''Green'' else [])"

text \<open>
  \<open>Format("02.01.2006 15:04")\<close> of what \<open>time.Parse(time.RFC3339, ...)\<close> returned: the clock
  of the zone the text names.
\<close>

definition due_label :: "string \<Rightarrow> string option" where
  "due_label due =
     (case parse_chunks layout_RFC3339 due no_fields of
        None \<Rightarrow> None
      | Some f \<Rightarrow>
          if f_day f < 1 \<or> f_day f > days_in (f_month f) (f_year f) then None
          else Some (pad_digits 2 (f_day f) @ ''.'' @ pad_digits 2 (f_month f) @ ''.'' @
                 pad_digits 4 (f_year f) @ '' '' @ pad_digits 2 (f_hour f) @ '':'' @
                 pad_digits 2 (f_min f)))"

definition update_changes :: "string \<Rightarrow> string \<Rightarrow> time option \<Rightarrow> update_input \<Rightarrow> string list" where
  "update_changes oldTitle oldPriority oldDueDate inp =
     (if ui_Title inp \<noteq> [] \<and> ui_Title inp \<noteq> oldTitle
      then [''Title: '' @ oldTitle @ '' -> '' @ ui_Title inp] else []) @
     (if ui_Priority inp \<noteq> [] \<and> ui_Priority inp \<noteq> oldPriority
      then (let old = (if prioLabel oldPriority = [] then oldPriority else prioLabel oldPriority);
                newP = (if prioLabel (ui_Priority inp) = [] then ui_Priority inp else prioLabel (ui_Priority inp))
            in [''Priority: '' @ old @ '' -> '' @ newP]) else []) @
     (if ui_DueDate inp = [] \<and> oldDueDate \<noteq> None then [''Deadline removed'']
      else if ui_DueDate inp \<noteq> []
      then (case due_label (ui_DueDate inp) of None \<Rightarrow> [] | Some l \<Rightarrow> [''Deadline: '' @ l])
      else [])"

definition update_message :: "string \<Rightarrow> string \<Rightarrow> time option \<Rightarrow> update_input \<Rightarrow> string option" where
  "update_message oldTitle oldPriority oldDueDate inp =
     (let changes = update_changes oldTitle oldPriority oldDueDate inp in
      if length changes = 0 then None
      else let title = (if ui_Title inp = [] then oldTitle else ui_Title inp)
           in Some (''participant changed task '' @ title @ '': '' @ strings_Join ''; '' changes))"

section \<open>Handlers\<close>

definition sh_GetList :: "env \<Rightarrow> 'b request \<Rightarrow> shared_doc writer \<Rightarrow> 'r app \<Rightarrow> (shared_doc, 'r) reply" where
  "sh_GetList E r w S =
     (case on_pg (sharedsvc_FindByUser E (resolveUserID r)) S of
        (Inl e, S) \<Rightarrow> reject (err_text e) 500 w S
      | (Inr ts, S) \<Rightarrow> reply_json 200 (SharedsDoc (ToResponses ts)) w S)"

definition sh_Propose ::
    "env \<Rightarrow> bool \<Rightarrow> propose_body request \<Rightarrow> shared_doc writer \<Rightarrow> 'r app \<Rightarrow> (shared_doc, 'r) reply" where
  "sh_Propose E subs r w S =
     (let userID = resolveUserID r in
      case hasActiveSubscription E subs r userID S of
        (active, S) \<Rightarrow>
          if \<not> active then reject ''subscription required'' 402 w S
          else case decode r of
            Inl e \<Rightarrow> reject ''invalid request body'' 400 w S
          | Inr b \<Rightarrow>
              if pb_Title b = [] \<or> pb_AddresseeID b = []
              then reject ''title and addressee_id required'' 400 w S
              else (case on_pg (svc_Propose E userID (pb_AddresseeID b) (pb_Title b) (pb_Description b)
                               (pb_Priority b) (pb_DueDate b) (pb_Subtasks b)) S of
                      (Inl e, S) \<Rightarrow> reject (err_text e) 400 w S
                    | (Inr i, S) \<Rightarrow> reply_json 201 (IdDoc i) w S))"

definition sh_GetByID :: "env \<Rightarrow> 'b request \<Rightarrow> shared_doc writer \<Rightarrow> 'r app \<Rightarrow> (shared_doc, 'r) reply" where
  "sh_GetByID E r w S =
     (case on_pg (sharedsvc_FindByID E (rq_param r ''stid'') (resolveUserID r)) S of
        (Inl e, S) \<Rightarrow> reject (err_text e) 500 w S
      | (Inr None, S) \<Rightarrow> reject ''not found'' 404 w S
      | (Inr (Some t), S) \<Rightarrow> reply_json 200 (SharedDoc (ToResponse t)) w S)"

definition sh_Accept :: "env \<Rightarrow> 'b request \<Rightarrow> shared_doc writer \<Rightarrow> 'r app \<Rightarrow> (shared_doc, 'r) reply" where
  "sh_Accept E r w S =
     (case on_pg (svc_Accept E (rq_param r ''stid'') (resolveUserID r)) S of
        (Inl e, S) \<Rightarrow> reject (err_text e) 400 w S
      | (Inr _, S) \<Rightarrow> reply_empty 200 w S)"

definition sh_Reject :: "env \<Rightarrow> 'b request \<Rightarrow> shared_doc writer \<Rightarrow> 'r app \<Rightarrow> (shared_doc, 'r) reply" where
  "sh_Reject E r w S =
     (case on_pg (svc_Reject E (rq_param r ''stid'') (resolveUserID r)) S of
        (Inl e, S) \<Rightarrow> reject (err_text e) 400 w S
      | (Inr _, S) \<Rightarrow> reply_empty 200 w S)"

text \<open>\<open>msgs\<close> says that a client of the users' service is configured, as \<open>main\<close> does.\<close>

definition sh_Update ::
    "env \<Rightarrow> bool \<Rightarrow> update_input request \<Rightarrow> shared_doc writer \<Rightarrow> 'r app \<Rightarrow> (shared_doc, 'r) reply" where
  "sh_Update E msgs r w S =
     (let taskID = rq_param r ''stid''; userID = resolveUserID r in
      case decode r of
        Inl e \<Rightarrow> reject ''title required'' 400 w S
      | Inr inp \<Rightarrow>
          if ui_Title inp = [] then reject ''title required'' 400 w S
          else (case on_pg (sharedsvc_FindByID E taskID userID) S of
            (found, S) \<Rightarrow>
              (let oldTask = (case found of Inl e \<Rightarrow> None | Inr t \<Rightarrow> t) in
               case on_pg (svc_Update E taskID userID inp) S of
                 (Inl e, S) \<Rightarrow> reject (err_text e) 400 w S
               | (Inr wasCounter, S) \<Rightarrow>
                   reply_empty 204 w
                     (case oldTask of
                        None \<Rightarrow> S
                      | Some old \<Rightarrow>
                          if \<not> msgs then S
                          else let partnerID = (if userID = x_ProposerID old then x_AddresseeID old
                                                else x_ProposerID old)
                          in if wasCounter
                             then notify (UserMessage userID partnerID
                                    (counter_message (ui_Title inp) (x_Title old))) S
                             else (case update_message (x_Title old) (x_Priority old) (x_DueDate old) inp of
                                     None \<Rightarrow> S
                                   | Some m \<Rightarrow> notify (UserMessage userID partnerID m) S)))))"

definition sh_Delete ::
    "env \<Rightarrow> bool \<Rightarrow> 'b request \<Rightarrow> shared_doc writer \<Rightarrow> 'r app \<Rightarrow> (shared_doc, 'r) reply" where
  "sh_Delete E msgs r w S =
     (let taskID = rq_param r ''stid''; userID = resolveUserID r in
      case on_pg (sharedsvc_Delete E taskID userID) S of
        (Inl e, S) \<Rightarrow> reject (err_text e) 400 w S
      | (Inr (partnerID, taskTitle), S) \<Rightarrow>
          reply_empty 204 w
            (if partnerID \<noteq> [] \<and> msgs
             then notify (UserMessage userID partnerID (''participant deleted task '' @ taskTitle)) S
             else S))"

definition sh_ToggleSubtaskDone ::
    "env \<Rightarrow> 'b request \<Rightarrow> shared_doc writer \<Rightarrow> 'r app \<Rightarrow> (shared_doc, 'r) reply" where
  "sh_ToggleSubtaskDone E r w S =
     (case on_pg (sharedsvc_ToggleSubtaskDone E (rq_param r ''sid'') (resolveUserID r)) S of
        (Inl e, S) \<Rightarrow> reject (err_text e) 400 w S
      | (Inr sub, S) \<Rightarrow> reply_json 200 (DoneDoc (xs_IsDone sub)) w S)"

definition sh_AdminGetAllSharedTasks ::
    "env \<Rightarrow> 'b request \<Rightarrow> shared_doc writer \<Rightarrow> 'r app \<Rightarrow> (shared_doc, 'r) reply" where
  "sh_AdminGetAllSharedTasks E r w S =
     (if rq_header r ''X-User-Role'' \<noteq> ''admin'' then reject ''forbidden'' 403 w S
      else case on_pg (sharedsvc_AdminFindAll E) S of
        (Inl e, S) \<Rightarrow> reject ''internal error'' 500 w S
      | (Inr ts, S) \<Rightarrow> reply_json 200 (SharedsDoc (ToResponses ts)) w S)"

section \<open>What the handlers do to the tables\<close>

text \<open>The handlers of shared tasks run on their own service and ask for subscriptions.\<close>

locale shared_task_service = shared_task_repository R + subscription_repository R
  for R :: "db \<Rightarrow> db \<Rightarrow> bool"
begin

lemmas shared_dest = keeps_shared_service [THEN [2] on_pg_step] on_pg_step [OF _ keeps_IsActive]

lemma keeps_sh_GetList: "h_keeps (sh_GetList E r)"
  by (rule h_keepsI)
    (auto simp: sh_GetList_def Let_def split: prod.split sum.split option.split dest!: shared_dest)

lemma keeps_sh_Propose: "h_keeps (sh_Propose E subs r)"
  by (rule h_keepsI)
    (auto simp: sh_Propose_def hasActiveSubscription_def Let_def split: prod.split sum.split option.split dest!: shared_dest)

lemma keeps_sh_GetByID: "h_keeps (sh_GetByID E r)"
  by (rule h_keepsI)
    (auto simp: sh_GetByID_def Let_def split: prod.split sum.split option.split dest!: shared_dest)

lemma keeps_sh_Accept: "h_keeps (sh_Accept E r)"
  by (rule h_keepsI)
    (auto simp: sh_Accept_def Let_def split: prod.split sum.split option.split dest!: shared_dest)

lemma keeps_sh_Reject: "h_keeps (sh_Reject E r)"
  by (rule h_keepsI)
    (auto simp: sh_Reject_def Let_def split: prod.split sum.split option.split dest!: shared_dest)

lemma keeps_sh_Update: "h_keeps (sh_Update E msgs r)"
  by (rule h_keepsI)
    (auto simp: sh_Update_def Let_def split: prod.split sum.split option.split dest!: shared_dest)

lemma keeps_sh_Delete: "h_keeps (sh_Delete E msgs r)"
  by (rule h_keepsI)
    (auto simp: sh_Delete_def Let_def split: prod.split sum.split option.split dest!: shared_dest)

lemma keeps_sh_ToggleSubtaskDone: "h_keeps (sh_ToggleSubtaskDone E r)"
  by (rule h_keepsI)
    (auto simp: sh_ToggleSubtaskDone_def Let_def split: prod.split sum.split option.split dest!: shared_dest)

lemma keeps_sh_AdminGetAllSharedTasks: "h_keeps (sh_AdminGetAllSharedTasks E r)"
  by (rule h_keepsI)
    (auto simp: sh_AdminGetAllSharedTasks_def Let_def split: prod.split sum.split option.split dest!: shared_dest)

lemmas keeps_shared_handlers = keeps_sh_GetList keeps_sh_Propose keeps_sh_GetByID keeps_sh_Accept
  keeps_sh_Reject keeps_sh_Update keeps_sh_Delete keeps_sh_ToggleSubtaskDone
  keeps_sh_AdminGetAllSharedTasks

end

interpretation db_inv: shared_task_service "\<lambda>d d'. db_ok d \<longrightarrow> db_ok d'"
  by unfold_locales

end
