(* ===== verification/Tags.thy ===== *)
theory Tags
  imports TaskHandlers
begin

text \<open>
  The tags component (\<open>internal/tags\<close>): the PostgreSQL repository, the Redis repository, the
  service and the HTTP handlers. Its routes carry no signature check: the user is the one the
  path names. Log lines are left out; messages are given in English.
\<close>

section \<open>PostgreSQL\<close>

definition find_tag_sql :: "env \<Rightarrow> string \<Rightarrow> db \<Rightarrow> go_err + bool" where
  "find_tag_sql E i d =
     ebind (uuid_arg E i) (\<lambda>tid. Inr (list_ex (\<lambda>r. ct_tag_id r = tid) (custom_tag d)))"

definition tagrepo_FindTagByID :: "env \<Rightarrow> string \<Rightarrow> pg \<Rightarrow> (go_err + bool) \<times> pg" where
  "tagrepo_FindTagByID E i s = pg_query (find_tag_sql E i) s"

definition create_tag_sql :: "env \<Rightarrow> string \<Rightarrow> string \<Rightarrow> string \<Rightarrow> db \<Rightarrow> go_err + string \<times> db" where
  "create_tag_sql E newID name userID d =
     ebind (uuid_arg E userID) (\<lambda>uid.
     ebind (ins_custom_tag \<lparr>ct_tag_id = newID, ct_name = name, ct_user_id = uid\<rparr> d) (\<lambda>d.
       Inr (newID, d)))"

definition tagrepo_CreateTags :: "env \<Rightarrow> tags \<Rightarrow> string \<Rightarrow> pg \<Rightarrow> (go_err + string) \<times> pg" where
  "tagrepo_CreateTags E t userID s =
     (case take_id E s of
        (newID, s) \<Rightarrow>
          wrap_err (''cannot create tag '' @ tg_Name t)
            (pg_run (create_tag_sql E newID (tg_Name t) userID) s))"

definition other_tag_sql :: "env \<Rightarrow> string \<Rightarrow> string \<Rightarrow> string \<Rightarrow> db \<Rightarrow> go_err + string" where
  "other_tag_sql E name i userID d =
     ebind (uuid_arg E i) (\<lambda>tid.
     ebind (uuid_arg E userID) (\<lambda>uid.
       case find_row (\<lambda>r. ct_name r = name \<and> ct_user_id r = uid \<and> ct_tag_id r \<noteq> tid) (custom_tag d) of
         None \<Rightarrow> Inl PgxNoRows | Some r \<Rightarrow> Inr (ct_tag_id r)))"

definition rename_tag_sql :: "env \<Rightarrow> string \<Rightarrow> string \<Rightarrow> string \<Rightarrow> db \<Rightarrow> go_err + unit \<times> db" where
  "rename_tag_sql E name i userID d =
     ebind (uuid_arg E i) (\<lambda>tid.
     ebind (uuid_arg E userID) (\<lambda>uid.
       let hit = (\<lambda>r. ct_tag_id r = tid \<and> ct_user_id r = uid)
       in if list_ex hit (custom_tag d)
             \<and> list_ex (\<lambda>r. \<not> hit r \<and> ct_name r = name \<and> ct_user_id r = uid) (custom_tag d)
          then Inl (DbError ''23505'')
          else Inr ((), d\<lparr>custom_tag := update_where hit (\<lambda>r. r\<lparr>ct_name := name\<rparr>) (custom_tag d)\<rparr>)))"

definition tagrepo_UpdateTags :: "env \<Rightarrow> string \<Rightarrow> string \<Rightarrow> string \<Rightarrow> pg \<Rightarrow> (go_err + unit) \<times> pg" where
  "tagrepo_UpdateTags E i name userID s =
     (if \<not> uuid_Parse E i then (Inl (Msg (''invalid uuid: '' @ i)), s)
      else if name = [] then (Inl (Msg ''name must not be empty''), s)
      else case pg_query (other_tag_sql E name i userID) s of
        (Inr other, s) \<Rightarrow>
          if other \<noteq> [] then (Inl (Msg (''tag exists: '' @ name)), s)
          else wrap_err ''cannot update tag'' (pg_run (rename_tag_sql E name i userID) s)
      | (Inl e, s) \<Rightarrow>
          if \<not> errors_Is e PgxNoRows then (Inl e, s)
          else wrap_err ''cannot update tag'' (pg_run (rename_tag_sql E name i userID) s))"

definition delete_tag_sql :: "env \<Rightarrow> string \<Rightarrow> string \<Rightarrow> db \<Rightarrow> go_err + unit \<times> db" where
  "delete_tag_sql E i userID d =
     ebind (uuid_arg E i) (\<lambda>tid.
     ebind (uuid_arg E userID) (\<lambda>uid.
       Inr ((), d\<lparr>custom_tag := filter (\<lambda>r. \<not> (ct_tag_id r = tid \<and> ct_user_id r = uid)) (custom_tag d)\<rparr>)))"

definition tagrepo_DeleteTags :: "env \<Rightarrow> string \<Rightarrow> string \<Rightarrow> pg \<Rightarrow> (go_err + unit) \<times> pg" where
  "tagrepo_DeleteTags E i userID s =
     (if \<not> uuid_Parse E i then (Inl (Msg (''Invalid uuid:'' @ i)), s)
      else wrap_err ''failed to delete tags'' (pg_run (delete_tag_sql E i userID) s))"

text \<open>The default tags, without a user, and then the user's own.\<close>

definition all_tags_sql :: "env \<Rightarrow> string \<Rightarrow> db \<Rightarrow> go_err + tags list" where
  "all_tags_sql E userID d =
     ebind (uuid_arg E userID) (\<lambda>uid.
       Inr (map (\<lambda>r. \<lparr>tg_Id = dt_tag_id r, tg_Name = dt_name r, tg_UserID = None\<rparr>) (default_tag d)
            @ map (\<lambda>r. \<lparr>tg_Id = ct_tag_id r, tg_Name = ct_name r, tg_UserID = Some (ct_user_id r)\<rparr>)
                (filter (\<lambda>r. ct_user_id r = uid) (custom_tag d))))"

text \<open>The error is formatted with \<open>%v\<close>, so nothing can be unwrapped from it.\<close>

definition tagrepo_FindAllByUser :: "env \<Rightarrow> string \<Rightarrow> pg \<Rightarrow> (go_err + tags list) \<times> pg" where
  "tagrepo_FindAllByUser E userID s =
     (case pg_query (all_tags_sql E userID) s of
        (Inl e, s) \<Rightarrow> (Inl (Msg (''query failed: '' @ err_text e)), s)
      | (Inr ts, s) \<Rightarrow> (Inr ts, s))"

definition default_tag_sql :: "env \<Rightarrow> string \<Rightarrow> db \<Rightarrow> go_err + tags" where
  "default_tag_sql E i d =
     ebind (uuid_arg E i) (\<lambda>tid.
       case find_row (\<lambda>r. dt_tag_id r = tid) (default_tag d) of
         None \<Rightarrow> Inl PgxNoRows
       | Some r \<Rightarrow> Inr \<lparr>tg_Id = dt_tag_id r, tg_Name = dt_name r, tg_UserID = None\<rparr>)"

definition own_tag_sql :: "env \<Rightarrow> string \<Rightarrow> string \<Rightarrow> db \<Rightarrow> go_err + tags" where
  "own_tag_sql E i userID d =
     ebind (uuid_arg E i) (\<lambda>tid.
     ebind (uuid_arg E userID) (\<lambda>uid.
       case find_row (\<lambda>r. ct_tag_id r = tid \<and> ct_user_id r = uid) (custom_tag d) of
         None \<Rightarrow> Inl PgxNoRows
       | Some r \<Rightarrow> Inr \<lparr>tg_Id = ct_tag_id r, tg_Name = ct_name r, tg_UserID = Some (ct_user_id r)\<rparr>))"

definition tagrepo_FindOneTags :: "env \<Rightarrow> string \<Rightarrow> string \<Rightarrow> pg \<Rightarrow> (go_err + tags) \<times> pg" where
  "tagrepo_FindOneTags E i userID s =
     (case pg_query (default_tag_sql E i) s of
        (Inr t, s) \<Rightarrow> (Inr t, s)
      | (Inl e, s) \<Rightarrow>
          if errors_Is e PgxNoRows then pg_query (own_tag_sql E i userID) s else (Inl e, s))"

section \<open>Redis\<close>

definition tag_key :: "string \<Rightarrow> string \<Rightarrow> string" where
  "tag_key userID i = ''user:'' @ userID @ '':tag:'' @ i"

definition CreateTagsRedis :: "'r redis \<Rightarrow> time \<Rightarrow> tags \<Rightarrow> string \<Rightarrow> 'r \<Rightarrow> (go_err + unit) \<times> 'r" where
  "CreateTagsRedis R tm t userID c = rd_Set R tm (tag_key userID (tg_Id t)) (DocTag t) (hours 24) c"

definition UpdateTagsRedis ::
    "'r redis \<Rightarrow> time \<Rightarrow> string \<Rightarrow> string \<Rightarrow> string \<Rightarrow> 'r \<Rightarrow> (go_err + unit) \<times> 'r" where
  "UpdateTagsRedis R tm i name userID c = rd_Set R tm (tag_key userID i) (DocTagDTO name) (hours 24) c"

definition DeleteTagsRedis :: "'r redis \<Rightarrow> time \<Rightarrow> string \<Rightarrow> string \<Rightarrow> 'r \<Rightarrow> (go_err + unit) \<times> 'r" where
  "DeleteTagsRedis R tm i userID c = rd_Del R tm [tag_key userID i] c"

text \<open>A stored \<open>TagsDTO\<close> has a name and no id, so the id read from it is empty.\<close>

definition FindOneTagsRedis :: "'r redis \<Rightarrow> time \<Rightarrow> string \<Rightarrow> string \<Rightarrow> 'r \<Rightarrow> (go_err + tags) \<times> 'r" where
  "FindOneTagsRedis R tm i userID c =
     (case rd_Get R tm (tag_key userID i) c of
        (Inl e, c) \<Rightarrow> (Inl e, c)
      | (Inr (DocTag t), c) \<Rightarrow> (Inr t, c)
      | (Inr (DocTagDTO name), c) \<Rightarrow> (Inr \<lparr>tg_Id = [], tg_Name = name, tg_UserID = None\<rparr>, c)
      | (Inr _, c) \<Rightarrow> (Inl (Msg ''json''), c))"

definition FindAllTagsRedis :: "'r redis \<Rightarrow> time \<Rightarrow> string \<Rightarrow> 'r \<Rightarrow> (go_err + tags list) \<times> 'r" where
  "FindAllTagsRedis R tm userId c =
     (case rd_Get R tm userId c of
        (Inl e, c) \<Rightarrow> if errors_Is e RedisNil then (Inr [], c) else (Inl e, c)
      | (Inr (DocTagList ts), c) \<Rightarrow> (Inr ts, c)
      | (Inr _, c) \<Rightarrow> (Inl (Wrap ''cannot decode'' (Msg ''json'')), c))"

definition SetTagToCacheList :: "'r redis \<Rightarrow> time \<Rightarrow> string \<Rightarrow> tags list \<Rightarrow> 'r \<Rightarrow> (go_err + unit) \<times> 'r" where
  "SetTagToCacheList R tm cacheKey ts c =
     (case rd_Set R tm cacheKey (DocTagList ts) (hours 24) c of
        (Inl e, c) \<Rightarrow> (Inl (Wrap ''cannot save tags'' e), c)
      | (Inr _, c) \<Rightarrow> (Inr (), c))"

definition DeleteTagListCache :: "'r redis \<Rightarrow> time \<Rightarrow> string \<Rightarrow> 'r \<Rightarrow> (go_err + unit) \<times> 'r" where
  "DeleteTagListCache R tm userID c = rd_Del R tm [userID] c"

section \<open>Service\<close>

text \<open>
  The methods that only forward and log are the repository's operations. \<open>UpdateTags\<close> and
  \<open>DeleteTags\<close> take an error of the lookup for a missing tag.
\<close>

text \<open>The operations the service only forwards.\<close>

definition tagsvc_CreateTags :: "env \<Rightarrow> tags \<Rightarrow> string \<Rightarrow> pg \<Rightarrow> (go_err + string) \<times> pg" where
  [simp]: "tagsvc_CreateTags E t userID = tagrepo_CreateTags E t userID"

definition tagsvc_CreateTagsRedis :: "'r redis \<Rightarrow> time \<Rightarrow> tags \<Rightarrow> string \<Rightarrow> 'r \<Rightarrow> (go_err + unit) \<times> 'r" where
  [simp]: "tagsvc_CreateTagsRedis R tm t userID = CreateTagsRedis R tm t userID"

definition tagsvc_UpdateTagsRedis :: "'r redis \<Rightarrow> time \<Rightarrow> string \<Rightarrow> string \<Rightarrow> string \<Rightarrow> 'r \<Rightarrow> (go_err + unit) \<times> 'r" where
  [simp]: "tagsvc_UpdateTagsRedis R tm i name userID = UpdateTagsRedis R tm i name userID"

definition tagsvc_DeleteTagsRedis :: "'r redis \<Rightarrow> time \<Rightarrow> string \<Rightarrow> string \<Rightarrow> 'r \<Rightarrow> (go_err + unit) \<times> 'r" where
  [simp]: "tagsvc_DeleteTagsRedis R tm i userID = DeleteTagsRedis R tm i userID"

definition tagsvc_FindOneTagsRedis :: "'r redis \<Rightarrow> time \<Rightarrow> string \<Rightarrow> string \<Rightarrow> 'r \<Rightarrow> (go_err + tags) \<times> 'r" where
  [simp]: "tagsvc_FindOneTagsRedis R tm i userID = FindOneTagsRedis R tm i userID"

definition tagsvc_FindAllTagsRedis :: "'r redis \<Rightarrow> time \<Rightarrow> string \<Rightarrow> 'r \<Rightarrow> (go_err + tags list) \<times> 'r" where
  [simp]: "tagsvc_FindAllTagsRedis R tm userId = FindAllTagsRedis R tm userId"

definition tagsvc_SetTagList :: "'r redis \<Rightarrow> time \<Rightarrow> string \<Rightarrow> tags list \<Rightarrow> 'r \<Rightarrow> (go_err + unit) \<times> 'r" where
  [simp]: "tagsvc_SetTagList R tm cacheKey ts = SetTagToCacheList R tm cacheKey ts"

definition tagsvc_InvalidateTagListCache :: "'r redis \<Rightarrow> time \<Rightarrow> string \<Rightarrow> 'r \<Rightarrow> (go_err + unit) \<times> 'r" where
  [simp]: "tagsvc_InvalidateTagListCache R tm userID = DeleteTagListCache R tm userID"

definition tagsvc_FindOneTags :: "env \<Rightarrow> string \<Rightarrow> string \<Rightarrow> pg \<Rightarrow> (go_err + tags) \<times> pg" where
  [simp]: "tagsvc_FindOneTags E i userID = tagrepo_FindOneTags E i userID"

definition tagsvc_FindAllTags :: "env \<Rightarrow> string \<Rightarrow> pg \<Rightarrow> (go_err + tags list) \<times> pg" where
  [simp]: "tagsvc_FindAllTags E userId = tagrepo_FindAllByUser E userId"

definition tagsvc_UpdateTags :: "env \<Rightarrow> string \<Rightarrow> string \<Rightarrow> string \<Rightarrow> pg \<Rightarrow> (go_err + unit) \<times> pg" where
  "tagsvc_UpdateTags E i name userID s =
     (case tagrepo_FindTagByID E i s of
        (found, s) \<Rightarrow>
          if found \<noteq> Inr True then (Inl (Msg ''tag not found''), s)
          else wrap_err ''failed to update tag'' (tagrepo_UpdateTags E i name userID s))"

definition tagsvc_DeleteTags :: "env \<Rightarrow> string \<Rightarrow> string \<Rightarrow> pg \<Rightarrow> (go_err + unit) \<times> pg" where
  "tagsvc_DeleteTags E i userID s =
     (case tagrepo_FindTagByID E i s of
        (found, s) \<Rightarrow>
          if found \<noteq> Inr True then (Inl (Msg ''tag not found''), s)
          else tagrepo_DeleteTags E i userID s)"

section \<open>Handlers\<close>

text \<open>The cache calls of the goroutines the handlers start, kept beside the state.\<close>

datatype tag_op =
    OpSetTag tags string
  | OpSetTagName string string string
  | OpDropTag string string
  | OpSetTags string "tags list"
  | OpDropTags string
  | OpTasks cache_op

fun tag_exec :: "'r redis \<Rightarrow> time \<Rightarrow> tag_op \<Rightarrow> 'r \<Rightarrow> (go_err + unit) \<times> 'r" where
  "tag_exec R tm (OpSetTag t u) c = tagsvc_CreateTagsRedis R tm t u c"
| "tag_exec R tm (OpSetTagName i name u) c = tagsvc_UpdateTagsRedis R tm i name u c"
| "tag_exec R tm (OpDropTag i u) c = tagsvc_DeleteTagsRedis R tm i u c"
| "tag_exec R tm (OpSetTags u ts) c = tagsvc_SetTagList R tm u ts c"
| "tag_exec R tm (OpDropTags u) c = tagsvc_InvalidateTagListCache R tm u c"
| "tag_exec R tm (OpTasks op) c = cache_exec R tm op c"

datatype tag_doc = TagDoc tags | TagsDoc "tags list" | IdNameDoc string string | MsgDoc string

type_synonym 'r tag_state = "'r app \<times> tag_op list list"

type_synonym 'r tag_reply = "(handler_err option \<times> tag_doc writer) outcome \<times> 'r tag_state"

definition tag_reply :: "handler_err option \<Rightarrow> tag_doc writer \<Rightarrow> 'r app \<Rightarrow> tag_op list list \<Rightarrow> 'r tag_reply" where
  "tag_reply e w S jobs = (Ret (e, w), S, jobs)"

definition tag_json :: "nat \<Rightarrow> tag_doc \<Rightarrow> tag_doc writer \<Rightarrow> tag_doc writer" where
  "tag_json code doc w = Write (Json doc) (WriteHeader code w)"

text \<open>\<open>errors.As(err, &pgErr)\<close> and the code of the server's error.\<close>

fun pg_code :: "go_err \<Rightarrow> string option" where
  "pg_code (Wrap m e) = pg_code e"
| "pg_code (DbError c) = Some c"
| "pg_code _ = None"

definition th_CreateTag ::
    "env \<Rightarrow> string request \<Rightarrow> tag_doc writer \<Rightarrow> 'r tag_state \<Rightarrow> 'r tag_reply" where
  "th_CreateTag E r w Sj =
     (case Sj of (S, jobs) \<Rightarrow>
     (let userId = rq_param r ''userId'' in
      if \<not> rq_read r then tag_reply (Some (OtherErr (Msg ''read body''))) w S jobs
      else case rq_json r of
        Inl e \<Rightarrow> tag_reply (Some (AppErr (BadRequest ''Invalid request payload'' (err_text e)))) w S jobs
      | Inr name \<Rightarrow>
          (let tag = \<lparr>tg_Id = [], tg_Name = name, tg_UserID = Some userId\<rparr> in
           case on_pg (tagsvc_CreateTags E tag userId) S of
             (Inl e, S) \<Rightarrow>
               if pg_code e = Some ''23505''
               then tag_reply (Some (AppErr (BadRequest (''tag exists: '' @ name) (err_text e)))) w S jobs
               else tag_reply (Some (OtherErr e)) w S jobs
           | (Inr i, S) \<Rightarrow>
               tag_reply None (tag_json 201 (IdNameDoc i name) w) S
                 (jobs @ [[OpSetTag (tag\<lparr>tg_Id := i\<rparr>) userId, OpDropTags userId]]))))"

definition th_Delete ::
    "env \<Rightarrow> 'b request \<Rightarrow> tag_doc writer \<Rightarrow> 'r tag_state \<Rightarrow> 'r tag_reply" where
  "th_Delete E r w Sj =
     (case Sj of (S, jobs) \<Rightarrow>
     (let userId = rq_param r ''userId''; tagId = rq_param r ''tagsId'' in
      if userId = [] \<or> tagId = []
      then tag_reply (Some (OtherErr (Msg ''invalid user ID or tag ID'')))
             (http_Error ''Invalid user ID or tag ID'' 400 w) S jobs
      else case on_pg (tagsvc_DeleteTags E tagId userId) S of
        (Inl e, S) \<Rightarrow> tag_reply (Some (OtherErr e)) (http_Error (err_text e) 500 w) S jobs
      | (Inr _, S) \<Rightarrow>
          tag_reply None (tag_json 200 (MsgDoc ''successful delete'') w) S
            (jobs @ [[OpDropTag tagId userId, OpDropTags userId, OpTasks (OpInvalidateUserTaskCaches userId)]])))"

definition th_GetList ::
    "'r redis \<Rightarrow> env \<Rightarrow> 'b request \<Rightarrow> tag_doc writer \<Rightarrow> 'r tag_state \<Rightarrow> 'r tag_reply" where
  "th_GetList R E r w Sj =
     (case Sj of (S, jobs) \<Rightarrow>
     (let userId = rq_param r ''userId'' in
      if userId = [] then tag_reply None (http_Error ''Invalid user ID'' 400 w) S jobs
      else case on_redis (tagsvc_FindAllTagsRedis R (now E) userId) S of
        (cached, S) \<Rightarrow>
          (case (case cached of Inl e \<Rightarrow> [] | Inr ts \<Rightarrow> ts) of
             t # ts \<Rightarrow> tag_reply None (tag_json 200 (TagsDoc (t # ts)) w) S jobs
           | [] \<Rightarrow>
               (case on_pg (tagsvc_FindAllTags E userId) S of
                  (Inl e, S) \<Rightarrow>
                    \<comment> \<open>the slice returned with an error is nil: \<open>len(tags) == 0\<close>\<close>
                    if errors_Is e ErrNoRows \<or> length ([] :: tags list) = 0
                    then tag_reply None (WriteHeader 204 w) S jobs
                    else tag_reply (Some (OtherErr e)) (http_Error ''Error retrieving tags'' 500 w) S jobs
                | (Inr ts, S) \<Rightarrow>
                    tag_reply None (tag_json 200 (TagsDoc ts) w) S (jobs @ [[OpSetTags userId ts]])))))"

definition th_FindOne ::
    "'r redis \<Rightarrow> env \<Rightarrow> 'b request \<Rightarrow> tag_doc writer \<Rightarrow> 'r tag_state \<Rightarrow> 'r tag_reply" where
  "th_FindOne R E r w Sj =
     (case Sj of (S, jobs) \<Rightarrow>
     (let userId = rq_param r ''userId''; tagId = rq_param r ''tagsId'' in
      if userId = [] \<or> tagId = []
      then tag_reply (Some (OtherErr (Msg ''invalid user ID or tag ID'')))
             (http_Error ''Invalid user ID or tag ID'' 400 w) S jobs
      else case on_redis (tagsvc_FindOneTagsRedis R (now E) tagId userId) S of
        (cached, S) \<Rightarrow>
          (case (case cached of Inl e \<Rightarrow> None | Inr t \<Rightarrow> if tg_Id t \<noteq> [] then Some t else None) of
             Some t \<Rightarrow> tag_reply None (tag_json 200 (TagDoc t) w) S jobs
           | None \<Rightarrow>
               (case on_pg (tagsvc_FindOneTags E tagId userId) S of
                  (Inl e, S) \<Rightarrow>
                    if errors_Is e ErrNoRows then tag_reply None (http_Error ''Tag not found'' 404 w) S jobs
                    else tag_reply (Some (OtherErr e)) (http_Error ''Failed to retrieve tag'' 500 w) S jobs
                | (Inr t, S) \<Rightarrow>
                    tag_reply None (tag_json 200 (TagDoc t) w) S (jobs @ [[OpSetTag t userId]])))))"

definition th_UpdateTag ::
    "env \<Rightarrow> string request \<Rightarrow> tag_doc writer \<Rightarrow> 'r tag_state \<Rightarrow> 'r tag_reply" where
  "th_UpdateTag E r w Sj =
     (case Sj of (S, jobs) \<Rightarrow>
     (let userId = rq_param r ''userId''; tagId = rq_param r ''tagsId'' in
      if userId = [] \<or> tagId = []
      then tag_reply (Some (OtherErr (Msg ''invalid user ID or tag ID'')))
             (http_Error ''Invalid user ID or tag ID'' 400 w) S jobs
      else case decode r of
        Inl e \<Rightarrow> tag_reply (Some (OtherErr e)) (http_Error ''Invalid input'' 400 w) S jobs
      | Inr name \<Rightarrow>
          (case on_pg (tagsvc_UpdateTags E tagId name userId) S of
             (Inl e, S) \<Rightarrow> tag_reply (Some (OtherErr e)) (http_Error (err_text e) 500 w) S jobs
           | (Inr _, S) \<Rightarrow>
               tag_reply None (tag_json 200 (IdNameDoc tagId name) w) S
                 (jobs @ [[OpDropTag tagId userId, OpSetTagName tagId name userId, OpDropTags userId,
                           OpTasks (OpInvalidateUserTaskCaches userId)]]))))"

section \<open>What the operations keep\<close>

lemma custom_tags_db_ok:
  assumes "db_ok d" and "distinct (map ct_tag_id ts)" and "distinct (map (\<lambda>r. (ct_name r, ct_user_id r)) ts)"
  shows "db_ok (d\<lparr>custom_tag := ts\<rparr>)"
  using assms versions_ok_same_events [of "d\<lparr>custom_tag := ts\<rparr>" d]
  by (auto simp: db_ok_def schema_ok_def acks_ok_def shared_status_ok_def)

lemma create_tag_sql_db_ok: "create_tag_sql E n name u d = Inr (x, d') \<Longrightarrow> db_ok d \<Longrightarrow> db_ok d'"
  by (auto simp: create_tag_sql_def dest: ins_custom_tag_db_ok)

lemma delete_tag_sql_db_ok: "delete_tag_sql E i u d = Inr (x, d') \<Longrightarrow> db_ok d \<Longrightarrow> db_ok d'"
  by (auto simp: delete_tag_sql_def intro!: custom_tags_db_ok distinct_map_filter)
    (auto simp: db_ok_def schema_ok_def)

lemma rename_tag_sql_db_ok:
  assumes "rename_tag_sql E name i u d = Inr (x, d')" and ok: "db_ok d"
  shows "db_ok d'"
proof -
  obtain tid uid where d': "d' = d\<lparr>custom_tag := update_where (\<lambda>r. ct_tag_id r = tid \<and> ct_user_id r = uid)
        (\<lambda>r. r\<lparr>ct_name := name\<rparr>) (custom_tag d)\<rparr>"
    and free: "list_ex (\<lambda>r. ct_tag_id r = tid \<and> ct_user_id r = uid) (custom_tag d) \<Longrightarrow>
      \<not> list_ex (\<lambda>r. \<not> (ct_tag_id r = tid \<and> ct_user_id r = uid) \<and> ct_name r = name \<and> ct_user_id r = uid) (custom_tag d)"
    using assms(1) by (auto simp: rename_tag_sql_def Let_def split: if_splits)
  let ?g = "\<lambda>r. if ct_tag_id r = tid \<and> ct_user_id r = uid then r\<lparr>ct_name := name\<rparr> else r"
  let ?key = "\<lambda>r. (ct_name r, ct_user_id r)"
  have dist: "distinct (map ct_tag_id (custom_tag d))" "distinct (map ?key (custom_tag d))"
    using ok by (auto simp: db_ok_def schema_ok_def)
  have "inj_on (?key \<circ> ?g) (set (custom_tag d))"
  proof (rule inj_onI)
    fix a b assume ab: "a \<in> set (custom_tag d)" "b \<in> set (custom_tag d)" "(?key \<circ> ?g) a = (?key \<circ> ?g) b"
    have id: "ct_tag_id a = ct_tag_id b \<Longrightarrow> a = b" and key: "?key a = ?key b \<Longrightarrow> a = b"
      using dist ab(1,2) by (auto simp: distinct_map inj_on_def)
    show "a = b"
      using ab free id key by (auto simp: list_ex_iff split: if_splits)
  qed
  then have "distinct (map (?key \<circ> ?g) (custom_tag d))"
    using dist(1) by (simp add: distinct_map)
  then have keys: "distinct (map ?key (map ?g (custom_tag d)))" by simp
  have "map ct_tag_id (map ?g (custom_tag d)) = map ct_tag_id (custom_tag d)" by simp
  then have ids: "distinct (map ct_tag_id (map ?g (custom_tag d)))" using dist(1) by metis
  have up: "update_where (\<lambda>r. ct_tag_id r = tid \<and> ct_user_id r = uid) (\<lambda>r. r\<lparr>ct_name := name\<rparr>) (custom_tag d)
      = map ?g (custom_tag d)" by (simp add: update_where_def)
  show ?thesis unfolding d' up by (rule custom_tags_db_ok [OF ok ids keys])
qed

lemma tag_reply_state [simp]: "snd (tag_reply e w S jobs) = (S, jobs)"
  by (simp add: tag_reply_def)

text \<open>
  A relation every statement on \<open>custom_tag\<close> respects is respected by every operation and every
  handler that runs them.
\<close>

context store_rel
begin

lemma keeps_at: "keeps f \<Longrightarrow> store s1 = store s \<Longrightarrow> R (store s) (store (snd (f s1)))"
  by (metis keeps_def)

lemma CreateTags_keeps:
  assumes "\<And>n d x d'. create_tag_sql E n (tg_Name t) u d = Inr (x, d') \<Longrightarrow> R d d'"
  shows "keeps (tagrepo_CreateTags E t u)"
  unfolding tagrepo_CreateTags_def by (intro fresh_id wrap run assms)

lemma FindTagByID_store: "tagrepo_FindTagByID E i s = (r, s') \<Longrightarrow> store s' = store s"
  by (auto simp: tagrepo_FindTagByID_def dest: pg_query_store)

lemma UpdateTags_keeps:
  assumes "\<And>d x d'. rename_tag_sql E name i u d = Inr (x, d') \<Longrightarrow> R d d'"
  shows "keeps (tagrepo_UpdateTags E i name u)" "keeps (tagsvc_UpdateTags E i name u)"
proof -
  have sql: "keeps (pg_run (rename_tag_sql E name i u))" by (rule run) (rule assms)
  show repo: "keeps (tagrepo_UpdateTags E i name u)"
  proof (rule keepsI)
    fix s r s' assume step: "tagrepo_UpdateTags E i name u s = (r, s')"
    obtain q s1 where q: "pg_query (other_tag_sql E name i u) s = (q, s1)" by force
    then have "store s1 = store s" by (auto dest: pg_query_store)
    moreover have "store s' = store s \<or> s' = s1 \<or> s' = snd (pg_run (rename_tag_sql E name i u) s1)"
      using step q
      by (auto simp: tagrepo_UpdateTags_def wrap_err_def split: if_splits sum.splits prod.splits)
    ultimately show "R (store s) (store s')"
      using keeps_at [OF sql, of s1 s] by (auto simp: R_refl)
  qed
  show "keeps (tagsvc_UpdateTags E i name u)"
  proof (rule keepsI)
    fix s r s' assume step: "tagsvc_UpdateTags E i name u s = (r, s')"
    obtain q s1 where q: "tagrepo_FindTagByID E i s = (q, s1)" by force
    then have "s' = s1 \<or> s' = snd (tagrepo_UpdateTags E i name u s1)"
      using step by (auto simp: tagsvc_UpdateTags_def wrap_err_def split: if_splits sum.splits prod.splits)
    then show "R (store s) (store s')"
      using FindTagByID_store [OF q] keeps_at [OF repo, of s1 s] by (auto simp: R_refl)
  qed
qed

lemma DeleteTags_keeps:
  assumes "\<And>d x d'. delete_tag_sql E i u d = Inr (x, d') \<Longrightarrow> R d d'"
  shows "keeps (tagrepo_DeleteTags E i u)" "keeps (tagsvc_DeleteTags E i u)"
proof -
  show repo: "keeps (tagrepo_DeleteTags E i u)"
    unfolding tagrepo_DeleteTags_def by (intro cond ret wrap run assms)
  show "keeps (tagsvc_DeleteTags E i u)"
  proof (rule keepsI)
    fix s r s' assume step: "tagsvc_DeleteTags E i u s = (r, s')"
    obtain q s1 where q: "tagrepo_FindTagByID E i s = (q, s1)" by force
    then have "s' = s1 \<or> s' = snd (tagrepo_DeleteTags E i u s1)"
      using step by (auto simp: tagsvc_DeleteTags_def split: if_splits)
    then show "R (store s) (store s')"
      using FindTagByID_store [OF q] keeps_at [OF repo, of s1 s] by (auto simp: R_refl)
  qed
qed

lemma tag_reads_keep: "keeps (tagrepo_FindAllByUser E u)" "keeps (tagrepo_FindOneTags E i u)"
  unfolding tagrepo_FindAllByUser_def tagrepo_FindOneTags_def
  subgoal by (intro bind ret query)
  subgoal
    by (rule keepsI) (auto simp: R_refl split: prod.splits sum.splits if_splits dest!: pg_query_store)
  done

definition tag_keeps :: "(tag_doc writer \<Rightarrow> 'r tag_state \<Rightarrow> 'r tag_reply) \<Rightarrow> bool" where
  "tag_keeps h \<longleftrightarrow> (\<forall>w S jobs. R (app_db S) (app_db (fst (snd (h w (S, jobs))))))"

lemma tag_writers_keep:
  assumes "\<And>n name d x d'. create_tag_sql E n name (rq_param r ''userId'') d = Inr (x, d') \<Longrightarrow> R d d'"
    and "\<And>i name d x d'. rename_tag_sql E name i (rq_param r ''userId'') d = Inr (x, d') \<Longrightarrow> R d d'"
  shows "tag_keeps (th_CreateTag E r)" "tag_keeps (th_UpdateTag E r)"
  unfolding tag_keeps_def
  by (intro allI, auto simp: R_refl th_CreateTag_def th_UpdateTag_def Let_def
      split: prod.split sum.split option.split list.split
      dest!: on_pg_keeps [OF _ CreateTags_keeps] on_pg_keeps [OF _ UpdateTags_keeps(2)]
      intro: assms)+

lemma tag_delete_keeps:
  assumes "\<And>i d x d'. delete_tag_sql E i (rq_param q ''userId'') d = Inr (x, d') \<Longrightarrow> R d d'"
  shows "tag_keeps (th_Delete E q)"
  unfolding tag_keeps_def
  by (intro allI, auto simp: R_refl th_Delete_def Let_def split: prod.split sum.split
      dest!: on_pg_keeps [OF _ DeleteTags_keeps(2)] intro: assms)

lemma tag_readers_keep: "tag_keeps (th_GetList Rd E p)" "tag_keeps (th_FindOne Rd E p)"
  unfolding tag_keeps_def
  by (intro allI, auto simp: R_refl th_GetList_def th_FindOne_def Let_def
      split: prod.split sum.split option.split list.split
      dest!: on_redis_db tag_reads_keep [THEN [2] on_pg_keeps])+

end

text \<open>The contract of the port \<open>Repository\<close> (\<open>tags/storage/storage.go\<close>) towards the tables.\<close>

locale tag_repository = store_rel +
  assumes create_tag: "create_tag_sql E n name u d = Inr (i, d') \<Longrightarrow> R d d'"
    and rename_tag: "rename_tag_sql E name i u d = Inr (x, d') \<Longrightarrow> R d d'"
    and delete_tag: "delete_tag_sql E i u d = Inr (x, d') \<Longrightarrow> R d d'"
begin

lemma keeps_tag_handlers:
  "tag_keeps (th_CreateTag E r)" "tag_keeps (th_UpdateTag E r)" "tag_keeps (th_Delete E q)"
  "tag_keeps (th_GetList Rd E p)" "tag_keeps (th_FindOne Rd E p)"
  by (rule tag_writers_keep tag_delete_keeps tag_readers_keep;
      use create_tag rename_tag delete_tag in blast)+

end

interpretation db_inv: tag_repository "\<lambda>d d'. db_ok d \<longrightarrow> db_ok d'"
  by unfold_locales (use create_tag_sql_db_ok rename_tag_sql_db_ok delete_tag_sql_db_ok in \<open>blast\<close>)+

section \<open>Whose tags a request can touch\<close>

text \<open>Only \<open>custom_tag\<close> may change, and only in the rows of one user.\<close>

definition tag_frame :: "string option \<Rightarrow> db \<Rightarrow> db \<Rightarrow> bool" where
  "tag_frame uid d d' \<longleftrightarrow>
     (\<exists>cs. d' = d\<lparr>custom_tag := cs\<rparr>
        \<and> filter (\<lambda>r. Some (ct_user_id r) \<noteq> uid) cs = filter (\<lambda>r. Some (ct_user_id r) \<noteq> uid) (custom_tag d))"

lemma tag_frame_refl: "tag_frame uid d d"
  unfolding tag_frame_def by (intro exI [of _ "custom_tag d"]) simp

interpretation owner: store_rel "tag_frame uid" for uid
proof
  show "tag_frame uid d d" for d by (rule tag_frame_refl)
  show "tag_frame uid a b \<Longrightarrow> tag_frame uid b c \<Longrightarrow> tag_frame uid a c" for a b c
    unfolding tag_frame_def by fastforce
qed

lemma filter_update_other:
  assumes "\<And>x. P x \<Longrightarrow> \<not> Q x \<and> \<not> Q (f x)"
  shows "filter Q (update_where P f t) = filter Q t"
  using assms by (induction t) auto

lemma filter_filter_other: "(\<And>x. Q x \<Longrightarrow> P x) \<Longrightarrow> filter Q (filter P t) = filter Q t"
  by (induction t) auto

lemma tag_statements_frame:
  "create_tag_sql E n name u d = Inr (x, d') \<Longrightarrow> tag_frame (pg_uuid E u) d d'"
  "rename_tag_sql E name i u d = Inr (y, d') \<Longrightarrow> tag_frame (pg_uuid E u) d d'"
  "delete_tag_sql E i u d = Inr (y, d') \<Longrightarrow> tag_frame (pg_uuid E u) d d'"
  supply filter_filter [simp del]
  subgoal
    by (auto simp: create_tag_sql_def ins_custom_tag_def tag_frame_def uuid_arg_Inr_iff split: if_splits
        intro!: exI [of _ "custom_tag d @ _"])
  subgoal
    by (auto simp: rename_tag_sql_def Let_def tag_frame_def uuid_arg_Inr_iff split: if_splits
        intro!: exI [of _ "update_where _ _ (custom_tag d)"] filter_update_other)
  subgoal
    by (auto simp: delete_tag_sql_def tag_frame_def)
      (rule exI, rule conjI [OF refl], rule filter_filter_other, simp)
  done

lemma tag_handlers_frame:
  "owner.tag_keeps (pg_uuid E (rq_param r ''userId'')) (th_CreateTag E r)"
  "owner.tag_keeps (pg_uuid E (rq_param r ''userId'')) (th_UpdateTag E r)"
  "owner.tag_keeps (pg_uuid E (rq_param q ''userId'')) (th_Delete E q)"
  "owner.tag_keeps uid (th_GetList Rd E p)" "owner.tag_keeps uid (th_FindOne Rd E p)"
  by (rule owner.tag_writers_keep owner.tag_delete_keeps owner.tag_readers_keep;
      erule tag_statements_frame)+

end
