(* ===== verification/Routes.thy ===== *)
theory Routes
  imports SharedHandlers Tags
begin

text \<open>
  The routes: \<open>Register\<close> of the three handler packages, which wrap every handler into its
  middlewares, and what the router promises about a request it hands to a route.
\<close>

section \<open>What the router promises\<close>

text \<open>
  \<open>httprouter\<close> is a library. Of its documentation the handlers rely on this: a request
  reaches the route of its method whose pattern fits the path segment by segment; a segment
  \<open>:name\<close> of the pattern stands for one segment, which may be empty unless it is the last;
  \<open>ByName\<close> gives its text, and the empty text for a name the pattern does not have.
\<close>

fun match_path :: "string list \<Rightarrow> string list \<Rightarrow> (string \<times> string) list option" where
  "match_path [] [] = Some []"
| "match_path (p # ps) (x # xs) =
     (case p of
        c # name \<Rightarrow>
          if c = CHR '':''
          then (if x = [] \<and> xs = [] then None else map_option (\<lambda>l. (name, x) # l) (match_path ps xs))
          else if p = x then match_path ps xs else None
      | [] \<Rightarrow> if x = [] then match_path ps xs else None)"
| "match_path _ _ = None"

text \<open>The parts of a request the router and the signature look at.\<close>

definition head :: "'b request \<Rightarrow> unit request" where
  "head r = \<lparr>rq_method = rq_method r, rq_path = rq_path r, rq_header = rq_header r,
     rq_param = rq_param r, rq_query = rq_query r, rq_read = rq_read r, rq_json = Inr ()\<rparr>"

definition routed :: "string \<times> string \<Rightarrow> unit request \<Rightarrow> bool" where
  "routed route r \<longleftrightarrow>
     rq_method r = fst route \<and>
     (case match_path (strings_Split CHR ''/'' (snd route)) (strings_Split CHR ''/'' (rq_path r)) of
        None \<Rightarrow> False
      | Some ps \<Rightarrow> rq_param r = (\<lambda>k. case map_of ps k of None \<Rightarrow> [] | Some v \<Rightarrow> v))"

section \<open>Middlewares\<close>

text \<open>
  What \<open>main\<close> configures: the two servers, the secret, and which of the optional parts there
  are. Every \<open>resilience\<close> middleware has a limiter of its own and all share one breaker.
\<close>

record ('g, 'r) config =
  cf_redis :: "'r redis"
  cf_engine :: engine
  cf_guard :: "string \<times> string \<Rightarrow> 'g guard"
  cf_mac :: "string \<Rightarrow> string \<Rightarrow> string"
  cf_secret :: string
  cf_subs :: bool
  cf_msgs :: bool
  cf_ws :: bool

definition signed ::
    "('g, 'r) config \<Rightarrow> env \<Rightarrow> 'b request \<Rightarrow> ('j, 's) http_handler \<Rightarrow> ('j, 's) http_handler" where
  "signed C E r h = signature_Middleware (cf_mac C) (cf_secret C) (now E) r h"

text \<open>A handler that does not pass the breaker.\<close>

definition direct :: "('j, 's) http_handler \<Rightarrow> ('j, 'g \<times> 's) http_handler" where
  "direct h w gs = (case gs of (g, s) \<Rightarrow> (case h w s of (x, s) \<Rightarrow> (x, g, s)))"

definition list_options ::
    "'b request \<Rightarrow> (filter_option \<Rightarrow> sort_options \<Rightarrow> ('j, 's) http_handler) \<Rightarrow> ('j, 's) http_handler" where
  "list_options r h w s =
     (case sort_MiddleWare ''due_date'' ASC (rq_query r) of
        Inl code \<Rightarrow> (Ret (http_Error ''bad sort order'' code w), s)
      | Inr so \<Rightarrow> h \<lparr>fo_Fields = filter_Middleware (rq_query r), fo_Limit = 0\<rparr> so w s)"

section \<open>Tasks\<close>

datatype task_call =
    PostTasks "create_wire request"
  | PostUserTasks "create_wire request"
  | PatchTask "update_wire request"
  | GetTask "unit request"
  | GetTasks "unit request"
  | GetUserTasks "unit request"
  | DeleteTask "unit request"
  | GetTagTasks "unit request"
  | PostSync "sync_request request"
  | PostSubtasks "string request"
  | PatchSubtask "unit request"
  | PutSubtask "string request"
  | DeleteSubtask "unit request"
  | GetAdminTasks "unit request"
  | DeleteAdminTask "unit request"
  | DeleteAdminShared "unit request"
  | RestoreAdminTask "unit request"
  | RestoreAdminShared "unit request"
  | AcknowledgeTask "unit request"
  | AcknowledgeShared "unit request"

definition tasksURL :: string where "tasksURL = ''/tasks''"
definition taskURL :: string where "taskURL = ''/tasks/:uuid''"
definition tasksByTags :: string where "tasksByTags = ''/v1/users/:userId/tags/:tagsId/tasks''"
definition tasksByUser :: string where "tasksByUser = ''/v1/users/:userId/tasks''"
definition taskSubtasksURL :: string where "taskSubtasksURL = ''/v1/users/:userId/tasks/:uuid/subtasks''"
definition taskSubtaskURL :: string where "taskSubtaskURL = ''/v1/users/:userId/tasks/:uuid/subtasks/:sid''"
definition subURL :: string where "subURL = ''/internal/subscriptions/sync''"
definition adminTasksURL :: string where "adminTasksURL = ''/admin/tasks''"

fun task_route :: "task_call \<Rightarrow> string \<times> string" where
  "task_route (PostTasks r) = (''POST'', tasksURL)"
| "task_route (PostUserTasks r) = (''POST'', tasksByUser)"
| "task_route (PatchTask r) = (''PATCH'', taskURL)"
| "task_route (GetTask r) = (''GET'', taskURL)"
| "task_route (GetTasks r) = (''GET'', tasksURL)"
| "task_route (GetUserTasks r) = (''GET'', tasksByUser)"
| "task_route (DeleteTask r) = (''DELETE'', taskURL)"
| "task_route (GetTagTasks r) = (''GET'', tasksByTags)"
| "task_route (PostSync r) = (''POST'', subURL)"
| "task_route (PostSubtasks r) = (''POST'', taskSubtasksURL)"
| "task_route (PatchSubtask r) = (''PATCH'', taskSubtaskURL)"
| "task_route (PutSubtask r) = (''PUT'', taskSubtaskURL)"
| "task_route (DeleteSubtask r) = (''DELETE'', taskSubtaskURL)"
| "task_route (GetAdminTasks r) = (''GET'', adminTasksURL)"
| "task_route (DeleteAdminTask r) = (''DELETE'', ''/admin/tasks/:uuid'')"
| "task_route (DeleteAdminShared r) = (''DELETE'', ''/admin/shared-tasks/:uuid'')"
| "task_route (RestoreAdminTask r) = (''PATCH'', ''/admin/tasks/:uuid/restore'')"
| "task_route (RestoreAdminShared r) = (''PATCH'', ''/admin/shared-tasks/:uuid/restore'')"
| "task_route (AcknowledgeTask r) =
     (''POST'', ''/v1/users/:userId/tasks/:uuid/acknowledge-admin-deletion'')"
| "task_route (AcknowledgeShared r) =
     (''POST'', ''/v1/users/:userId/shared-tasks/:stid/acknowledge-admin-deletion'')"

fun task_head :: "task_call \<Rightarrow> unit request" where
  "task_head (PostTasks r) = head r"
| "task_head (PostUserTasks r) = head r"
| "task_head (PatchTask r) = head r"
| "task_head (PostSync r) = head r"
| "task_head (PostSubtasks r) = head r"
| "task_head (PutSubtask r) = head r"
| "task_head (GetTask r) = head r"
| "task_head (GetTasks r) = head r"
| "task_head (GetUserTasks r) = head r"
| "task_head (DeleteTask r) = head r"
| "task_head (GetTagTasks r) = head r"
| "task_head (PatchSubtask r) = head r"
| "task_head (DeleteSubtask r) = head r"
| "task_head (GetAdminTasks r) = head r"
| "task_head (DeleteAdminTask r) = head r"
| "task_head (DeleteAdminShared r) = head r"
| "task_head (RestoreAdminTask r) = head r"
| "task_head (RestoreAdminShared r) = head r"
| "task_head (AcknowledgeTask r) = head r"
| "task_head (AcknowledgeShared r) = head r"

text \<open>\<open>behind C E c r h\<close>, \<open>reading\<close> and \<open>writing\<close> are the three ways \<open>Register\<close> wraps a handler.\<close>

definition behind ::
    "('g, 'r) config \<Rightarrow> env \<Rightarrow> 'b request \<Rightarrow> ('j writer \<Rightarrow> 'r app \<Rightarrow> ('j, 'r) reply)
      \<Rightarrow> ('j, 'g \<times> 'r app) http_handler" where
  "behind C E r h = signed C E r (direct (apperror_Middleware h))"

definition reading ::
    "('g, 'r) config \<Rightarrow> env \<Rightarrow> string \<times> string \<Rightarrow> 'b request \<Rightarrow> ('j, 'r app) http_handler
      \<Rightarrow> ('j, 'g \<times> 'r app) http_handler" where
  "reading C E route r h = signed C E r (resilience_Middleware (cf_guard C route) h)"

definition writing ::
    "('g, 'r) config \<Rightarrow> env \<Rightarrow> string \<times> string \<Rightarrow> 'b request \<Rightarrow> ('j writer \<Rightarrow> 'r app \<Rightarrow> ('j, 'r) reply)
      \<Rightarrow> ('j, 'g \<times> 'r app) http_handler" where
  "writing C E route r h =
     signed C E r (resilience_WriteMiddleware (cf_guard C route) (apperror_Middleware h))"

fun task_Register :: "('g, 'r) config \<Rightarrow> env \<Rightarrow> task_call \<Rightarrow> (task_doc, 'g \<times> 'r app) http_handler" where
  "task_Register C E (PostTasks r) =
     writing C E (task_route (PostTasks r)) r (h_Create (cf_redis C) E r)"
| "task_Register C E (PostUserTasks r) =
     writing C E (task_route (PostUserTasks r)) r (h_Create (cf_redis C) E r)"
| "task_Register C E (PatchTask r) =
     writing C E (task_route (PatchTask r)) r (h_Update (cf_redis C) E r)"
| "task_Register C E (GetTask r) =
     reading C E (task_route (GetTask r)) r (apperror_Middleware (h_FindOne (cf_redis C) E r))"
| "task_Register C E (GetTasks r) =
     reading C E (task_route (GetTasks r)) r (list_options r (\<lambda>fo so.
       apperror_Middleware (h_GetList (cf_redis C) E (cf_engine C) fo so r)))"
| "task_Register C E (GetUserTasks r) =
     reading C E (task_route (GetUserTasks r)) r (list_options r (\<lambda>fo so.
       apperror_Middleware (h_GetList (cf_redis C) E (cf_engine C) fo so r)))"
| "task_Register C E (DeleteTask r) = behind C E r (h_Delete (cf_redis C) E r)"
| "task_Register C E (GetTagTasks r) =
     reading C E (task_route (GetTagTasks r)) r (list_options r (\<lambda>fo so.
       apperror_Middleware (h_GetListByTag (cf_redis C) E fo so r)))"
| "task_Register C E (PostSync r) = behind C E r (h_SyncSubscription E r)"
| "task_Register C E (PostSubtasks r) = behind C E r (h_AddSubtask E r)"
| "task_Register C E (PatchSubtask r) = behind C E r (h_ToggleTaskSubtask E r)"
| "task_Register C E (PutSubtask r) = behind C E r (h_UpdateTaskSubtask E r)"
| "task_Register C E (DeleteSubtask r) = behind C E r (h_DeleteTaskSubtask E r)"
| "task_Register C E (GetAdminTasks r) = behind C E r (h_AdminGetAllTasks E r)"
| "task_Register C E (DeleteAdminTask r) =
     behind C E r (h_AdminDeleteTask (cf_redis C) E (cf_ws C) r)"
| "task_Register C E (DeleteAdminShared r) =
     behind C E r (h_AdminDeleteSharedTask (cf_redis C) E (cf_ws C) r)"
| "task_Register C E (RestoreAdminTask r) =
     behind C E r (h_AdminRestoreTask (cf_redis C) E (cf_ws C) r)"
| "task_Register C E (RestoreAdminShared r) =
     behind C E r (h_AdminRestoreSharedTask (cf_redis C) E (cf_ws C) r)"
| "task_Register C E (AcknowledgeTask r) =
     behind C E r (h_AcknowledgeAdminDeletion (cf_redis C) E r)"
| "task_Register C E (AcknowledgeShared r) =
     behind C E r (h_AcknowledgeAdminDeletionShared (cf_redis C) E r)"

section \<open>Shared tasks\<close>

datatype shared_call =
    GetShareds "unit request"
  | PostShared "propose_body request"
  | GetShared "unit request"
  | PatchShared "update_input request"
  | DeleteShared "unit request"
  | AcceptShared "unit request"
  | RejectShared "unit request"
  | PatchSharedSubtask "unit request"
  | GetAdminShareds "unit request"

definition sharedTasksURL :: string where
  "sharedTasksURL = ''/v1/users/:userId/shared-tasks''"
definition sharedTaskDetailURL :: string where
  "sharedTaskDetailURL = ''/v1/users/:userId/shared-tasks/:stid''"
definition sharedTaskAcceptURL :: string where
  "sharedTaskAcceptURL = ''/v1/users/:userId/shared-tasks/:stid/accept''"
definition sharedTaskRejectURL :: string where
  "sharedTaskRejectURL = ''/v1/users/:userId/shared-tasks/:stid/reject''"
definition sharedSubtaskDoneURL :: string where
  "sharedSubtaskDoneURL = ''/v1/users/:userId/shared-tasks/:stid/subtasks/:sid''"
definition adminSharedTasksURL :: string where
  "adminSharedTasksURL = ''/admin/shared-tasks''"

fun shared_route :: "shared_call \<Rightarrow> string \<times> string" where
  "shared_route (GetShareds r) = (''GET'', sharedTasksURL)"
| "shared_route (PostShared r) = (''POST'', sharedTasksURL)"
| "shared_route (GetShared r) = (''GET'', sharedTaskDetailURL)"
| "shared_route (PatchShared r) = (''PATCH'', sharedTaskDetailURL)"
| "shared_route (DeleteShared r) = (''DELETE'', sharedTaskDetailURL)"
| "shared_route (AcceptShared r) = (''POST'', sharedTaskAcceptURL)"
| "shared_route (RejectShared r) = (''POST'', sharedTaskRejectURL)"
| "shared_route (PatchSharedSubtask r) = (''PATCH'', sharedSubtaskDoneURL)"
| "shared_route (GetAdminShareds r) = (''GET'', adminSharedTasksURL)"

fun shared_head :: "shared_call \<Rightarrow> unit request" where
  "shared_head (GetShareds r) = head r"
| "shared_head (PostShared r) = head r"
| "shared_head (GetShared r) = head r"
| "shared_head (PatchShared r) = head r"
| "shared_head (DeleteShared r) = head r"
| "shared_head (AcceptShared r) = head r"
| "shared_head (RejectShared r) = head r"
| "shared_head (PatchSharedSubtask r) = head r"
| "shared_head (GetAdminShareds r) = head r"

fun shared_Register :: "('g, 'r) config \<Rightarrow> env \<Rightarrow> shared_call \<Rightarrow> (shared_doc, 'g \<times> 'r app) http_handler" where
  "shared_Register C E (GetShareds r) = behind C E r (sh_GetList E r)"
| "shared_Register C E (PostShared r) = behind C E r (sh_Propose E (cf_subs C) r)"
| "shared_Register C E (GetShared r) = behind C E r (sh_GetByID E r)"
| "shared_Register C E (PatchShared r) = behind C E r (sh_Update E (cf_msgs C) r)"
| "shared_Register C E (DeleteShared r) = behind C E r (sh_Delete E (cf_msgs C) r)"
| "shared_Register C E (AcceptShared r) = behind C E r (sh_Accept E r)"
| "shared_Register C E (RejectShared r) = behind C E r (sh_Reject E r)"
| "shared_Register C E (PatchSharedSubtask r) = behind C E r (sh_ToggleSubtaskDone E r)"
| "shared_Register C E (GetAdminShareds r) = behind C E r (sh_AdminGetAllSharedTasks E r)"

section \<open>Tags\<close>

text \<open>No signature, no breaker.\<close>

datatype tag_call =
    PostTags "string request"
  | PatchTag "string request"
  | GetTag "unit request"
  | GetTags "unit request"
  | DeleteTag "unit request"

definition tagURL :: string where "tagURL = ''/v1/users/:userId/tags/:tagsId''"
definition tagsByUserURL :: string where "tagsByUserURL = ''/v1/users/:userId/tags''"

fun tag_route :: "tag_call \<Rightarrow> string \<times> string" where
  "tag_route (PostTags r) = (''POST'', tagsByUserURL)"
| "tag_route (PatchTag r) = (''PATCH'', tagURL)"
| "tag_route (GetTag r) = (''GET'', tagURL)"
| "tag_route (GetTags r) = (''GET'', tagsByUserURL)"
| "tag_route (DeleteTag r) = (''DELETE'', tagURL)"

fun tag_head :: "tag_call \<Rightarrow> unit request" where
  "tag_head (PostTags r) = head r"
| "tag_head (PatchTag r) = head r"
| "tag_head (GetTag r) = head r"
| "tag_head (GetTags r) = head r"
| "tag_head (DeleteTag r) = head r"

fun tag_Register :: "('g, 'r) config \<Rightarrow> env \<Rightarrow> tag_call \<Rightarrow> (tag_doc, 'r tag_state) http_handler" where
  "tag_Register C E (PostTags r) = apperror_Middleware (th_CreateTag E r)"
| "tag_Register C E (PatchTag r) = apperror_Middleware (th_UpdateTag E r)"
| "tag_Register C E (GetTag r) = apperror_Middleware (th_FindOne (cf_redis C) E r)"
| "tag_Register C E (GetTags r) = apperror_Middleware (th_GetList (cf_redis C) E r)"
| "tag_Register C E (DeleteTag r) = apperror_Middleware (th_Delete E r)"

section \<open>Who may call what\<close>

lemma Split_append_prefix:
  "c \<notin> set q \<Longrightarrow> \<exists>x xs. strings_Split c (q @ t) = (q @ x) # xs"
proof (induction q)
  case Nil
  then show ?case by (cases "strings_Split c t") auto
next
  case (Cons a q)
  then obtain x xs where "strings_Split c (q @ t) = (q @ x) # xs" by auto
  with Cons.prems show ?case by auto
qed

lemma match_path_static:
  assumes "match_path ([] # seg # ps) xs = Some l" and "seg = c # name" and "c \<noteq> CHR '':''"
  shows "\<exists>ys. xs = [] # seg # ys"
  using assms by (cases xs; cases "tl xs") (auto split: if_splits)

lemma public_shape:
  assumes "route \<in> set publicRoutes"
  shows "\<exists>q. route = CHR ''/'' # q \<and> CHR ''/'' \<notin> set q
    \<and> (\<forall>seg \<in> {''tasks'', ''v1'', ''internal'', ''admin''}. \<not> prefix q seg)"
  using assms by (simp add: publicRoutes_def) (elim disjE; simp)

fun param_names :: "string list \<Rightarrow> string list" where
  "param_names [] = []"
| "param_names ((c # name) # ps) = (if c = CHR '':'' then name # param_names ps else param_names ps)"
| "param_names ([] # ps) = param_names ps"

lemma match_path_names: "match_path ps xs = Some l \<Longrightarrow> map fst l = param_names ps"
proof (induction ps arbitrary: xs l)
  case Nil
  then show ?case by (cases xs) auto
next
  case (Cons p ps)
  obtain x ys where "xs = x # ys" using Cons.prems by (cases xs) auto
  with Cons show ?case by (cases p) (auto split: if_splits)
qed

text \<open>No path of a route that starts with one of these words is public.\<close>

lemma routed_not_public:
  assumes "routed route r" and "strings_Split CHR ''/'' (snd route) = [] # seg # ps"
    and "seg \<in> {''tasks'', ''v1'', ''internal'', ''admin''}"
  shows "\<not> isPublicRoute (rq_path r)"
proof
  assume "isPublicRoute (rq_path r)"
  then obtain route where route: "route \<in> set publicRoutes" "prefix route (rq_path r)"
    unfolding isPublicRoute_def list_ex_iff strings_HasPrefix_def by blast
  then obtain q where q: "route = CHR ''/'' # q" "CHR ''/'' \<notin> set q"
    "\<forall>seg \<in> {''tasks'', ''v1'', ''internal'', ''admin''}. \<not> prefix q seg"
    using public_shape by blast
  obtain ys where ys: "strings_Split CHR ''/'' (rq_path r) = [] # seg # ys"
    using assms match_path_static [of seg ps "strings_Split CHR ''/'' (rq_path r)"]
    by (auto simp: routed_def split: option.splits)
  from route(2) q(1) obtain t where "rq_path r = CHR ''/'' # q @ t" by (auto simp: prefix_def)
  with Split_append_prefix [OF q(2), of t] ys have "prefix q seg" by auto
  with q(3) assms(3) show False by blast
qed

lemma head_simps [simp]:
  "rq_method (head r) = rq_method r" "rq_path (head r) = rq_path r" "rq_header (head r) = rq_header r"
  "rq_param (head r) = rq_param r" "rq_query (head r) = rq_query r" "rq_read (head r) = rq_read r"
  by (simp_all add: head_def)

lemma dataToSign_head [simp]: "dataToSign (head r) = dataToSign r"
  by (simp add: dataToSign_def)

lemma signed_ok_head [simp]: "signed_ok mac secret nw (head r) = signed_ok mac secret nw r"
  by (simp add: signed_ok_def)

lemmas URL_defs = tasksURL_def taskURL_def tasksByTags_def tasksByUser_def taskSubtasksURL_def
  taskSubtaskURL_def subURL_def adminTasksURL_def sharedTasksURL_def sharedTaskDetailURL_def
  sharedTaskAcceptURL_def sharedTaskRejectURL_def sharedSubtaskDoneURL_def adminSharedTasksURL_def
  tagURL_def tagsByUserURL_def

lemma task_route_segments:
  "\<exists>seg ps. strings_Split CHR ''/'' (snd (task_route c)) = [] # seg # ps
     \<and> seg \<in> {''tasks'', ''v1'', ''internal'', ''admin''}"
  by (cases c) (simp_all add: URL_defs)

lemma shared_route_segments:
  "\<exists>seg ps. strings_Split CHR ''/'' (snd (shared_route c)) = [] # seg # ps
     \<and> seg \<in> {''tasks'', ''v1'', ''internal'', ''admin''}"
  by (cases c) (simp_all add: URL_defs)

lemma signed_refuses:
  assumes "\<not> isPublicRoute (rq_path r)" and "\<not> signed_ok (cf_mac C) (cf_secret C) (now E) r"
  shows "\<exists>msg. signed C E r h w s = (Ret (http_Error msg 401 w), s)"
  unfolding signed_def by (rule signature_Middleware_cases(2) [OF assms])

lemma signed_passes:
  assumes "\<not> isPublicRoute (rq_path r)" and "signed_ok (cf_mac C) (cf_secret C) (now E) r"
  shows "signed C E r h w s = h w s"
  unfolding signed_def by (rule signature_Middleware_cases(1) [OF assms])

lemmas wrap_defs = behind_def reading_def writing_def

lemma task_unsigned:
  assumes "\<not> isPublicRoute (rq_path (task_head c))"
    and "\<not> signed_ok (cf_mac C) (cf_secret C) (now E) (task_head c)"
  shows "\<exists>msg. task_Register C E c w S = (Ret (http_Error msg 401 w), S)"
  using assms by (cases c) (simp_all add: wrap_defs signed_refuses)

lemma shared_unsigned:
  assumes "\<not> isPublicRoute (rq_path (shared_head c))"
    and "\<not> signed_ok (cf_mac C) (cf_secret C) (now E) (shared_head c)"
  shows "\<exists>msg. shared_Register C E c w S = (Ret (http_Error msg 401 w), S)"
  using assms by (cases c) (simp_all add: wrap_defs signed_refuses)

text \<open>C6: every route of tasks and of shared tasks demands a signature. A request the router
  gives to one of them without a valid signature of the gateway is answered 401, and neither
  the tables, the cache, the queues nor the breaker change. No route of tags has this
  protection: it answers the same with any headers.\<close>

theorem unsigned_changes_nothing:
  "(routed (task_route c) (task_head c)
      \<and> \<not> signed_ok (cf_mac C) (cf_secret C) (now E) (task_head c) \<longrightarrow>
      (\<exists>msg. task_Register C E c w S = (Ret (http_Error msg 401 w), S)))
    \<and> (routed (shared_route d) (shared_head d)
      \<and> \<not> signed_ok (cf_mac C) (cf_secret C) (now E) (shared_head d) \<longrightarrow>
      (\<exists>msg. shared_Register C E d v S = (Ret (http_Error msg 401 v), S)))
    \<and> tag_Register C E (PostTags (r\<lparr>rq_header := h\<rparr>)) = tag_Register C E (PostTags r)
    \<and> tag_Register C E (PatchTag (r\<lparr>rq_header := h\<rparr>)) = tag_Register C E (PatchTag r)
    \<and> tag_Register C E (DeleteTag (q\<lparr>rq_header := h\<rparr>)) = tag_Register C E (DeleteTag q)
    \<and> tag_Register C E (GetTag (q\<lparr>rq_header := h\<rparr>)) = tag_Register C E (GetTag q)
    \<and> tag_Register C E (GetTags (q\<lparr>rq_header := h\<rparr>)) = tag_Register C E (GetTags q)"
proof (intro conjI impI)
  assume c: "routed (task_route c) (task_head c)
      \<and> \<not> signed_ok (cf_mac C) (cf_secret C) (now E) (task_head c)"
  obtain seg ps where "strings_Split CHR ''/'' (snd (task_route c)) = [] # seg # ps"
      "seg \<in> {''tasks'', ''v1'', ''internal'', ''admin''}"
    using task_route_segments by blast
  with c have "\<not> isPublicRoute (rq_path (task_head c))" by (intro routed_not_public) auto
  then show "\<exists>msg. task_Register C E c w S = (Ret (http_Error msg 401 w), S)"
    using c by (intro task_unsigned) auto
next
  assume d: "routed (shared_route d) (shared_head d)
      \<and> \<not> signed_ok (cf_mac C) (cf_secret C) (now E) (shared_head d)"
  obtain seg ps where "strings_Split CHR ''/'' (snd (shared_route d)) = [] # seg # ps"
      "seg \<in> {''tasks'', ''v1'', ''internal'', ''admin''}"
    using shared_route_segments by blast
  with d have "\<not> isPublicRoute (rq_path (shared_head d))" by (intro routed_not_public) auto
  then show "\<exists>msg. shared_Register C E d v S = (Ret (http_Error msg 401 v), S)"
    using d by (intro shared_unsigned) auto
qed (simp_all add: th_CreateTag_def [abs_def] th_UpdateTag_def [abs_def] th_Delete_def [abs_def] th_FindOne_def [abs_def]
    th_GetList_def [abs_def] decode_def cong: if_cong)

definition bare_request :: "unit request" where
  "bare_request = \<lparr>rq_method = ''DELETE'', rq_path = ''/admin/tasks/t'', rq_header = (\<lambda>k. []),
     rq_param = (\<lambda>k. case map_of [(''uuid'', ''t'')] k of None \<Rightarrow> [] | Some v \<Rightarrow> v),
     rq_query = [], rq_read = True, rq_json = Inr ()\<rparr>"

theorem unsigned_changes_nothing_witness:
  "\<forall>C S. \<exists>msg. task_Register C sample_env (DeleteAdminTask bare_request) new_conn S
     = (Ret (http_Error msg 401 new_conn), S)"
proof (intro allI)
  fix C :: "('g, 'r) config" and S
  have "routed (task_route (DeleteAdminTask bare_request)) (task_head (DeleteAdminTask bare_request))"
    by (simp add: routed_def bare_request_def)
  moreover have "\<not> signed_ok (cf_mac C) (cf_secret C) (now sample_env) (task_head (DeleteAdminTask bare_request))"
    by (simp add: signed_ok_def bare_request_def)
  ultimately show "\<exists>msg. task_Register C sample_env (DeleteAdminTask bare_request) new_conn S
      = (Ret (http_Error msg 401 new_conn), S)"
    using unsigned_changes_nothing [of "DeleteAdminTask bare_request" C sample_env new_conn S] by blast
qed

text \<open>C20: nobody can acknowledge the administrative deletion of a shared task. The route names
  its parameter \<open>stid\<close> and the handler reads \<open>uuid\<close>, so every request the router gives to it changes
  nothing: with a valid signature it is answered 400, the answer of the handler to a missing identifier,
  whatever it says, and without one 401.\<close>

theorem shared_acknowledgement_unreachable:
  assumes "routed (task_route (AcknowledgeShared r)) (head r)"
  shows "(signed_ok (cf_mac C) (cf_secret C) (now E) r \<longrightarrow>
       task_Register C E (AcknowledgeShared r) w S
         = (Ret (http_Error ''task id and user id required'' 400 w), S))
    \<and> (\<not> signed_ok (cf_mac C) (cf_secret C) (now E) r \<longrightarrow>
       (\<exists>msg. task_Register C E (AcknowledgeShared r) w S = (Ret (http_Error msg 401 w), S)))"
proof -
  obtain seg ps where "strings_Split CHR ''/'' (snd (task_route (AcknowledgeShared r))) = [] # seg # ps"
      "seg \<in> {''tasks'', ''v1'', ''internal'', ''admin''}"
    using task_route_segments by blast
  with assms have path: "\<not> isPublicRoute (rq_path r)"
    using routed_not_public [OF assms] by simp
  obtain l where l: "match_path [[], ''v1'', ''users'', '':userId'', ''shared-tasks'', '':stid'',
      ''acknowledge-admin-deletion''] (strings_Split CHR ''/'' (rq_path r)) = Some l"
    and param: "rq_param r = (\<lambda>k. case map_of l k of None \<Rightarrow> [] | Some v \<Rightarrow> v)"
    using assms by (auto simp: routed_def split: option.splits)
  have "map fst l = [''userId'', ''stid'']" using l by (auto dest: match_path_names)
  then have "''uuid'' \<notin> set (map fst l)" by simp
  then have "map_of l ''uuid'' = None" by (simp add: map_of_eq_None_iff)
  then have uuid: "rq_param r ''uuid'' = []" by (simp add: param)
  have "task_Register C E (AcknowledgeShared r) w S = (Ret (http_Error ''task id and user id required'' 400 w), S)"
    if ok: "signed_ok (cf_mac C) (cf_secret C) (now E) r"
  proof -
    obtain g a where S: "S = (g, a)" by force
    have "h_AcknowledgeAdminDeletionShared (cf_redis C) E r w a
        = (Ret (None, http_Error ''task id and user id required'' 400 w), a)"
      by (simp add: h_AcknowledgeAdminDeletionShared_def uuid reject_def reply_def)
    then show ?thesis
      by (simp add: behind_def signed_passes [OF path ok] S direct_def apperror_Middleware_def)
  qed
  moreover have "\<exists>msg. task_Register C E (AcknowledgeShared r) w S = (Ret (http_Error msg 401 w), S)"
    if "\<not> signed_ok (cf_mac C) (cf_secret C) (now E) r"
    using signed_refuses [OF path that] unfolding task_Register.simps behind_def .
  ultimately show ?thesis by blast
qed

section \<open>What the answers of Create mean\<close>

text \<open>The task a valid request asks for.\<close>

definition asked_for :: "create_wire request \<Rightarrow> task \<Rightarrow> bool" where
  "asked_for r t \<longleftrightarrow>
     (\<exists>req i. ebind (rq_json r) CreateTaskRequest_UnmarshalJSON = Inr req
        \<and> t = dtoToEntity i (rq_header r ''X-User-ID'') req)"

definition task_written :: "env \<Rightarrow> task \<Rightarrow> db \<Rightarrow> db \<Rightarrow> bool" where
  "task_written E t d d' \<longleftrightarrow>
     (\<exists>tid uid tag oid tags n. pg_uuid E (t_ID t) = Some tid \<and> pg_uuid E (t_UserID t) = Some uid
        \<and> tag_choice E t uid d tag tags
        \<and> d' = (created E t tid uid tag oid tags d)
              \<lparr>subtasks := subtasks d @ subtask_rows E n 0 tid (t_Subtasks t)\<rparr>)"

lemma svc_CreateTask_written:
  assumes "svc_CreateTask E t s = (Inr (), s')"
  shows "task_written E t (store s) (store s')"
proof -
  obtain tid uid tag oid tags where one: "pg_uuid E (t_ID t) = Some tid" "pg_uuid E (t_UserID t) = Some uid"
    "tag_choice E t uid (store s) tag tags"
    and two: "store s' = created E t tid uid tag oid tags (store s) \<and> t_Subtasks t = []
      \<or> (\<exists>n. store s' = (created E t tid uid tag oid tags (store s))
           \<lparr>subtasks := subtasks (store s) @ subtask_rows E n 0 tid (t_Subtasks t)\<rparr>)"
    using svc_CreateTask_states [OF assms] by (elim disjE exE conjE) (blast | simp)+
  have "created E t tid uid tag oid tags (store s)
      = (created E t tid uid tag oid tags (store s))\<lparr>subtasks := subtasks (store s) @ []\<rparr>"
    by (simp add: created_def)
  then have "\<exists>n. store s' = (created E t tid uid tag oid tags (store s))
           \<lparr>subtasks := subtasks (store s) @ subtask_rows E n 0 tid (t_Subtasks t)\<rparr>"
    using two by auto
  with one show ?thesis unfolding task_written_def by blast
qed

text \<open>The task and its event are there, its subtasks are not.\<close>

definition task_without_subtasks :: "env \<Rightarrow> task \<Rightarrow> db \<Rightarrow> db \<Rightarrow> bool" where
  "task_without_subtasks E t d d' \<longleftrightarrow>
     (\<exists>tid uid tag oid tags. pg_uuid E (t_ID t) = Some tid \<and> pg_uuid E (t_UserID t) = Some uid
        \<and> tag_choice E t uid d tag tags \<and> d' = created E t tid uid tag oid tags d)"

lemma svc_CreateTask_failed:
  assumes "svc_CreateTask E t s = (Inl e, s')"
  shows "store s' = store s \<or> task_without_subtasks E t (store s) (store s') \<or> task_written E t (store s) (store s')"
  using svc_CreateTask_states [OF assms] unfolding task_without_subtasks_def task_written_def by blast

text \<open>The ways \<open>Create\<close> can end: refused, enqueued, written, or an error of the write.\<close>

definition create_end :: "env \<Rightarrow> create_wire request \<Rightarrow> 'r app \<Rightarrow> nat \<Rightarrow> 'r app \<Rightarrow> bool" where
  "create_end E r S code S' \<longleftrightarrow>
     (code \<in> {400, 401, 429, 500, 503} \<and> S' = S)
     \<or> (\<exists>t. asked_for r t \<and>
          (code = 202 \<and> t_Subtasks t = [] \<and> app_db S' = app_db S
             \<and> pr_create (ap_proc S') = (pr_create (ap_proc S))\<lparr>w_ch := w_ch (pr_create (ap_proc S)) @ [t]\<rparr>
           \<or> pr_create (ap_proc S') = pr_create (ap_proc S)
             \<and> (code = 201 \<and> task_written E t (app_db S) (app_db S')
                \<or> code = 500 \<and> (app_db S' = app_db S \<or> task_without_subtasks E t (app_db S) (app_db S')
                     \<or> task_written E t (app_db S) (app_db S')))))"

lemma h_Create_end:
  assumes "h_Create R E r responseRecorder S = (x, S')"
  shows "\<exists>e w. x = Ret (e, w) \<and> (e \<noteq> None \<longrightarrow> status_of w = 500 \<and> (\<exists>g. e = Some (OtherErr g)))
     \<and> wr_recorder w \<and> create_end E r S (status_of w) S'"
proof -
  have st: "status_of (http_Error m c responseRecorder) = c"
    "status_of (Write b (WriteHeader c responseRecorder)) = c"
    "wr_recorder (http_Error m c responseRecorder)"
    "wr_recorder (Write b (WriteHeader c responseRecorder))"
    for m :: string and c :: nat and b :: "task_doc body"
    by (simp_all add: http_Error_def Write_def WriteHeader_def responseRecorder_def status_of_def Let_def)
  show ?thesis
  proof (cases "rq_header r ''X-User-ID'' = [] \<or> validate_UUID E (rq_header r ''X-User-ID'') \<noteq> None \<or> \<not> rq_read r
      \<or> (\<exists>e. ebind (rq_json r) CreateTaskRequest_UnmarshalJSON = Inl e)")
    case True
    then show ?thesis using assms
      by (auto simp: h_Create_def Let_def reject_def reply_def create_end_def st split: if_splits)
  next
    case False
    then obtain req where req: "ebind (rq_json r) CreateTaskRequest_UnmarshalJSON = Inr req"
      by (cases "ebind (rq_json r) CreateTaskRequest_UnmarshalJSON") auto
    obtain i S1 where i: "on_pg (take_id E) S = (i, S1)" by force
    define t where "t = dtoToEntity i (rq_header r ''X-User-ID'') req"
    have t: "asked_for r t" using req by (auto simp: asked_for_def t_def)
    have S1: "app_db S1 = app_db S" "pr_create (ap_proc S1) = pr_create (ap_proc S)"
      using i by (auto simp: on_pg_def take_id_def)
    have saved: "create_end E r S (case v of Inl e \<Rightarrow> 500 | Inr _ \<Rightarrow> 201) S4"
      if run: "on_pg (svc_CreateTask E t) S2 = (v, S3)" and d2: "app_db S2 = app_db S" and d4: "app_db S4 = app_db S3"
        and p2: "pr_create (ap_proc S2) = pr_create (ap_proc S)" and p4: "pr_create (ap_proc S4) = pr_create (ap_proc S3)"
      for S2 v S3 S4
    proof -
      obtain s' where s': "svc_CreateTask E t (pr_pg (ap_proc S2)) = (v, s')" "store s' = app_db S4"
        using run d4 by (cases "svc_CreateTask E t (pr_pg (ap_proc S2))") (auto simp: on_pg_def)
      have same: "pr_create (ap_proc S4) = pr_create (ap_proc S)"
        using run p2 p4 by (auto simp: on_pg_def split: prod.splits)
      show ?thesis
      proof (cases v)
        case (Inl e)
        with s' d2 svc_CreateTask_failed [of E t "pr_pg (ap_proc S2)" e s']
        have "app_db S4 = app_db S \<or> task_without_subtasks E t (app_db S) (app_db S4)
            \<or> task_written E t (app_db S) (app_db S4)" by simp
        with Inl t same show ?thesis unfolding create_end_def by auto
      next
        case (Inr u)
        then have "task_written E t (app_db S) (app_db S4)"
          using svc_CreateTask_written [of E t "pr_pg (ap_proc S2)" s'] s' d2 Inr by simp
        with Inr t same show ?thesis unfolding create_end_def by auto
      qed
    qed
    show ?thesis
    proof (cases "HasSubtasks t")
      case True
      obtain v S2 where v: "on_pg (svc_CreateTask E t) S1 = (v, S2)" by force
      show ?thesis
        using assms False req i True v saved [OF v S1(1), of S2] saved [OF v S1(1), of "go_free (create_job t) S2"] S1(2)
        by (cases v) (auto simp: go_free_def h_Create_def Let_def t_def [symmetric] reject_def reply_text_def reply_def st)
    next
      case no: False
      obtain ok p where p: "EnqueueCreate t (ap_proc S1) = (ok, p)" by force
      have db: "store (pr_pg p) = app_db S1" using enqueue_db [OF p] by simp
      show ?thesis
      proof (cases ok)
        case True
        have "pr_create p = (pr_create (ap_proc S))\<lparr>w_ch := w_ch (pr_create (ap_proc S)) @ [t]\<rparr>"
          using p True S1 by (auto simp: EnqueueCreate_def offer_def split: if_splits)
        moreover have "t_Subtasks t = []" using no by (simp add: HasSubtasks_def)
        ultimately have "create_end E r S 202 (S1\<lparr>ap_proc := p\<rparr>)"
          using t S1 db unfolding create_end_def by auto
        then show ?thesis using assms False req i no p True
          by (auto simp: h_Create_def Let_def t_def [symmetric] reply_text_def reply_def st)
      next
        case full: False
        obtain v S2 where v: "on_pg (svc_CreateTask E t) (S1\<lparr>ap_proc := p\<rparr>) = (v, S2)" by force
        have "pr_create p = pr_create (ap_proc S)"
          using p full S1(2) by (auto simp: EnqueueCreate_def offer_def split: if_splits)
        note saved = saved [OF v _ refl _ refl]
        show ?thesis
          using assms False req i no p full v saved db S1 \<open>pr_create p = pr_create (ap_proc S)\<close>
          by (cases v) (auto simp: h_Create_def Let_def t_def [symmetric] reject_def reply_text_def reply_def st)
      qed
    qed
  qed
qed

lemma status_fold_Write: "wr_status v \<noteq> None \<Longrightarrow> wr_status (fold Write bs v) = wr_status v"
  by (induction bs arbitrary: v) (auto simp: Write_def Let_def)

lemma status_copy_response: "status_of (copy_response rec new_conn) = status_of rec"
  by (simp add: copy_response_def WriteHeader_def new_conn_def status_of_def [of "fold _ _ _"]
      status_fold_Write)

lemma signature_Middleware_split:
  "signature_Middleware mac secret nw r h w s = h w s
   \<or> (\<exists>msg. signature_Middleware mac secret nw r h w s = (Ret (http_Error msg 401 w), s))"
proof (cases "isPublicRoute (rq_path r)")
  case True
  then show ?thesis by (simp add: signature_Middleware_def)
next
  case False
  then show ?thesis using signature_Middleware_cases [OF False, of mac secret nw h w s] by blast
qed

lemma create_route_end:
  assumes "writing C E route r (h_Create R E r) new_conn (g, S) = (q, g', S')"
  shows "\<exists>w. q = Ret w \<and> create_end E r S (status_of w) S'"
proof -
  let ?h = "apperror_Middleware (h_Create R E r)"
  have st: "status_of (http_Error m 401 new_conn) = 401" for m
    by (simp add: http_Error_def Write_def WriteHeader_def new_conn_def status_of_def)
  consider (refused) msg where "(q, g', S') = (Ret (http_Error msg 401 new_conn), g, S)"
    | (served) "resilience_WriteMiddleware (cf_guard C route) ?h new_conn (g, S) = (q, g', S')"
    using signature_Middleware_split [of "cf_mac C" "cf_secret C" "now E" r
        "resilience_WriteMiddleware (cf_guard C route) ?h" new_conn "(g, S)"] assms
    unfolding writing_def signed_def by force
  then show ?thesis
  proof cases
    case (refused msg)
    then show ?thesis by (simp add: create_end_def st)
  next
    case served
    obtain x S1 where x: "h_Create R E r responseRecorder S = (x, S1)" by force
    obtain e w where w: "x = Ret (e, w)" "e \<noteq> None \<Longrightarrow> status_of w = 500 \<and> (\<exists>g. e = Some (OtherErr g))"
      "wr_recorder w" "create_end E r S (status_of w) S1"
      using h_Create_end [OF x] by blast
    have "\<exists>v. ?h responseRecorder S = (Ret v, S1) \<and> status_of v = status_of w"
      using x w by (cases e)
        (auto simp: apperror_Middleware_def Write_def WriteHeader_def status_of_def Let_def)
    then obtain v where v: "?h responseRecorder S = (Ret v, S1)" "status_of v = status_of w" by blast
    from WriteMiddleware_once [OF served] show ?thesis
    proof (elim disjE)
      assume "S' = S \<and> (\<exists>w. q = Ret w \<and> status_of w \<in> {429, 503})"
      then show ?thesis by (auto simp: create_end_def)
    next
      assume "S' = snd (?h responseRecorder S) \<and> q = (case fst (?h responseRecorder S) of
          Panic \<Rightarrow> Panic | Ret rec \<Rightarrow> Ret (copy_response rec new_conn))"
      with v w show ?thesis by (simp add: status_copy_response)
    qed
  qed
qed

text \<open>C10: what an answer to POST /tasks and POST /v1/users/:userId/tasks says is true, through
  signature check, breaker and error middleware. The handler always answers. With 202 the
  task the body asks for, owned by the user of the header, is at the end of the batch channel
  and the tables are as before; with 201 the task, its event and its numbered subtasks are in
  the tables and nothing was queued. With 400, 401, 429 or 503 nothing at all has changed. Only 500
  does not tell: nothing has changed in the tables, or the task was written with its event but without
  its subtasks, or, when an answer of the database was lost, with them; but it was not queued.\<close>

theorem create_answers_truthfully:
  assumes "c = PostTasks r \<or> c = PostUserTasks r"
    and "task_Register C E c new_conn (g, S) = (q, g', S')"
  shows "\<exists>w. q = Ret w
    \<and> (status_of w \<in> {400, 401, 429, 500, 503} \<and> S' = S
       \<or> (\<exists>t. asked_for r t \<and>
            (status_of w = 202 \<and> t_Subtasks t = [] \<and> app_db S' = app_db S
               \<and> pr_create (ap_proc S') = (pr_create (ap_proc S))\<lparr>w_ch := w_ch (pr_create (ap_proc S)) @ [t]\<rparr>
             \<or> pr_create (ap_proc S') = pr_create (ap_proc S)
               \<and> (status_of w = 201 \<and> task_written E t (app_db S) (app_db S')
                  \<or> status_of w = 500 \<and> (app_db S' = app_db S \<or> task_without_subtasks E t (app_db S) (app_db S')
                       \<or> task_written E t (app_db S) (app_db S'))))))"
proof -
  obtain route where "writing C E route r (h_Create (cf_redis C) E r) new_conn (g, S) = (q, g', S')"
  proof -
    have "task_Register C E c = writing C E (task_route c) r (h_Create (cf_redis C) E r)"
      using assms(1) by (elim disjE) simp_all
    with assms(2) show thesis by (intro that [of "task_route c"]) simp
  qed
  from create_route_end [OF this] show ?thesis unfolding create_end_def .
qed

text \<open>A configuration and requests the witnesses evaluate.\<close>

definition sample_config :: "(unit, server) config" where
  "sample_config = \<lparr>cf_redis = server_ops, cf_engine = (\<lambda>conds ord rows. Inr rows),
     cf_guard = (\<lambda>route. open_guard), cf_mac = (\<lambda>k t. ''mac''), cf_secret = ''secret'',
     cf_subs = True, cf_msgs = True, cf_ws = True\<rparr>"

definition sample_app :: "server app" where
  "sample_app = \<lparr>ap_proc = new_processor sample_pg sample_server, ap_sema = [], ap_free = [], ap_notes = []\<rparr>"

definition gateway_headers :: "string \<Rightarrow> string" where
  "gateway_headers k =
     (case map_of [(''X-Signature'', ''mac''), (''X-Timestamp'', ''0''), (''X-Service-Name'', ''gateway''),
        (''X-User-ID'', ''u'')] k of None \<Rightarrow> [] | Some v \<Rightarrow> v)"

definition sample_body :: create_wire where
  "sample_body = \<lparr>cw_Title = ''a'', cw_Description = [], cw_Priority = ''red'', cw_Status = [],
     cw_DueDate = ''2024-01-02 10:00'', cw_TagID = None, cw_TagName = [], cw_Subtasks = []\<rparr>"

definition sample_create_request :: "create_wire request" where
  "sample_create_request = \<lparr>rq_method = ''POST'', rq_path = ''/tasks'', rq_header = gateway_headers,
     rq_param = (\<lambda>k. []), rq_query = [], rq_read = True, rq_json = Inr sample_body\<rparr>"

lemma gateway_signed:
  assumes "rq_header r = gateway_headers"
  shows "signed_ok (cf_mac sample_config) (cf_secret sample_config) (now sample_env) r"
  using assms
  by (simp add: signed_ok_def sample_config_def gateway_headers_def ParseInt64_def digit_val_def of_char_def
      sample_env_def time_Unix_def minutes_def)

lemma sample_created:
  "\<exists>w S'. h_Create server_ops sample_env sample_create_request responseRecorder sample_app = (Ret (None, w), S')
     \<and> status_of w = 202"
proof -
  have due: "time_Parse layout_minute ''2024-01-02 10:00'' = Some 1704189600000000"
    by code_simp
  then have req: "ebind (rq_json sample_create_request) CreateTaskRequest_UnmarshalJSON
      = Inr \<lparr>cr_Title = ''a'', cr_Description = [], cr_Priority = ''red'', cr_Status = [],
          cr_DueDate = 1704189600000000, cr_TagID = None, cr_TagName = [], cr_Subtasks = []\<rparr>"
    by (simp add: sample_create_request_def sample_body_def CreateTaskRequest_UnmarshalJSON_def)
  have user: "rq_header sample_create_request ''X-User-ID'' = ''u''" "rq_read sample_create_request"
    by (simp_all add: sample_create_request_def gateway_headers_def)
  have valid: "validate_UUID sample_env ''u'' = None"
    by (simp add: validate_UUID_def sample_env_def)
  have room: "\<exists>p. EnqueueCreate t (ap_proc (snd (on_pg (take_id sample_env) sample_app))) = (True, p)" for t
    by (simp add: EnqueueCreate_def offer_def on_pg_def take_id_def sample_app_def new_processor_def new_worker_def)
  have plain: "\<not> HasSubtasks (dtoToEntity i u \<lparr>cr_Title = ''a'', cr_Description = [], cr_Priority = ''red'',
      cr_Status = [], cr_DueDate = 1704189600000000, cr_TagID = None, cr_TagName = [], cr_Subtasks = []\<rparr>)" for i u
    by (simp add: HasSubtasks_def dtoToEntity_def)
  obtain i S1 where id: "on_pg (take_id sample_env) sample_app = (i, S1)" by force
  then obtain p where p: "EnqueueCreate (dtoToEntity i ''u'' \<lparr>cr_Title = ''a'', cr_Description = [],
      cr_Priority = ''red'', cr_Status = [], cr_DueDate = 1704189600000000, cr_TagID = None, cr_TagName = [],
      cr_Subtasks = []\<rparr>) (ap_proc S1) = (True, p)"
    using room by (metis snd_conv)
  show ?thesis
    by (simp add: h_Create_def Let_def user valid req id plain p reply_text_def reply_def)
      (simp add: Write_def WriteHeader_def responseRecorder_def status_of_def Let_def)
qed

lemma sample_posted:
  "\<exists>w S'. task_Register sample_config sample_env (PostTasks sample_create_request) new_conn ((), sample_app)
       = (Ret w, (), S') \<and> status_of w = 202"
proof -
  have path: "\<not> isPublicRoute (rq_path sample_create_request)"
    by (simp add: isPublicRoute_def publicRoutes_def sample_create_request_def strings_HasPrefix_def)
  have head: "rq_header sample_create_request = gateway_headers" by (simp add: sample_create_request_def)
  obtain v S1 where h: "h_Create server_ops sample_env sample_create_request responseRecorder sample_app = (Ret (None, v), S1)"
    "status_of v = 202"
    using sample_created by blast
  then have ex: "execute open_guard (apperror_Middleware (h_Create server_ops sample_env sample_create_request))
      ((), sample_app) = (Ret (None, v), (), S1)"
    by (simp add: execute_def open_guard_def apperror_Middleware_def)
  have conf: "cf_guard sample_config route = open_guard" "cf_redis sample_config = server_ops"
    "g_allow open_guard () = (True, ())" for route
    by (simp_all add: sample_config_def open_guard_def)
  have "task_Register sample_config sample_env (PostTasks sample_create_request) new_conn ((), sample_app)
      = (Ret (copy_response v new_conn), (), S1)"
    by (simp add: writing_def signed_passes [OF path gateway_signed [OF head]] conf
        resilience_WriteMiddleware_def ex)
  with h(2) show ?thesis by (simp add: status_copy_response)
qed

theorem create_answers_truthfully_witness:
  "\<exists>w S' t. task_Register sample_config sample_env (PostTasks sample_create_request) new_conn ((), sample_app)
       = (Ret w, (), S') \<and> status_of w = 202
     \<and> asked_for sample_create_request t \<and> pr_create (ap_proc S') = new_worker\<lparr>w_ch := [t]\<rparr>"
proof -
  obtain w S' where run: "task_Register sample_config sample_env (PostTasks sample_create_request) new_conn
      ((), sample_app) = (Ret w, (), S')" and st: "status_of w = 202"
    using sample_posted by blast
  have "pr_create (ap_proc sample_app) = new_worker" "w_ch new_worker = []"
    by (simp_all add: sample_app_def new_processor_def new_worker_def)
  with create_answers_truthfully [OF disjI1 [OF refl] run] st run show ?thesis by auto
qed

definition acknowledge_request :: "unit request" where
  "acknowledge_request = \<lparr>rq_method = ''POST'',
     rq_path = ''/v1/users/u/shared-tasks/s/acknowledge-admin-deletion'', rq_header = gateway_headers,
     rq_param = (\<lambda>k. case map_of [(''userId'', ''u''), (''stid'', ''s'')] k of None \<Rightarrow> [] | Some v \<Rightarrow> v),
     rq_query = [], rq_read = True, rq_json = Inr ()\<rparr>"

theorem shared_acknowledgement_unreachable_witness:
  "signed_ok (cf_mac sample_config) (cf_secret sample_config) (now sample_env) acknowledge_request
   \<and> task_Register sample_config sample_env (AcknowledgeShared acknowledge_request) new_conn ((), sample_app)
        = (Ret (http_Error ''task id and user id required'' 400 new_conn), (), sample_app)"
proof -
  have ok: "signed_ok (cf_mac sample_config) (cf_secret sample_config) (now sample_env) acknowledge_request"
    by (rule gateway_signed) (simp add: acknowledge_request_def)
  have "routed (task_route (AcknowledgeShared acknowledge_request)) (head acknowledge_request)"
    by (simp add: routed_def acknowledge_request_def)
  from shared_acknowledgement_unreachable [OF this] ok show ?thesis by blast
qed

section \<open>Whose tags a route can touch\<close>

lemma apperror_state: "snd (apperror_Middleware h w s) = snd (h w s)"
  by (auto simp: apperror_Middleware_def split: prod.split outcome.split option.split handler_err.split)

lemma tag_frame_apperror:
  "owner.tag_keeps uid h \<Longrightarrow> tag_frame uid (app_db S) (app_db (fst (snd (apperror_Middleware h w (S, jobs)))))"
  by (simp add: owner.tag_keeps_def apperror_state)

lemma tag_Register_frame:
  "tag_frame (pg_uuid E (rq_param (tag_head c) ''userId'')) (app_db S)
     (app_db (fst (snd (tag_Register C E c w (S, jobs)))))"
  by (cases c) (simp_all add: tag_frame_apperror tag_handlers_frame)

text \<open>C22: a request to a route of tags changes nothing but rows of \<open>custom_tag\<close> that belong to
  the user its path names, whatever its headers and its body say and whichever round trips
  fail. That is all that is checked: the path may name any user. And when the tag of a
  DELETE belongs to somebody else, the answer on a server that answers is 200, the same as
  for a deletion that took place.\<close>

theorem tags_owner_only:
  assumes "tag_Register C E c w (S, jobs) = (q, S', jobs')"
  shows "\<exists>cs. app_db S' = (app_db S)\<lparr>custom_tag := cs\<rparr>
      \<and> filter (\<lambda>r. Some (ct_user_id r) \<noteq> pg_uuid E (rq_param (tag_head c) ''userId'')) cs
        = filter (\<lambda>r. Some (ct_user_id r) \<noteq> pg_uuid E (rq_param (tag_head c) ''userId'')) (custom_tag (app_db S))"
  using tag_Register_frame [of E c S C w jobs] assms by (simp add: tag_frame_def)

lemma foreign_delete_reported:
  assumes ok: "db_ok (app_db S)" and up: "faults (pr_pg (ap_proc S)) = []"
    and row: "row \<in> set (custom_tag (app_db S))" "pg_uuid E (rq_param r ''tagsId'') = Some (ct_tag_id row)"
    and user: "pg_uuid E (rq_param r ''userId'') = Some uid" "uid \<noteq> ct_user_id row"
    and ids: "rq_param r ''userId'' \<noteq> []" "uuid_Parse E (rq_param r ''tagsId'')" "rq_param r ''tagsId'' \<noteq> []"
  shows "\<exists>v. fst (tag_Register C E (DeleteTag r) new_conn (S, jobs)) = Ret v \<and> status_of v = 200
     \<and> app_db (fst (snd (tag_Register C E (DeleteTag r) new_conn (S, jobs)))) = app_db S"
proof -
  let ?s = "pr_pg (ap_proc S)"
  have "distinct (map ct_tag_id (custom_tag (store ?s)))" using ok by (auto simp: db_ok_def schema_ok_def)
  then have same: "q = row" if "q \<in> set (custom_tag (store ?s))" "ct_tag_id q = ct_tag_id row" for q
    using row(1) that by (auto simp: distinct_map inj_on_def)
  have keep: "filter (\<lambda>q. \<not> (ct_tag_id q = ct_tag_id row \<and> ct_user_id q = uid)) (custom_tag (store ?s))
      = custom_tag (store ?s)"
    using same user(2) by (auto intro!: filter_True)
  have "tagsvc_DeleteTags E (rq_param r ''tagsId'') (rq_param r ''userId'') ?s = (Inr (), ?s)"
    using row user ids up keep
    by (auto simp: tagsvc_DeleteTags_def tagrepo_FindTagByID_def pg_query_healthy find_tag_sql_def uuid_arg_def
        list_ex_iff tagrepo_DeleteTags_def pg_run_healthy delete_tag_sql_def)
  then have "on_pg (tagsvc_DeleteTags E (rq_param r ''tagsId'') (rq_param r ''userId'')) S = (Inr (), S)"
    by (simp add: on_pg_def)
  then show ?thesis
    using ids
    by (simp add: th_Delete_def apperror_Middleware_def tag_reply_def tag_json_def Write_def WriteHeader_def
        new_conn_def status_of_def Let_def)
qed

definition foreign_tag :: custom_tag_row where
  "foreign_tag = \<lparr>ct_tag_id = ''t'', ct_name = ''a'', ct_user_id = ''v''\<rparr>"

definition tag_app :: "server app" where
  "tag_app = sample_app\<lparr>ap_proc := new_processor
     (sample_pg\<lparr>store := empty_db\<lparr>custom_tag := [foreign_tag]\<rparr>\<rparr>) sample_server\<rparr>"

definition tag_request :: "unit request" where
  "tag_request = \<lparr>rq_method = ''DELETE'', rq_path = ''/v1/users/u/tags/t'', rq_header = (\<lambda>k. []),
     rq_param = (\<lambda>k. case map_of [(''userId'', ''u''), (''tagsId'', ''t'')] k of None \<Rightarrow> [] | Some v \<Rightarrow> v),
     rq_query = [], rq_read = True, rq_json = Inr ()\<rparr>"

theorem tags_owner_only_witness:
  "\<exists>v S' jobs'. tag_Register sample_config sample_env (DeleteTag tag_request) new_conn (tag_app, []) = (Ret v, S', jobs')
     \<and> status_of v = 200 \<and> foreign_tag \<in> set (custom_tag (app_db S'))"
proof -
  obtain q S' jobs' where run:
    "tag_Register sample_config sample_env (DeleteTag tag_request) new_conn (tag_app, []) = (q, S', jobs')"
    by (metis prod_cases3)
  have app: "app_db tag_app = empty_db\<lparr>custom_tag := [foreign_tag]\<rparr>" "faults (pr_pg (ap_proc tag_app)) = []"
    by (simp_all add: tag_app_def new_processor_def sample_pg_def)
  have ok: "db_ok (app_db tag_app)"
    unfolding app by (rule custom_tags_db_ok) simp_all
  have par: "rq_param tag_request ''userId'' = ''u''" "rq_param tag_request ''tagsId'' = ''t''"
    by (simp_all add: tag_request_def)
  have "\<exists>v. q = Ret v \<and> status_of v = 200"
    using foreign_delete_reported [where S = tag_app and row = foreign_tag and r = tag_request and E = sample_env
        and uid = "''u''" and C = sample_config and jobs = "[]"] ok run
    by (auto simp: app par foreign_tag_def sample_env_def)
  moreover have "foreign_tag \<in> set (custom_tag (app_db S'))"
  proof -
    obtain cs where cs: "app_db S' = (app_db tag_app)\<lparr>custom_tag := cs\<rparr>"
      "filter (\<lambda>r. Some (ct_user_id r) \<noteq> pg_uuid sample_env ''u'') cs
       = filter (\<lambda>r. Some (ct_user_id r) \<noteq> pg_uuid sample_env ''u'') [foreign_tag]"
      using tags_owner_only [OF run] by (auto simp: app par)
    have "filter (\<lambda>r. Some (ct_user_id r) \<noteq> pg_uuid sample_env ''u'') [foreign_tag] = [foreign_tag]"
      by (simp add: foreign_tag_def sample_env_def)
    with cs(2) have "foreign_tag \<in> set (filter (\<lambda>r. Some (ct_user_id r) \<noteq> pg_uuid sample_env ''u'') cs)"
      by simp
    then have "foreign_tag \<in> set cs" by simp
    with cs(1) show ?thesis by simp
  qed
  ultimately show ?thesis using run by blast
qed

end
