(* ===== verification/Clients.thy ===== *)
theory Clients
  imports Reminders TaskHandlers
begin

text \<open>
  The clients of the users' service: \<open>notification/users_client.go\<close> sends a message in the name
  of a user, \<open>notification/ws_notifier.go\<close> pushes an event to the browser of a user. Handlers
  start both in goroutines and ignore the result, so a message of \<open>ap_notes\<close> is one call of
  one of these methods.
\<close>

section \<open>Requests to another service\<close>

text \<open>
  \<open>json.Marshal\<close> of a map sorts its keys. \<open>pe_replies\<close> is what the coming requests meet (200 once
  the list is used up), \<open>pe_received\<close> the requests that arrived. \<open>us_url_ok\<close> says which texts
  \<open>url.Parse\<close> accepts, the only way \<open>NewRequestWithContext\<close> fails here.
\<close>

datatype json_value = JString string | JObject "(string \<times> string) list"

record http_call =
  hc_url :: string
  hc_header :: "(string \<times> string) list"
  hc_body :: "(string \<times> json_value) list"

record peer =
  pe_replies :: "Reminders.reply list"
  pe_received :: "http_call list"

record users_cfg =
  us_host :: string
  us_port :: string
  us_url_ok :: "string \<Rightarrow> bool"

definition http_Do :: "http_call \<Rightarrow> peer \<Rightarrow> (go_err + nat) \<times> peer" where
  "http_Do req p =
     (let arrived = p\<lparr>pe_replies := tl (pe_replies p), pe_received := pe_received p @ [req]\<rparr>
      in case pe_replies p of
           [] \<Rightarrow> (Inr 200, arrived)
         | Status c # _ \<Rightarrow> (Inr c, arrived)
         | NotSent # _ \<Rightarrow> (Inl (Msg ''http''), p\<lparr>pe_replies := tl (pe_replies p)\<rparr>)
         | AnswerLost # _ \<Rightarrow> (Inl (Msg ''http''), arrived))"

definition post_call ::
    "string \<Rightarrow> string \<Rightarrow> string \<Rightarrow> users_cfg \<Rightarrow> http_call \<Rightarrow> peer \<Rightarrow> (go_err + unit) \<times> peer" where
  "post_call mk_what send_what failed cfg req p =
     (if \<not> us_url_ok cfg (hc_url req) then (Inl (Wrap (''create '' @ mk_what) (Msg ''url'')), p)
      else case http_Do req p of
             (Inl e, p) \<Rightarrow> (Inl (Wrap (''send '' @ send_what) e), p)
           | (Inr c, p) \<Rightarrow>
               if c \<ge> 400 then (Inl (Msg (failed @ '' failed with status '' @ show_nat c)), p) else (Inr (), p))"

section \<open>The two clients\<close>

definition message_call :: "users_cfg \<Rightarrow> string \<Rightarrow> string \<Rightarrow> string \<Rightarrow> http_call" where
  "message_call cfg fromUserID toUserID content =
     \<lparr>hc_url = ''http://'' @ us_host cfg @ '':'' @ us_port cfg @ ''/users/'' @ fromUserID @ ''/messages/'' @ toUserID,
      hc_header = [(''Content-Type'', ''application/json''), (''X-Service-Name'', ''tasks-service''),
        (''X-User-ID'', fromUserID), (''X-Is-System'', ''true'')],
      hc_body = [(''content'', JString content)]\<rparr>"

definition users_SendMessage ::
    "users_cfg \<Rightarrow> string \<Rightarrow> string \<Rightarrow> string \<Rightarrow> peer \<Rightarrow> (go_err + unit) \<times> peer" where
  "users_SendMessage cfg fromUserID toUserID content p =
     post_call ''message request'' ''message request'' ''message request'' cfg
       (message_call cfg fromUserID toUserID content) p"

definition ws_call :: "users_cfg \<Rightarrow> string \<Rightarrow> string \<Rightarrow> (string \<times> string) list \<Rightarrow> http_call" where
  "ws_call cfg userID eventType data =
     \<lparr>hc_url = ''http://'' @ us_host cfg @ '':'' @ us_port cfg @ ''/internal/ws-notify'',
      hc_header = [(''Content-Type'', ''application/json'')],
      hc_body = [(''data'', JObject data), (''event_type'', JString eventType), (''user_id'', JString userID)]\<rparr>"

definition ws_Notify ::
    "users_cfg \<Rightarrow> string \<Rightarrow> string \<Rightarrow> (string \<times> string) list \<Rightarrow> peer \<Rightarrow> (go_err + unit) \<times> peer" where
  "ws_Notify cfg userID eventType data p =
     post_call ''ws notify request'' (''ws notify user '' @ userID @ '' event '' @ eventType) ''ws notify'' cfg
       (ws_call cfg userID eventType data) p"

section \<open>Delivery\<close>

text \<open>A goroutine of a handler makes the call and drops its error.\<close>

definition call_of :: "users_cfg \<Rightarrow> message \<Rightarrow> http_call" where
  "call_of cfg m =
     (case m of WsNotify u ev pl \<Rightarrow> ws_call cfg u ev pl | UserMessage f t c \<Rightarrow> message_call cfg f t c)"

definition deliver :: "users_cfg \<Rightarrow> message \<Rightarrow> peer \<Rightarrow> peer" where
  "deliver cfg m p =
     snd (case m of
            WsNotify u ev pl \<Rightarrow> ws_Notify cfg u ev pl p
          | UserMessage f t c \<Rightarrow> users_SendMessage cfg f t c p)"

lemma http_Do_received:
  "pe_received (snd (http_Do req p)) = pe_received p
   \<or> pe_received (snd (http_Do req p)) = pe_received p @ [req]"
  by (auto simp: http_Do_def Let_def split: list.split Reminders.reply.split)

lemma post_call_peer: "snd (post_call a b c cfg req p) = (if us_url_ok cfg (hc_url req) then snd (http_Do req p) else p)"
  by (auto simp: post_call_def split: prod.split sum.split)

lemma deliver_peer:
  "deliver cfg m p = (if us_url_ok cfg (hc_url (call_of cfg m)) then snd (http_Do (call_of cfg m) p) else p)"
  by (cases m) (simp_all add: deliver_def call_of_def ws_Notify_def users_SendMessage_def post_call_peer)

text \<open>A message is sent at most once, and a call without an error has arrived.\<close>

lemma deliver_at_most_once:
  "\<exists>k \<le> 1. pe_received (deliver cfg m p) = pe_received p @ replicate k (call_of cfg m)"
  using http_Do_received [of "call_of cfg m" p]
  by (auto simp: deliver_peer intro: exI [of _ 0] exI [of _ 1])

lemma post_call_arrived:
  "post_call a b c cfg req p = (Inr (), p') \<Longrightarrow> pe_received p' = pe_received p @ [req]"
  by (auto simp: post_call_def http_Do_def Let_def split: if_splits list.splits Reminders.reply.splits)

section \<open>Asking for a user\<close>

text \<open>
  \<open>UserExists\<close> of \<open>pkg/client/users/users.go\<close>, which no code of the service calls. \<open>serve\<close> is the
  users' service: nothing, or a status with a body, of which only the decoded field \<open>exists\<close> counts.
\<close>

definition UserExists ::
    "(string \<Rightarrow> bool) \<Rightarrow> (string \<Rightarrow> (nat \<times> (go_err + bool option)) option) \<Rightarrow> string \<Rightarrow> string
      \<Rightarrow> go_err + bool" where
  "UserExists url_ok serve baseURL userID =
     (let url = baseURL @ ''/users/exists/'' @ userID
      in if \<not> url_ok url then Inl (Wrap ''failed to create request'' (Msg ''url''))
         else case serve url of
                None \<Rightarrow> Inl (Msg ''user service unavailable'')
              | Some (_, Inl e) \<Rightarrow> Inl (Wrap ''failed to decode response'' e)
              | Some (_, Inr ex) \<Rightarrow> Inr (ex = Some True))"

text \<open>The status is not looked at: an error answer in JSON reads as a user who does not exist.\<close>

lemma UserExists_ignores_status:
  "url_ok (base @ ''/users/exists/'' @ u) \<Longrightarrow> serve (base @ ''/users/exists/'' @ u) = Some (status, Inr None)
     \<Longrightarrow> UserExists url_ok serve base u = Inr False"
  by (simp add: UserExists_def)

end
