(* ===== verification/Journal.thy ===== *)
theory Journal
  imports Tags SharedTasks Outbox
begin

text \<open>
  The outbox as a journal of the tasks: whoever reads the events in the order of the table knows
  which tasks there are and what they say. The theory states this for the tables, shows that it
  survives every statement and transaction of the repositories, and that events are only ever
  added; the contracts of the repositories are interpreted for it, so the composed service
  inherits it (theory System).
\<close>

section \<open>What the events tell\<close>

text \<open>The last event of a task.\<close>

definition last_event :: "outbox_row list \<Rightarrow> string \<Rightarrow> outbox_row option" where
  "last_event es i = find_row (\<lambda>e. ob_aggregate_type e = ''task'' \<and> ob_aggregate_id e = i) (rev es)"

text \<open>
  An event tells a row: its payload carries the texts, the priority and the deadline of the row, and
  its status, except that an update of a task whose deadline has passed says \<open>not_completed\<close>.
\<close>

definition tells :: "outbox_row \<Rightarrow> task_row \<Rightarrow> bool" where
  "tells e r \<longleftrightarrow> ob_event_type e \<in> {''created'', ''update''}
     \<and> (case payload_unmarshal (ob_event_data e) of Inl _ \<Rightarrow> False
        | Inr p \<Rightarrow> pl_Title p = tr_title r \<and> pl_Description p = tr_description r
            \<and> pl_Priority p = tr_priory r \<and> pl_DueDate p = tr_due_date r
            \<and> (StorageCode (pl_Status p) = tr_status r
               \<or> pl_Status p = StatusNotCompleted \<and> tr_due_date r < ob_created_at e))"

definition journal :: "task_row list \<Rightarrow> outbox_row list \<Rightarrow> bool" where
  "journal ts es \<longleftrightarrow>
     (\<forall>i. case find_row (\<lambda>r. tr_task_id r = i) ts of
            None \<Rightarrow> (\<forall>e. last_event es i = Some e \<longrightarrow> ob_event_type e = ''deleted'')
          | Some r \<Rightarrow> (\<exists>e. last_event es i = Some e \<and> tells e r))"

abbreviation journal_ok :: "db \<Rightarrow> bool" where
  "journal_ok d \<equiv> journal (tasks d) (outbox_events d)"

lemma journalI:
  assumes "\<And>i e. find_row (\<lambda>r. tr_task_id r = i) ts = None \<Longrightarrow> last_event es i = Some e
      \<Longrightarrow> ob_event_type e = ''deleted''"
    and "\<And>i r. find_row (\<lambda>r. tr_task_id r = i) ts = Some r \<Longrightarrow> \<exists>e. last_event es i = Some e \<and> tells e r"
  shows "journal ts es"
  unfolding journal_def using assms by (auto split: option.split)

lemma journalD:
  assumes "journal ts es"
  shows "find_row (\<lambda>r. tr_task_id r = i) ts = None \<Longrightarrow> last_event es i = Some e \<Longrightarrow> ob_event_type e = ''deleted''"
    and "find_row (\<lambda>r. tr_task_id r = i) ts = Some r \<Longrightarrow> \<exists>e. last_event es i = Some e \<and> tells e r"
  using assms [unfolded journal_def, rule_format, of i] by (auto split: option.splits)

lemma last_event_snoc:
  "last_event (es @ [e]) i
     = (if ob_aggregate_type e = ''task'' \<and> ob_aggregate_id e = i then Some e else last_event es i)"
  by (simp add: last_event_def)

lemma last_event_append:
  "last_event (es @ fs) i = (case last_event fs i of None \<Rightarrow> last_event es i | Some e \<Rightarrow> Some e)"
  by (simp add: last_event_def find_row_append split: option.split)

lemma last_event_Some:
  "last_event es i = Some e \<Longrightarrow> e \<in> set es \<and> ob_aggregate_type e = ''task'' \<and> ob_aggregate_id e = i"
  by (auto simp: last_event_def dest: find_row_Some)

lemma last_event_None:
  "last_event es i = None \<longleftrightarrow> (\<forall>e \<in> set es. ob_aggregate_type e = ''task'' \<longrightarrow> ob_aggregate_id e \<noteq> i)"
  by (auto simp: last_event_def find_row_None)

lemma journal_row:
  assumes "db_ok d" and "journal_ok d" and "r \<in> set (tasks d)"
  shows "\<exists>e. last_event (outbox_events d) (tr_task_id r) = Some e \<and> tells e r"
proof -
  have "distinct (map tr_task_id (tasks d))" using assms(1) by (simp add: db_ok_def schema_ok_def)
  then have "find_row (\<lambda>q. tr_task_id q = tr_task_id r) (tasks d) = Some r"
    using assms(3) by (rule find_row_unique) simp
  with journalD(2) [OF assms(2)] show ?thesis by simp
qed

lemma tells_decodable: "tells e r \<Longrightarrow> decodable (ob_event_data e)"
  by (auto simp: tells_def decodable_def split: sum.splits)

lemma conveys_tells:
  assumes "conveys m e" and "tells e r"
  shows "kp_Type (snd m) \<in> {''created'', ''update''}
      \<and> pl_Title (kp_Task (snd m)) = tr_title r \<and> pl_Description (kp_Task (snd m)) = tr_description r
      \<and> pl_Priority (kp_Task (snd m)) = tr_priory r \<and> pl_DueDate (kp_Task (snd m)) = tr_due_date r"
  using assms by (auto simp: conveys_def tells_def message_of_def toTaskPayload_def PayloadToTask_def)

section \<open>The ways a journal grows\<close>

lemma journal_add:
  "list_all2 (\<lambda>e r. ob_aggregate_type e = ''task'' \<and> ob_aggregate_id e = tr_task_id r \<and> tells e r) evs rs
   \<Longrightarrow> journal ts es \<Longrightarrow> distinct (map tr_task_id (ts @ rs)) \<Longrightarrow> journal (ts @ rs) (es @ evs)"
proof (induction arbitrary: ts es rule: list_all2_induct)
  case (Cons e evs r rs)
  have "tr_task_id r \<notin> tr_task_id ` set ts" using Cons.prems(2) by simp
  then have new: "find_row (\<lambda>q. tr_task_id q = tr_task_id r) ts = None"
    unfolding find_row_None by (metis imageI)
  have "journal (ts @ [r]) (es @ [e])"
  proof (rule journalI)
    fix i e' assume n: "find_row (\<lambda>q. tr_task_id q = i) (ts @ [r]) = None" "last_event (es @ [e]) i = Some e'"
    then show "ob_event_type e' = ''deleted''"
      using journalD(1) [OF Cons.prems(1), of i e'] Cons.hyps(1)
      by (auto simp: find_row_append last_event_snoc split: option.splits if_splits)
  next
    fix i q assume "find_row (\<lambda>q. tr_task_id q = i) (ts @ [r]) = Some q"
    then show "\<exists>e'. last_event (es @ [e]) i = Some e' \<and> tells e' q"
      using journalD(2) [OF Cons.prems(1), of i q] Cons.hyps(1) new
      by (cases "tr_task_id r = i") (auto simp: find_row_append last_event_snoc split: option.splits if_splits)
  qed
  then show ?case using Cons.IH [of "ts @ [r]" "es @ [e]"] Cons.prems(2) by simp
qed simp

lemma journal_update:
  assumes "journal ts es" and "find_row (\<lambda>r. tr_task_id r = tid) ts = Some row"
    and "\<And>r. tr_task_id (f r) = tr_task_id r"
    and e: "ob_aggregate_type e = ''task''" "ob_aggregate_id e = tid" "tells e (f row)"
  shows "journal (update_where (\<lambda>r. tr_task_id r = tid) f ts) (es @ [e])"
proof (rule journalI)
  fix i e'
  assume n: "find_row (\<lambda>r. tr_task_id r = i) (update_where (\<lambda>r. tr_task_id r = tid) f ts) = None"
    "last_event (es @ [e]) i = Some e'"
  then have "find_row (\<lambda>r. tr_task_id r = i) ts = None" by (simp add: find_row_update_where assms(3))
  moreover from this have "i \<noteq> tid" using assms(2) by auto
  ultimately show "ob_event_type e' = ''deleted''"
    using journalD(1) [OF assms(1)] n(2) e(2) by (auto simp: last_event_snoc)
next
  fix i q
  assume q: "find_row (\<lambda>r. tr_task_id r = i) (update_where (\<lambda>r. tr_task_id r = tid) f ts) = Some q"
  then obtain r where r: "find_row (\<lambda>r. tr_task_id r = i) ts = Some r" "q = (if tr_task_id r = tid then f r else r)"
    by (auto simp: find_row_update_where assms(3))
  have "tr_task_id r = i" using r(1) by (auto dest: find_row_Some)
  then show "\<exists>e'. last_event (es @ [e]) i = Some e' \<and> tells e' q"
    using journalD(2) [OF assms(1) r(1)] r assms(2) e by (auto simp: last_event_snoc)
qed

lemma journal_remove:
  assumes "journal ts es"
    and evs: "\<And>e. e \<in> set evs \<Longrightarrow> ob_aggregate_type e = ''task'' \<and> ob_event_type e = ''deleted''"
    and ids: "ob_aggregate_id ` set evs = X \<inter> tr_task_id ` set ts"
  shows "journal (filter (\<lambda>r. tr_task_id r \<notin> X) ts) (es @ evs)"
proof (rule journalI)
  fix i e
  assume n: "find_row (\<lambda>r. tr_task_id r = i) (filter (\<lambda>r. tr_task_id r \<notin> X) ts) = None"
    and e: "last_event (es @ evs) i = Some e"
  show "ob_event_type e = ''deleted''"
  proof (cases "last_event evs i")
    case None
    then have "i \<notin> X \<inter> tr_task_id ` set ts" using evs by (auto simp: last_event_None ids [symmetric])
    with n have "find_row (\<lambda>r. tr_task_id r = i) ts = None" by (auto simp: find_row_None)
    with journalD(1) [OF assms(1)] e None show ?thesis by (simp add: last_event_append)
  next
    case (Some f)
    with e evs last_event_Some [OF Some] show ?thesis by (simp add: last_event_append)
  qed
next
  fix i r
  assume r: "find_row (\<lambda>r. tr_task_id r = i) (filter (\<lambda>r. tr_task_id r \<notin> X) ts) = Some r"
  then have i: "i \<notin> X" by (auto dest: find_row_Some)
  then have "find_row (\<lambda>r. tr_task_id r = i) (filter (\<lambda>r. tr_task_id r \<notin> X) ts)
      = find_row (\<lambda>r. tr_task_id r = i) ts" by (intro find_row_filter) auto
  moreover have "last_event evs i = None" using i ids by (auto simp: last_event_None)
  ultimately show "\<exists>e. last_event (es @ evs) i = Some e \<and> tells e r"
    using journalD(2) [OF assms(1), of i r] r by (simp add: last_event_append)
qed

text \<open>What neither the events tell nor the processor leaves alone does not matter.\<close>

definition told :: "task_row \<Rightarrow> string \<times> string \<times> string \<times> string \<times> time \<times> string" where
  "told r = (tr_task_id r, tr_title r, tr_description r, tr_priory r, tr_due_date r, tr_status r)"

text \<open>Two tables that look alike, row by row, give rows that look alike to the same query.\<close>

lemma alike_find:
  assumes "map f ts' = map f ts" and "\<And>r r'. f r' = f r \<Longrightarrow> Q r' = Q r"
  shows "rel_option (\<lambda>r r'. f r' = f r) (find_row Q ts) (find_row Q ts')"
proof -
  have "list_all2 (\<lambda>r r'. f r' = f r) ts ts'"
    using assms(1) by (simp add: list_all2_conv_all_nth list_eq_iff_nth_eq)
  then show ?thesis
  proof (induction rule: list_all2_induct)
    case (Cons r ts r' ts')
    with assms(2) [of r' r] show ?case by simp
  qed simp
qed

lemma told_find:
  assumes "map told ts' = map told ts"
  shows "rel_option (\<lambda>r r'. told r' = told r) (find_row (\<lambda>r. tr_task_id r = i) ts) (find_row (\<lambda>r. tr_task_id r = i) ts')"
  by (rule alike_find [OF assms]) (simp add: told_def)

lemma core_fields:
  assumes "core e' = core e"
  shows "ob_aggregate_type e' = ob_aggregate_type e" "ob_aggregate_id e' = ob_aggregate_id e"
    "ob_event_type e' = ob_event_type e" "ob_event_data e' = ob_event_data e" "ob_created_at e' = ob_created_at e"
proof -
  have "ob_aggregate_type (core r) = ob_aggregate_type r" "ob_aggregate_id (core r) = ob_aggregate_id r"
    "ob_event_type (core r) = ob_event_type r" "ob_event_data (core r) = ob_event_data r"
    "ob_created_at (core r) = ob_created_at r" for r by (simp_all add: core_def)
  with assms show "ob_aggregate_type e' = ob_aggregate_type e" "ob_aggregate_id e' = ob_aggregate_id e"
    "ob_event_type e' = ob_event_type e" "ob_event_data e' = ob_event_data e" "ob_created_at e' = ob_created_at e"
    by metis+
qed

lemma core_last:
  assumes "map core es' = map core es"
  shows "rel_option (\<lambda>e e'. core e' = core e) (last_event es i) (last_event es' i)"
  unfolding last_event_def
proof (rule alike_find)
  show "map core (rev es') = map core (rev es)" using assms by (simp add: rev_map [symmetric])
  show "(ob_aggregate_type e' = ''task'' \<and> ob_aggregate_id e' = i)
      = (ob_aggregate_type e = ''task'' \<and> ob_aggregate_id e = i)" if "core e' = core e" for e e'
    using core_fields [OF that] by simp
qed

lemma told_tells:
  assumes "told r' = told r" and "core e' = core e"
  shows "tells e' r' = tells e r"
  using assms(1) core_fields [OF assms(2)] by (simp add: tells_def told_def split: sum.split)

lemma journal_view:
  assumes "journal ts es" and "map told ts' = map told ts" and "map core es' = map core es"
  shows "journal ts' es'"
proof (rule journalI)
  fix i e' assume n: "find_row (\<lambda>r. tr_task_id r = i) ts' = None" "last_event es' i = Some e'"
  then obtain e where e: "last_event es i = Some e" "core e' = core e"
    using core_last [OF assms(3), of i] by (auto elim: option.rel_cases)
  have "find_row (\<lambda>r. tr_task_id r = i) ts = None"
    using n(1) told_find [OF assms(2), of i] by (auto elim: option.rel_cases)
  from journalD(1) [OF assms(1) this e(1)] show "ob_event_type e' = ''deleted''"
    using core_fields(3) [OF e(2)] by simp
next
  fix i r' assume "find_row (\<lambda>r. tr_task_id r = i) ts' = Some r'"
  then obtain r where "find_row (\<lambda>r. tr_task_id r = i) ts = Some r" and r: "told r' = told r"
    using told_find [OF assms(2), of i] by (auto elim: option.rel_cases)
  from journalD(2) [OF assms(1) this(1)] obtain e where "last_event es i = Some e" "tells e r" by blast
  moreover from this(1) obtain e' where "last_event es' i = Some e'" "core e' = core e"
    using core_last [OF assms(3), of i] by (auto elim: option.rel_cases)
  ultimately show "\<exists>e'. last_event es' i = Some e' \<and> tells e' r'" using told_tells [OF r] by blast
qed

section \<open>What the repositories do to the journal\<close>

text \<open>
  \<open>grows\<close>: the journal stays true and events are only added, apart from the marks of the processor.
  \<open>journal_le\<close>: the same for tables that were well-formed, which stay so; creating and updating
  rely on the constraints of the schema.
\<close>

definition grows :: "db \<Rightarrow> db \<Rightarrow> bool" where
  "grows d d' \<longleftrightarrow> (journal_ok d \<longrightarrow> journal_ok d')
     \<and> prefix (map core (outbox_events d)) (map core (outbox_events d'))"

definition journal_le :: "db \<Rightarrow> db \<Rightarrow> bool" where
  "journal_le d d' \<longleftrightarrow> (db_ok d \<longrightarrow> db_ok d' \<and> (journal_ok d \<longrightarrow> journal_ok d'))
     \<and> prefix (map core (outbox_events d)) (map core (outbox_events d'))"

lemma view_grows:
  "map told (tasks d') = map told (tasks d) \<Longrightarrow> map core (outbox_events d') = map core (outbox_events d) \<Longrightarrow> grows d d'"
  by (auto simp: grows_def intro: journal_view)

lemma grows_journal_le: "db_ok d \<longrightarrow> db_ok d' \<Longrightarrow> grows d d' \<Longrightarrow> journal_le d d'"
  by (simp add: grows_def journal_le_def)

lemma other_tables: "db_ok d \<longrightarrow> db_ok d' \<Longrightarrow> tasks d' = tasks d \<Longrightarrow> outbox_events d' = outbox_events d \<Longrightarrow> journal_le d d'"
  by (rule grows_journal_le) (auto intro: view_grows)

interpretation growth: store_rel grows
proof
  show "grows d d" for d by (simp add: grows_def)
  show "grows a b \<Longrightarrow> grows b c \<Longrightarrow> grows a c" for a b c
    unfolding grows_def by (blast intro: prefix_order.trans)
qed

interpretation journal: store_rel journal_le
proof
  show "journal_le d d" for d by (simp add: journal_le_def)
  show "journal_le a b \<Longrightarrow> journal_le b c \<Longrightarrow> journal_le a c" for a b c
    unfolding journal_le_def by (blast intro: prefix_order.trans)
qed

lemma journal_keeps: "db_inv.keeps f \<Longrightarrow> growth.keeps f \<Longrightarrow> journal.keeps f"
  by (simp add: db_inv.keeps_def growth.keeps_def journal.keeps_def grows_journal_le)

subsection \<open>Creating\<close>

lemma new_task_row_id [simp]: "tr_task_id (new_task_row E t tid uid tag) = tid"
  by (simp add: new_task_row_def)

lemma created_tells:
  "tells (new_event oid i ''created'' (payload_json (toTaskPayload t)) tm v) (new_task_row E t tid uid tag)"
  by (simp add: tells_def toTaskPayload_def new_task_row_def)

lemma journal_create:
  assumes "journal_ok d" and "db_ok d'"
    and "tasks d' = tasks d @ rs" and "outbox_events d' = outbox_events d @ evs"
    and "list_all2 (\<lambda>e r. ob_aggregate_type e = ''task'' \<and> ob_aggregate_id e = tr_task_id r \<and> tells e r) evs rs"
  shows "journal_ok d'"
  unfolding assms(3,4)
  by (rule journal_add [OF assms(5,1)]) (use assms(2,3) in \<open>simp add: db_ok_def schema_ok_def\<close>)

lemma repo_Create_journal: "journal.keeps (repo_Create E t)"
proof (rule journal.keepsI)
  fix s r s' assume run: "repo_Create E t s = (r, s')"
  from run show "journal_le (store s) (store s')"
  proof (cases rule: repo_Create_cases)
    case failed
    then show ?thesis by (simp add: journal.R_refl)
  next
    case (written tid uid tag oid tags)
    have "db_ok (store s) \<longrightarrow> db_ok (store s')" using db_inv.keepsD [OF repo_Create_db_ok run] .
    moreover have "journal_ok (store s')" if "journal_ok (store s)" "db_ok (store s')"
      using that by (rule journal_create [where rs = "[new_task_row E t tid uid (Some tag)]"
            and evs = "[new_event oid tid ''created'' (payload_json (toTaskPayload t)) (now E) 0]"])
        (simp_all add: written(3) created_def created_tells)
    ultimately show ?thesis by (auto simp: journal_le_def written(3) created_def)
  qed
qed

lemma batch_tells:
  assumes "batch_rows E ts = Inr rs" and "batch_events E n ts = Inr es"
  shows "list_all2 (\<lambda>e r. ob_aggregate_type e = ''task'' \<and> ob_aggregate_id e = tr_task_id r \<and> tells e r) es rs"
  using assms
proof (induction ts arbitrary: n rs es)
  case (Cons t ts)
  then show ?case by (auto simp: created_tells)
qed simp

lemma repo_CreateBatch_journal: "journal.keeps (repo_CreateBatch E ts)"
proof (rule journal.keepsI)
  fix s r s' assume run: "repo_CreateBatch E ts s = (r, s')"
  show "journal_le (store s) (store s')"
  proof (cases "ts = []")
    case True
    with run show ?thesis by (simp add: repo_CreateBatch_def journal.R_refl)
  next
    case False
    then have "pg_tx ''create batch begin tx'' (Wrap ''create batch commit'')
        (create_batch_body E (ctr s) ts) (s\<lparr>ctr := ctr s + length ts\<rparr>) = (r, s')"
      using run by (simp add: repo_CreateBatch_def Let_def)
    then show ?thesis
    proof (cases rule: pg_tx_cases)
      case undone
      then show ?thesis by (simp add: journal.R_refl)
    next
      case (committed x s1 s2)
      obtain rs es where b: "batch_rows E ts = Inr rs" "batch_events E (ctr s) ts = Inr es"
        "store s2 = (store s1)\<lparr>tasks := tasks (store s1) @ rs, outbox_events := outbox_events (store s1) @ es\<rparr>"
        using create_batch_body_Inr [OF committed(3)] by blast
      then have s': "tasks (store s') = tasks (store s) @ rs" "outbox_events (store s') = outbox_events (store s) @ es"
        using committed(1,4) by simp_all
      have "db_ok (store s) \<longrightarrow> db_ok (store s')" using db_inv.keepsD [OF repo_CreateBatch_db_ok run] .
      then show ?thesis
        using journal_create [OF _ _ s' batch_tells [OF b(1,2)]] s'(2) by (auto simp: journal_le_def)
    qed
  qed
qed

subsection \<open>Updating\<close>

lemma update_tells:
  assumes t: "t = modelToEntity E ((row_model d r)
      \<lparr>m_Reminder60mSentAt := None, m_Reminder15mSentAt := None, m_Reminder5mSentAt := None\<rparr>)"
    and st: "status_check (tr_status r)"
  shows "tells (new_event oid i ''update'' (payload_json (toTaskPayload t)) (now E) v) r"
proof -
  have "StorageCode (NewStatus (tr_status r)) = tr_status r"
    using st by (intro StorageCode_NewStatus_code) (auto simp: status_check_def)
  then show ?thesis
    by (auto simp: t tells_def toTaskPayload_def modelToEntity_def row_model_def shown_status_def new_event_def)
qed

lemma repo_Update_journal: "journal.keeps (repo_Update E i p)"
proof (rule journal.keepsI)
  fix s r s' assume run: "repo_Update E i p s = (r, s')"
  show "journal_le (store s) (store s')"
  proof (cases "uuid_Parse E i")
    case False
    with run show ?thesis by (simp add: repo_Update_def journal.R_refl)
  next
    case True
    then have "pg_tx ''begin tx'' (Wrap ''commit update tx'') (update_body E i p) s = (r, s')"
      using run by (simp add: repo_Update_def)
    then show ?thesis
    proof (cases rule: pg_tx_cases)
      case undone
      then show ?thesis by (simp add: journal.R_refl)
    next
      case (committed t s1 s2)
      obtain tag s3 tags cs where s3: "store s3 = (store s1)\<lparr>custom_tag := custom_tag (store s1) @ tags\<rparr>"
        and fin: "update_finish E i cs s3 = (Inr t, s2)" and cs: "apply_clauses cs = patch_row p tag"
        using update_body_finish [OF committed(3)] by metis
      obtain tid row oid where f: "find_row (\<lambda>r. tr_task_id r = tid) (tasks (store s3)) = Some row"
        and t: "t = modelToEntity E ((row_model (store s3) (patch_row p tag row))
           \<lparr>m_Reminder60mSentAt := None, m_Reminder15mSentAt := None, m_Reminder5mSentAt := None\<rparr>)"
        and s2: "store s2 = (store s3)
           \<lparr>tasks := update_where (\<lambda>r. tr_task_id r = tid) (patch_row p tag) (tasks (store s3)),
            outbox_events := outbox_events (store s3)
              @ [new_event oid tid ''update'' (payload_json (toTaskPayload t)) (now E) (next_version (store s3) tid)]\<rparr>"
        using update_finish_Inr [OF fin] cs by auto
      let ?e = "new_event oid tid ''update'' (payload_json (toTaskPayload t)) (now E) (next_version (store s3) tid)"
      have s': "tasks (store s') = update_where (\<lambda>r. tr_task_id r = tid) (patch_row p tag) (tasks (store s))"
        "outbox_events (store s') = outbox_events (store s) @ [?e]"
        using s2 s3 committed(1,4) by simp_all
      have row: "find_row (\<lambda>r. tr_task_id r = tid) (tasks (store s)) = Some row"
        using f s3 committed(1) by simp
      have "journal_ok (store s')" if "journal_ok (store s)" "db_ok (store s')"
      proof -
        have "patch_row p tag row \<in> set (tasks (store s'))"
          using find_row_Some [OF row] by (auto simp: s'(1) set_update_where)
        with that(2) have "status_check (tr_status (patch_row p tag row))"
          by (auto simp: db_ok_def schema_ok_def)
        then show ?thesis
          unfolding s' using that(1) row update_tells [OF t] by (intro journal_update) simp_all
      qed
      with db_inv.keepsD [OF repo_Update_db_ok run] s'(2) show ?thesis by (auto simp: journal_le_def)
    qed
  qed
qed

subsection \<open>Deleting\<close>

lemma delete_grows:
  assumes "tasks d' = filter (\<lambda>r. tr_task_id r \<notin> X) (tasks d)"
    and "outbox_events d' = outbox_events d @ evs"
    and "\<And>e. e \<in> set evs \<Longrightarrow> ob_aggregate_type e = ''task'' \<and> ob_event_type e = ''deleted''"
    and "ob_aggregate_id ` set evs = X \<inter> tr_task_id ` set (tasks d)"
  shows "grows d d'"
  using journal_remove [OF _ assms(3,4)] assms(1,2) by (simp add: grows_def)

lemma delete_sql_grows:
  assumes "delete_sql E i o' d = Inr (n, d')"
  shows "grows d d'"
proof -
  obtain tid oid where d': "d' = (delete_tasks (\<lambda>r. tr_task_id r = tid) d)
       \<lparr>outbox_events := outbox_events d
          @ map (delete_event E oid) (filter (\<lambda>r. tr_task_id r = tid) (tasks d))\<rparr>"
    using assms by (auto simp: delete_sql_def Let_def delete_tasks_def dest!: ins_all_outbox)
  show ?thesis
    by (rule delete_grows [where X = "{tid}"])
      (auto simp: d' delete_tasks_def delete_event_def image_image image_iff, blast)
qed

lemma delete_events_facts:
  "e \<in> set (delete_events E n rs) \<Longrightarrow> ob_aggregate_type e = ''task'' \<and> ob_event_type e = ''deleted''"
  "ob_aggregate_id ` set (delete_events E n rs) = tr_task_id ` set rs"
  by (induction rs arbitrary: n) (auto simp: delete_event_def)

lemma delete_batch_sql_grows:
  assumes "delete_batch_sql E n ids d = Inr (x, d')"
  shows "grows d d'"
proof -
  obtain tids where d': "d' = (delete_tasks (\<lambda>r. tr_task_id r \<in> set tids) d)
       \<lparr>outbox_events := outbox_events d
          @ delete_events E n (filter (\<lambda>r. tr_task_id r \<in> set tids) (tasks d))\<rparr>"
    using assms by (auto simp: delete_batch_sql_def Let_def delete_tasks_def dest!: ins_all_outbox)
  show ?thesis
    by (rule delete_grows [where X = "set tids" and evs = "delete_events E n _", OF _ _ delete_events_facts(1)])
      (simp_all only: delete_events_facts(2), auto simp: d' delete_tasks_def)
qed

lemma repo_Delete_journal: "journal.keeps (repo_Delete E i)" "journal.keeps (repo_DeleteBatch E ids)"
proof -
  have "growth.keeps (repo_Delete E i)"
    unfolding repo_Delete_def Let_def
    by (intro growth.cond growth.fresh_id growth.bind growth.wrap growth.ret growth.run)
      (rule delete_sql_grows)
  with repo_Delete_db_ok show "journal.keeps (repo_Delete E i)" by (rule journal_keeps)
  have "growth.keeps (repo_DeleteBatch E ids)"
    unfolding repo_DeleteBatch_def Let_def
    by (intro growth.cond growth.fresh_ids growth.wrap growth.ret growth.run) (rule delete_batch_sql_grows)
  with repo_DeleteBatch_db_ok show "journal.keeps (repo_DeleteBatch E ids)" by (rule journal_keeps)
qed

subsection \<open>Everything else\<close>

text \<open>Statements on other tables, and on columns no event tells.\<close>

lemma told_update:
  "(\<And>r. told (f r) = told r) \<Longrightarrow> map told (update_where P f ts) = map told ts"
  by (rule map_update_where) simp

lemmas growth_rules = growth.cond growth.fresh_id growth.fresh_ids growth.bind growth.wrap growth.ret
  growth.query growth.run growth.pair

lemma subtask_operations_grow:
  "growth.keeps (repo_CreateSubtasks E i ss)" "growth.keeps (repo_CreateSubtask E i u ti)"
  "growth.keeps (repo_ToggleDone E i u)" "growth.keeps (repo_DeleteSubtask E i u)"
  "growth.keeps (repo_UpdateSubtask E i u ti)"
  unfolding repo_CreateSubtasks_def repo_CreateSubtask_def repo_ToggleDone_def repo_DeleteSubtask_def
    repo_UpdateSubtask_def Let_def
  by (intro growth_rules; rule view_grows;
      auto simp: create_subtasks_sql_def create_subtask_sql_def toggle_done_sql_def delete_subtask_sql_def
        update_subtask_sql_def Let_def split: if_splits option.splits dest!: ins_subtask_Inr ins_all_subtask)+

lemma admin_operations_grow:
  "growth.keeps (repo_AdminSoftDelete E i)" "growth.keeps (repo_AcknowledgeAdminDeletion E i u)"
  "growth.keeps (repo_AdminRestore E i)" "growth.keeps (repo_AdminSoftDeleteShared E i)"
  "growth.keeps (repo_AcknowledgeAdminDeletionShared E i u)" "growth.keeps (repo_AdminRestoreShared E i)"
  unfolding repo_AdminSoftDelete_def repo_AcknowledgeAdminDeletion_def repo_AdminRestore_def
    repo_AdminSoftDeleteShared_def repo_AcknowledgeAdminDeletionShared_def repo_AdminRestoreShared_def
  by (intro growth_rules; rule view_grows;
      auto simp: admin_soft_delete_sql_def ack_deletion_sql_def restore_update_sql_def
        admin_soft_delete_shared_sql_def ack_deletion_shared_sql_def restore_update_shared_sql_def
        Let_def told_def split: option.splits intro!: told_update)+

interpretation journal: task_repository journal_le
  by unfold_locales
    (fact repo_Create_journal repo_CreateBatch_journal repo_Update_journal repo_Delete_journal
        journal_keeps [OF repo_CreateSubtasks_db_ok subtask_operations_grow(1)]
        journal_keeps [OF repo_CreateSubtask_db_ok subtask_operations_grow(2)]
        journal_keeps [OF repo_ToggleDone_db_ok subtask_operations_grow(3)]
        journal_keeps [OF repo_DeleteSubtask_db_ok subtask_operations_grow(4)]
        journal_keeps [OF repo_UpdateSubtask_db_ok subtask_operations_grow(5)]
        journal_keeps [OF repo_AdminSoftDelete_db_ok admin_operations_grow(1)]
        journal_keeps [OF repo_AcknowledgeAdminDeletion_db_ok admin_operations_grow(2)]
        journal_keeps [OF repo_AdminRestore_db_ok admin_operations_grow(3)]
        journal_keeps [OF repo_AdminSoftDeleteShared_db_ok admin_operations_grow(4)]
        journal_keeps [OF repo_AcknowledgeAdminDeletionShared_db_ok admin_operations_grow(5)]
        journal_keeps [OF repo_AdminRestoreShared_db_ok admin_operations_grow(6)])+

lemma subscription_operations_grow:
  "growth.keeps (repo_UpsertSubscription E sub)" "growth.keeps (repo_MarkReminderSent E i w)"
  unfolding repo_UpsertSubscription_def repo_MarkReminderSent_def Let_def
  by (intro growth_rules; rule view_grows;
      auto simp: upsert_subscription_sql_def mark_sent_sql_def Let_def told_def set_sent_at_def
        split: option.splits if_splits intro!: told_update)+

interpretation journal: subscription_repository journal_le
  by unfold_locales
    (fact journal_keeps [OF repo_UpsertSubscription_db_ok subscription_operations_grow(1)]
        journal_keeps [OF repo_MarkReminderSent_db_ok subscription_operations_grow(2)])+

interpretation journal: outbox_repository journal_le
proof unfold_locales
  have core: "core (r\<lparr>ob_processed_at := p\<rparr>) = core r" "core (bump_row m r) = core r" for r p m
    by (simp_all add: core_def bump_row_def)
  have "growth.keeps (repo_MarkBatchAsProcessed E ids)" for E ids
    unfolding repo_MarkBatchAsProcessed_def
    by (rule growth.run, rule view_grows) (auto simp: mark_batch_sql_def core intro!: map_update_where)
  with repo_MarkBatchAsProcessed_db_ok show "journal.keeps (repo_MarkBatchAsProcessed E ids)" for E ids
    by (rule journal_keeps)
  have "growth.keeps (repo_MarkAsFailed E i m)" for E i m
    by (rule growth.keeps_MarkAsFailed, rule view_grows)
      (auto simp: mark_failed_sql_def Let_def core split: if_splits intro!: map_update_where)
  with db_inv.keeps_repo_MarkAsFailed show "journal.keeps (repo_MarkAsFailed E i m)" for E i m
    by (rule journal_keeps)
qed

lemma shared_statements_other:
  "insert_shared_sql E n p a ti de pr du d = Inr (newID, d') \<Longrightarrow> tasks d' = tasks d \<and> outbox_events d' = outbox_events d"
  "insert_shared_subtask_sql E n i sub k d = Inr (x, d') \<Longrightarrow> tasks d' = tasks d \<and> outbox_events d' = outbox_events d"
  "respond_sql E i u st d = Inr (m, d') \<Longrightarrow> tasks d' = tasks d \<and> outbox_events d' = outbox_events d"
  "update_shared_sql E i u inp d = Inr (m, d') \<Longrightarrow> tasks d' = tasks d \<and> outbox_events d' = outbox_events d"
  "counter_sql E i u inp d = Inr (m, d') \<Longrightarrow> tasks d' = tasks d \<and> outbox_events d' = outbox_events d"
  "clear_subtasks_sql E i d = Inr (x, d') \<Longrightarrow> tasks d' = tasks d \<and> outbox_events d' = outbox_events d"
  "delete_shared_sql E i u d = Inr (m, d') \<Longrightarrow> tasks d' = tasks d \<and> outbox_events d' = outbox_events d"
  "toggle_shared_sql E i u d = Inr (row, d') \<Longrightarrow> tasks d' = tasks d \<and> outbox_events d' = outbox_events d"
  by (auto simp: insert_shared_sql_def insert_shared_subtask_sql_def respond_sql_def update_shared_sql_def
      counter_sql_def clear_subtasks_sql_def delete_shared_sql_def toggle_shared_sql_def Let_def
      split: option.splits)

interpretation journal: shared_task_repository journal_le
  by unfold_locales
    (rule other_tables, erule db_inv.insert_shared db_inv.insert_shared_subtask db_inv.update_shared
        db_inv.counter db_inv.clear_subtasks db_inv.delete_shared db_inv.toggle_shared
        | rule other_tables, erule (1) db_inv.respond | simp add: shared_statements_other)+

interpretation journal: tag_repository journal_le
  by unfold_locales
    (rule other_tables, erule db_inv.create_tag db_inv.rename_tag db_inv.delete_tag;
      auto simp: create_tag_sql_def rename_tag_sql_def delete_tag_sql_def Let_def split: if_splits
        dest!: ins_custom_tag_Inr)+

section \<open>Events are added unmarked\<close>

text \<open>Whatever is no step of the processor only adds events, none of them processed.\<close>

definition adds :: "db \<Rightarrow> db \<Rightarrow> bool" where
  "adds d d' \<longleftrightarrow> (\<exists>es. outbox_events d' = outbox_events d @ es \<and> (\<forall>e \<in> set es. ob_processed_at e = None))"

lemma same_adds: "outbox_events d' = outbox_events d \<Longrightarrow> adds d d'"
  by (simp add: adds_def)

interpretation added: store_rel adds
proof
  show "adds d d" for d by (rule same_adds) simp
  show "adds a b \<Longrightarrow> adds b c \<Longrightarrow> adds a c" for a b c by (fastforce simp: adds_def)
qed

lemmas added_rules = added.tx added.cond added.fresh_id added.fresh_ids added.bind added.wrap added.ret
  added.query added.run added.pair

lemma statements_add:
  "create_tagged_sql E t o' j n d = Inr (x, d') \<Longrightarrow> adds d d'"
  "create_plain_sql E t o' j d = Inr (x, d') \<Longrightarrow> adds d d'"
  "batch_tasks_sql E ts d = Inr (x, d') \<Longrightarrow> adds d d'"
  "update_row_sql E i cs d = Inr (k, d') \<Longrightarrow> adds d d'"
  "update_event_sql E o' i j d = Inr (x, d') \<Longrightarrow> adds d d'"
  "insert_tag_sql i nm u d = Inr (y, d') \<Longrightarrow> adds d d'"
  by (auto simp: adds_def create_tagged_sql_def create_plain_sql_def batch_tasks_sql_def update_row_sql_def
      update_event_sql_def insert_tag_sql_def Let_def split: if_splits
      dest!: ins_task_Inr ins_outbox_Inr resolve_or_insert_tag_Inr ins_all_task ins_custom_tag_Inr)

lemma batch_events_add:
  assumes "batch_events_sql E n ts d = Inr (x, d')"
  shows "adds d d'"
proof -
  obtain es where es: "batch_events E n ts = Inr es" and "ins_all ins_outbox es d = Inr d'"
    using assms by (auto simp: batch_events_sql_def)
  from ins_all_outbox [OF this(2)] batch_events_fields [OF es] show ?thesis
    by (auto simp: adds_def list_all_iff)
qed

lemma deletions_add:
  "delete_sql E i o' d = Inr (k, d') \<Longrightarrow> adds d d'"
  "delete_batch_sql E n ids d = Inr (x, d') \<Longrightarrow> adds d d'"
proof -
  have "e \<in> set (delete_events E n rs) \<Longrightarrow> ob_processed_at e = None" for e rs
    by (induction rs arbitrary: n) (auto simp: delete_event_def)
  then show "delete_batch_sql E n ids d = Inr (x, d') \<Longrightarrow> adds d d'"
    by (auto simp: adds_def delete_batch_sql_def Let_def delete_tasks_def dest!: ins_all_outbox)
  show "delete_sql E i o' d = Inr (k, d') \<Longrightarrow> adds d d'"
    by (auto simp: adds_def delete_sql_def Let_def delete_tasks_def delete_event_def dest!: ins_all_outbox)
qed

lemma resolve_tag_adds: "added.keeps (resolve_tag E i n)"
  unfolding resolve_tag_def Let_def by (intro added_rules) (erule statements_add)

lemma task_operations_add:
  "added.keeps (repo_Create E t)" "added.keeps (repo_CreateBatch E ts)"
  "added.keeps (repo_Delete E i)" "added.keeps (repo_DeleteBatch E ids)"
  unfolding repo_Create_def repo_CreateBatch_def create_batch_body_def repo_Delete_def repo_DeleteBatch_def Let_def
  by (intro added_rules; erule statements_add batch_events_add deletions_add)+

lemma update_adds: "added.keeps (repo_Update E i p)"
proof -
  have fin: "added.keeps (update_finish E i cs)" for cs
    unfolding update_finish_def Let_def by (intro added_rules; erule statements_add)
  have "added.keeps (update_body E i p)"
    by (cases "p_TagName p")
      (auto simp: update_body_def [abs_def] intro!: added.cond added.bind added.ret resolve_tag_adds fin)
  then show ?thesis
    unfolding repo_Update_def by (intro added.cond added.ret added.tx)
qed

lemma other_operations_add:
  "added.keeps (repo_CreateSubtasks E i ss)" "added.keeps (repo_CreateSubtask E i u ti)"
  "added.keeps (repo_ToggleDone E i u)" "added.keeps (repo_DeleteSubtask E i u)"
  "added.keeps (repo_UpdateSubtask E i u ti)"
  "added.keeps (repo_AdminSoftDelete E i)" "added.keeps (repo_AcknowledgeAdminDeletion E i u)"
  "added.keeps (repo_AdminRestore E i)" "added.keeps (repo_AdminSoftDeleteShared E i)"
  "added.keeps (repo_AcknowledgeAdminDeletionShared E i u)" "added.keeps (repo_AdminRestoreShared E i)"
  "added.keeps (repo_UpsertSubscription E sub)" "added.keeps (repo_MarkReminderSent E i w)"
  unfolding repo_CreateSubtasks_def repo_CreateSubtask_def repo_ToggleDone_def repo_DeleteSubtask_def
    repo_UpdateSubtask_def repo_AdminSoftDelete_def repo_AcknowledgeAdminDeletion_def repo_AdminRestore_def
    repo_AdminSoftDeleteShared_def repo_AcknowledgeAdminDeletionShared_def repo_AdminRestoreShared_def
    repo_UpsertSubscription_def repo_MarkReminderSent_def Let_def
  by (intro added_rules; rule same_adds;
      auto simp: create_subtasks_sql_def create_subtask_sql_def toggle_done_sql_def delete_subtask_sql_def
        update_subtask_sql_def admin_soft_delete_sql_def ack_deletion_sql_def restore_update_sql_def
        admin_soft_delete_shared_sql_def ack_deletion_shared_sql_def restore_update_shared_sql_def
        upsert_subscription_sql_def mark_sent_sql_def Let_def
        split: if_splits option.splits dest!: ins_subtask_Inr ins_all_subtask)+

interpretation added: task_repository adds
  by unfold_locales (fact task_operations_add update_adds other_operations_add)+

interpretation added: subscription_repository adds
  by unfold_locales (fact other_operations_add)+

interpretation added: shared_task_repository adds
  by unfold_locales (rule same_adds, simp add: shared_statements_other)+

interpretation added: tag_repository adds
  by unfold_locales
    (rule same_adds, auto simp: create_tag_sql_def rename_tag_sql_def delete_tag_sql_def Let_def split: if_splits
      dest!: ins_custom_tag_Inr)+

end
