(* ===== verification/System.thy ===== *)
theory System
  imports Routes Clients Journal
begin

text \<open>
  The running service as \<open>cmd/main.go\<close> puts it together: the three handlers behind one router,
  the batch processor, the outbox processor and the reminder worker, over one database, one
  cache, one broker, one gateway and one users' service. An activity is one request, or one
  step of one of the goroutines; a run is any sequence of them, each at the time and with the
  environment it happens in.
\<close>

section \<open>State and activities\<close>

text \<open>
  \<open>sy_guard\<close> is the breaker with the limiters, \<open>sy_tag_jobs\<close> are the goroutines the handlers of
  tags start.
\<close>

record ('g, 'r) system =
  sy_guard :: 'g
  sy_app :: "'r app"
  sy_tag_jobs :: "tag_op list list"
  sy_kafka :: kafka_client
  sy_gateway :: gateway
  sy_users :: peer

datatype activity =
    TaskRequest task_call
  | SharedRequest shared_call
  | TagRequest tag_call
  | CreateLoop choice
  | DeleteLoop choice
  | CancelContext
  | BatchJob nat
  | SemaJob nat
  | FreeJob nat
  | TagJob nat
  | SendMessage nat
  | OutboxTick
  | StatsTick
  | ReminderPoll "time \<times> time \<times> time"

text \<open>The next call of the \<open>k\<close>-th goroutine of a list; after its last one it is gone.\<close>

definition take_call :: "nat \<Rightarrow> 'a list list \<Rightarrow> ('a option \<times> 'a list list) option" where
  "take_call k jobs =
     (if k < length jobs
      then Some (case jobs ! k of
             [] \<Rightarrow> (None, take k jobs @ drop (Suc k) jobs)
           | op # ops \<Rightarrow> (Some op, jobs[k := ops]))
      else None)"

definition run_call :: "('a \<Rightarrow> 'r \<Rightarrow> (go_err + unit) \<times> 'r) \<Rightarrow> 'a option \<Rightarrow> 'r app \<Rightarrow> 'r app" where
  "run_call ex op S =
     (case op of None \<Rightarrow> S | Some op \<Rightarrow> snd (on_redis (ex op) S))"

definition batch_event :: "('g, 'r) config \<Rightarrow> env \<Rightarrow> event \<Rightarrow> ('g, 'r) system \<Rightarrow> ('g, 'r) system option" where
  "batch_event C E ev Y =
     map_option (\<lambda>p. Y\<lparr>sy_app := (sy_app Y)\<lparr>ap_proc := p\<rparr>\<rparr>)
       (processor_step (cf_redis C) E ev (ap_proc (sy_app Y)))"

fun activity_step ::
    "('g, 'r) config \<Rightarrow> notify_cfg \<Rightarrow> users_cfg \<Rightarrow> env \<Rightarrow> activity \<Rightarrow> ('g, 'r) system \<Rightarrow> ('g, 'r) system option" where
  "activity_step C N U E (TaskRequest c) Y =
     (case snd (task_Register C E c new_conn (sy_guard Y, sy_app Y)) of
        (g, a) \<Rightarrow> Some (Y\<lparr>sy_guard := g, sy_app := a\<rparr>))"
| "activity_step C N U E (SharedRequest c) Y =
     (case snd (shared_Register C E c new_conn (sy_guard Y, sy_app Y)) of
        (g, a) \<Rightarrow> Some (Y\<lparr>sy_guard := g, sy_app := a\<rparr>))"
| "activity_step C N U E (TagRequest c) Y =
     (case snd (tag_Register C E c new_conn (sy_app Y, sy_tag_jobs Y)) of
        (a, jobs) \<Rightarrow> Some (Y\<lparr>sy_app := a, sy_tag_jobs := jobs\<rparr>))"
| "activity_step C N U E (CreateLoop ch) Y = batch_event C E (CreateWorker ch) Y"
| "activity_step C N U E (DeleteLoop ch) Y = batch_event C E (DeleteWorker ch) Y"
| "activity_step C N U E CancelContext Y = batch_event C E Cancel Y"
| "activity_step C N U E (BatchJob k) Y = batch_event C E (CacheJob k) Y"
| "activity_step C N U E (SemaJob k) Y =
     map_option (\<lambda>(op, jobs).
         Y\<lparr>sy_app := run_call (cache_exec (cf_redis C) (now E)) op ((sy_app Y)\<lparr>ap_sema := jobs\<rparr>)\<rparr>)
       (take_call k (ap_sema (sy_app Y)))"
| "activity_step C N U E (FreeJob k) Y =
     map_option (\<lambda>(op, jobs).
         Y\<lparr>sy_app := run_call (cache_exec (cf_redis C) (now E)) op ((sy_app Y)\<lparr>ap_free := jobs\<rparr>)\<rparr>)
       (take_call k (ap_free (sy_app Y)))"
| "activity_step C N U E (TagJob k) Y =
     map_option (\<lambda>(op, jobs).
         Y\<lparr>sy_app := run_call (tag_exec (cf_redis C) (now E)) op (sy_app Y), sy_tag_jobs := jobs\<rparr>)
       (take_call k (sy_tag_jobs Y))"
| "activity_step C N U E (SendMessage k) Y =
     (let notes = ap_notes (sy_app Y)
      in if k < length notes
         then Some (Y\<lparr>sy_app := (sy_app Y)\<lparr>ap_notes := take k notes @ drop (Suc k) notes\<rparr>,
                     sy_users := deliver U (notes ! k) (sy_users Y)\<rparr>)
         else None)"
| "activity_step C N U E OutboxTick Y =
     (case processor_tick E (pr_pg (ap_proc (sy_app Y)), sy_kafka Y) of
        (s, k) \<Rightarrow> Some (Y\<lparr>sy_app := snd (on_pg (\<lambda>_. ((), s)) (sy_app Y)), sy_kafka := k\<rparr>))"
| "activity_step C N U E StatsTick Y = Some (Y\<lparr>sy_kafka := stats_tick (sy_kafka Y)\<rparr>)"
| "activity_step C N U E (ReminderPoll ts) Y =
     (case reminder_poll E N ts (pr_pg (ap_proc (sy_app Y)), sy_gateway Y) of
        (s, g) \<Rightarrow> Some (Y\<lparr>sy_app := snd (on_pg (\<lambda>_. ((), s)) (sy_app Y)), sy_gateway := g\<rparr>))"

inductive service_run ::
    "('g, 'r) config \<Rightarrow> notify_cfg \<Rightarrow> users_cfg \<Rightarrow> (env \<times> activity) list \<Rightarrow> ('g, 'r) system \<Rightarrow> ('g, 'r) system \<Rightarrow> bool"
  for C N U where
  idle: "service_run C N U [] Y Y"
| act: "service_run C N U acts Y Z \<Longrightarrow> activity_step C N U E a Z = Some Z' \<Longrightarrow>
    service_run C N U (acts @ [(E, a)]) Y Z'"

section \<open>What a step keeps\<close>

text \<open>A handler, wrapped or not, preserves a property of its state.\<close>

definition preserves :: "('s \<Rightarrow> bool) \<Rightarrow> ('w \<Rightarrow> 's \<Rightarrow> 'x \<times> 's) \<Rightarrow> bool" where
  "preserves I h \<longleftrightarrow> (\<forall>w s. I s \<longrightarrow> I (snd (h w s)))"

lemma preservesD: "preserves I h \<Longrightarrow> I s \<Longrightarrow> I (snd (h w s))"
  by (simp add: preserves_def)

lemma preserves_apperror: "preserves I h \<Longrightarrow> preserves I (apperror_Middleware h)"
  by (simp add: preserves_def apperror_state)

lemma preserves_direct: "preserves I h \<Longrightarrow> preserves (I \<circ> snd) (direct h)"
  by (auto simp: preserves_def direct_def split: prod.split) (metis snd_conv)

lemma preserves_signed: "preserves I h \<Longrightarrow> preserves I (signed C E r h)"
  unfolding preserves_def signed_def using signature_Middleware_split by (metis snd_conv)

lemma preserves_list_options:
  "(\<And>fo so. preserves I (h fo so)) \<Longrightarrow> preserves I (list_options r h)"
  by (auto simp: preserves_def list_options_def split: sum.split)

lemma execute_preserves:
  "preserves I h \<Longrightarrow> I s \<Longrightarrow> execute G h (g, s) = (x, g', s') \<Longrightarrow> I s'"
  by (erule execute_cases) (auto simp: preserves_def)

lemma attempts_preserve:
  assumes "preserves I h"
  shows "I s \<Longrightarrow> attempts G h n w (g, s) = (x, g', s') \<Longrightarrow> I s'"
proof (induction n arbitrary: g s)
  case (Suc n)
  obtain v g1 s1 where e: "execute G h (g, s) = (v, g1, s1)" by (metis prod_cases3)
  have "I s1" using execute_preserves [OF assms Suc.prems(1) e] .
  with Suc e show ?case by (auto split: outcome.splits option.splits)
qed simp

lemma preserves_resilience:
  fixes G :: "'g guard" and h :: "('j, 's) http_handler"
  assumes h: "preserves I h"
  shows "preserves (I \<circ> snd) (resilience_Middleware G h)"
  unfolding preserves_def
proof (intro allI impI)
  fix w and gs :: "'g \<times> 's" assume i: "(I \<circ> snd) gs"
  obtain g s where gs: "gs = (g, s)" by force
  obtain ok g1 where a: "g_allow G g = (ok, g1)" by force
  obtain x g' s' where r: "attempts G h maxRetries w (g1, s) = (x, g', s')" by (metis prod_cases3)
  show "(I \<circ> snd) (snd (resilience_Middleware G h w gs))"
    using i attempts_preserve [OF h _ r] r by (cases ok) (simp_all add: resilience_Middleware_def gs a)
qed

lemma preserves_write:
  fixes G :: "'g guard" and h :: "('j, 's) http_handler"
  assumes h: "preserves I h"
  shows "preserves (I \<circ> snd) (resilience_WriteMiddleware G h)"
  unfolding preserves_def
proof (intro allI impI)
  fix w and gs :: "'g \<times> 's" assume i: "(I \<circ> snd) gs"
  obtain g s where gs: "gs = (g, s)" by force
  obtain ok g1 where a: "g_allow G g = (ok, g1)" by force
  obtain x g' s' where e: "execute G h (g1, s) = (x, g', s')" by (metis prod_cases3)
  have "I s" using i gs by simp
  then show "(I \<circ> snd) (snd (resilience_WriteMiddleware G h w gs))"
    using execute_preserves [OF h _ e]
    by (cases ok; cases x) (auto simp: resilience_WriteMiddleware_def gs a e)
qed

lemmas preserves_wrapped = preserves_signed preserves_direct preserves_apperror preserves_resilience
  preserves_write preserves_list_options

lemma preserves_behind: "preserves I h \<Longrightarrow> preserves (I \<circ> snd) (behind C E r h)"
  unfolding behind_def by (intro preserves_wrapped)

lemma preserves_writing: "preserves I h \<Longrightarrow> preserves (I \<circ> snd) (writing C E route r h)"
  unfolding writing_def by (intro preserves_wrapped)

lemma preserves_reading: "preserves I h \<Longrightarrow> preserves (I \<circ> snd) (reading C E route r h)"
  unfolding reading_def by (intro preserves_wrapped)

section \<open>The queues stay bounded\<close>

definition queues_ok :: "'r app \<Rightarrow> bool" where
  "queues_ok S \<longleftrightarrow>
     in_bounds taskChannelSize taskMaxBatch (pr_create (ap_proc S))
     \<and> in_bounds deleteChannelSize deleteMaxBatch (pr_delete (ap_proc S))
     \<and> length (pr_jobs (ap_proc S)) \<le> redisConcurrencyLimit
     \<and> length (ap_sema S) \<le> redisConcurrencyLimit"

lemma moved_queues:
  "on_pg f S = (x, S') \<Longrightarrow> queues_ok S' = queues_ok S"
  "on_redis g S = (y, S') \<Longrightarrow> queues_ok S' = queues_ok S"
  "on_both h S = (z, S') \<Longrightarrow> queues_ok S' = queues_ok S"
  by (auto simp: on_pg_def on_redis_def on_both_def queues_ok_def split: prod.splits)

lemma quiet_queues [simp]:
  "queues_ok (cache_calls R tm ops S) = queues_ok S" "queues_ok (go_free job S) = queues_ok S"
  "queues_ok (notify m S) = queues_ok S"
  "queues_ok (invalidateTaskCache R tm i u S) = queues_ok S"
  "queues_ok (invalidate_pair R tm p a S) = queues_ok S" "queues_ok (notify_pair ws e pl p a S) = queues_ok S"
  "queues_ok (S\<lparr>ap_proc := (ap_proc S)\<lparr>pr_pg := s\<rparr>\<rparr>) = queues_ok S"
proof -
  show c: "queues_ok (cache_calls R tm ops S) = queues_ok S" for ops S
    unfolding cache_calls_def by (metis moved_queues(2) prod.collapse)
  show n: "queues_ok (notify m S) = queues_ok S" for m S by (simp add: notify_def queues_ok_def)
  show "queues_ok (go_free job S) = queues_ok S" by (simp add: go_free_def queues_ok_def)
  show "queues_ok (invalidateTaskCache R tm i u S) = queues_ok S"
    "queues_ok (invalidate_pair R tm p a S) = queues_ok S"
    by (simp_all add: invalidateTaskCache_def invalidate_pair_def Let_def c)
  show "queues_ok (notify_pair ws e pl p a S) = queues_ok S" by (simp add: notify_pair_def Let_def n)
  show "queues_ok (S\<lparr>ap_proc := (ap_proc S)\<lparr>pr_pg := s\<rparr>\<rparr>) = queues_ok S" by (simp add: queues_ok_def)
qed

lemma go_sema_queues [intro]:
  "queues_ok S \<Longrightarrow> queues_ok (go_sema job S)"
  "queues_ok S \<Longrightarrow> queues_ok (invalidateTaskCacheAsync i u S)"
  by (auto simp: invalidateTaskCacheAsync_def go_sema_def queues_ok_def)

lemma enqueue_queues:
  "EnqueueCreate t (ap_proc S) = (ok, p) \<Longrightarrow> queues_ok S \<Longrightarrow> queues_ok (S\<lparr>ap_proc := p\<rparr>)"
  using offer_items [of taskChannelSize t "pr_create (ap_proc S)"]
  by (auto simp: EnqueueCreate_def queues_ok_def split: prod.splits)

lemmas queue_dest = moved_queues enqueue_queues

lemma task_handlers_queues:
  "preserves queues_ok (h_Create R E r1)" "preserves queues_ok (h_Update R E r2)"
  "preserves queues_ok (h_Delete R E r)" "preserves queues_ok (h_FindOne R E r)"
  "preserves queues_ok (h_GetList R E Q fo so r)" "preserves queues_ok (h_GetListByTag R E fo so r)"
  "preserves queues_ok (h_SyncSubscription E r3)" "preserves queues_ok (h_AddSubtask E r4)"
  "preserves queues_ok (h_ToggleTaskSubtask E r)" "preserves queues_ok (h_UpdateTaskSubtask E r4)"
  "preserves queues_ok (h_DeleteTaskSubtask E r)"
  subgoal by (auto simp: preserves_def h_Create_def Let_def split: prod.split sum.split bool.split dest!: queue_dest)
  subgoal by (auto simp: preserves_def h_Update_def Let_def split: prod.split sum.split outcome.split dest!: queue_dest)
  subgoal by (auto simp: preserves_def h_Delete_def Let_def split: prod.split sum.split dest!: queue_dest)
  subgoal by (auto simp: preserves_def h_FindOne_def Let_def split: prod.split sum.split dest!: queue_dest)
  subgoal by (auto simp: preserves_def h_GetList_def Let_def split: prod.split sum.split outcome.split dest!: queue_dest)
  subgoal by (auto simp: preserves_def h_GetListByTag_def Let_def split: prod.split sum.split dest!: queue_dest)
  subgoal by (auto simp: preserves_def h_SyncSubscription_def Let_def split: prod.split sum.split dest!: queue_dest)
  subgoal by (auto simp: preserves_def h_AddSubtask_def Let_def split: prod.split sum.split option.split dest!: queue_dest)
  subgoal by (auto simp: preserves_def h_ToggleTaskSubtask_def Let_def split: prod.split sum.split dest!: queue_dest)
  subgoal by (auto simp: preserves_def h_UpdateTaskSubtask_def Let_def split: prod.split sum.split option.split dest!: queue_dest)
  subgoal by (auto simp: preserves_def h_DeleteTaskSubtask_def Let_def split: prod.split sum.split dest!: queue_dest)
  done

lemma admin_handlers_queues:
  "preserves queues_ok (h_AdminDeleteTask R E ws r)" "preserves queues_ok (h_AdminDeleteSharedTask R E ws r)"
  "preserves queues_ok (h_AcknowledgeAdminDeletion R E r)"
  "preserves queues_ok (h_AcknowledgeAdminDeletionShared R E r)"
  "preserves queues_ok (h_AdminRestoreTask R E ws r)" "preserves queues_ok (h_AdminRestoreSharedTask R E ws r)"
  "preserves queues_ok (h_AdminGetAllTasks E r)"
  subgoal by (auto simp: preserves_def h_AdminDeleteTask_def Let_def split: prod.split sum.split dest!: queue_dest)
  subgoal by (auto simp: preserves_def h_AdminDeleteSharedTask_def Let_def split: prod.split sum.split dest!: queue_dest)
  subgoal by (auto simp: preserves_def h_AcknowledgeAdminDeletion_def Let_def split: prod.split sum.split dest!: queue_dest)
  subgoal by (auto simp: preserves_def h_AcknowledgeAdminDeletionShared_def Let_def split: prod.split sum.split dest!: queue_dest)
  subgoal by (auto simp: preserves_def h_AdminRestoreTask_def Let_def split: prod.split sum.split dest!: queue_dest)
  subgoal by (auto simp: preserves_def h_AdminRestoreSharedTask_def Let_def split: prod.split sum.split dest!: queue_dest)
  subgoal by (auto simp: preserves_def h_AdminGetAllTasks_def Let_def split: prod.split sum.split dest!: queue_dest)
  done

lemma shared_handlers_queues:
  "preserves queues_ok (sh_GetList E r)" "preserves queues_ok (sh_Propose E subs r1)"
  "preserves queues_ok (sh_GetByID E r)" "preserves queues_ok (sh_Accept E r)"
  "preserves queues_ok (sh_Reject E r)" "preserves queues_ok (sh_Update E msgs r2)"
  "preserves queues_ok (sh_Delete E msgs r)" "preserves queues_ok (sh_ToggleSubtaskDone E r)"
  "preserves queues_ok (sh_AdminGetAllSharedTasks E r)"
  subgoal by (auto simp: preserves_def sh_GetList_def Let_def split: prod.split sum.split dest!: queue_dest)
  subgoal by (auto simp: preserves_def sh_Propose_def hasActiveSubscription_def Let_def split: prod.split sum.split dest!: queue_dest)
  subgoal by (auto simp: preserves_def sh_GetByID_def Let_def split: prod.split sum.split option.split dest!: queue_dest)
  subgoal by (auto simp: preserves_def sh_Accept_def Let_def split: prod.split sum.split dest!: queue_dest)
  subgoal by (auto simp: preserves_def sh_Reject_def Let_def split: prod.split sum.split dest!: queue_dest)
  subgoal by (auto simp: preserves_def sh_Update_def Let_def split: prod.split sum.split option.split dest!: queue_dest)
  subgoal by (auto simp: preserves_def sh_Delete_def Let_def split: prod.split sum.split dest!: queue_dest)
  subgoal by (auto simp: preserves_def sh_ToggleSubtaskDone_def Let_def split: prod.split sum.split dest!: queue_dest)
  subgoal by (auto simp: preserves_def sh_AdminGetAllSharedTasks_def Let_def split: prod.split sum.split dest!: queue_dest)
  done

lemma tag_handlers_queues:
  "queues_ok S \<Longrightarrow> queues_ok (fst (snd (th_CreateTag E r1 w (S, jobs))))"
  "queues_ok S \<Longrightarrow> queues_ok (fst (snd (th_UpdateTag E r1 w (S, jobs))))"
  "queues_ok S \<Longrightarrow> queues_ok (fst (snd (th_Delete E r w (S, jobs))))"
  "queues_ok S \<Longrightarrow> queues_ok (fst (snd (th_GetList R E r w (S, jobs))))"
  "queues_ok S \<Longrightarrow> queues_ok (fst (snd (th_FindOne R E r w (S, jobs))))"
  subgoal by (auto simp: th_CreateTag_def Let_def split: prod.split sum.split dest!: queue_dest)
  subgoal by (auto simp: th_UpdateTag_def Let_def split: prod.split sum.split dest!: queue_dest)
  subgoal by (auto simp: th_Delete_def Let_def split: prod.split sum.split dest!: queue_dest)
  subgoal by (auto simp: th_GetList_def Let_def split: prod.split sum.split list.split dest!: queue_dest)
  subgoal by (auto simp: th_FindOne_def Let_def split: prod.split sum.split option.split dest!: queue_dest)
  done

lemma processor_step_queues:
  assumes "processor_step R E ev p = Some p'" and "queues_ok (S\<lparr>ap_proc := p\<rparr>)"
  shows "queues_ok (S\<lparr>ap_proc := p'\<rparr>)"
proof (cases ev)
  case (PutCreate t)
  with assms show ?thesis
    using enqueue_queues [of t "S\<lparr>ap_proc := p\<rparr>"] by (cases "EnqueueCreate t p") auto
next
  case (PutDelete i u)
  with assms show ?thesis
    using offer_items [of deleteChannelSize "\<lparr>di_ID = i, di_UserID = u\<rparr>" "pr_delete p"]
    by (auto simp: EnqueueDelete_def queues_ok_def split: prod.splits)
next
  case Cancel
  with assms show ?thesis by (auto simp: queues_ok_def)
next
  case (CreateWorker c)
  then obtain w bs s jobs where w: "worker_step taskMaxBatch (pr_cancelled p) c (pr_create p) = Some (w, bs)"
    and f: "fold (flushCreate E) bs (pr_pg p, pr_jobs p) = (s, jobs)"
    and p': "p' = p\<lparr>pr_create := w, pr_pg := s, pr_jobs := jobs\<rparr>"
    using assms(1) by (auto simp: runCreateWorker_def split: option.splits prod.splits)
  show ?thesis using assms(2) worker_step_items(3) [OF w] flushes_jobs(1) [OF f]
    by (auto simp: queues_ok_def p')
next
  case (DeleteWorker c)
  then obtain w bs s jobs where w: "worker_step deleteMaxBatch (pr_cancelled p) c (pr_delete p) = Some (w, bs)"
    and f: "fold (flushDelete E) bs (pr_pg p, pr_jobs p) = (s, jobs)"
    and p': "p' = p\<lparr>pr_delete := w, pr_pg := s, pr_jobs := jobs\<rparr>"
    using assms(1) by (auto simp: runDeleteWorker_def split: option.splits prod.splits)
  show ?thesis using assms(2) worker_step_items(3) [OF w] flushes_jobs(2) [OF f]
    by (auto simp: queues_ok_def p')
next
  case (CacheJob k)
  with assms show ?thesis by (auto simp: job_step_def queues_ok_def split: if_splits list.splits)
qed

lemma take_call_length: "take_call k jobs = Some (op, jobs') \<Longrightarrow> length jobs' \<le> length jobs"
  by (auto simp: take_call_def split: if_splits list.splits)

section \<open>What a run does to the tables\<close>

text \<open>
  A relation between tables that the repositories behind the handlers satisfy is satisfied by every
  step but those of the outbox processor, as long as the queues are bounded; one that the outbox
  repository satisfies too, by every run of the service.
\<close>

locale requests = task_service R + shared_task_service R + tag_repository R
  for R :: "db \<Rightarrow> db \<Rightarrow> bool"
begin

definition kept :: "db \<Rightarrow> 'r app \<Rightarrow> bool" where
  "kept d S \<longleftrightarrow> R d (app_db S) \<and> queues_ok S"

lemma keptI: "h_keeps h \<Longrightarrow> preserves queues_ok h \<Longrightarrow> preserves (kept d) h"
  by (simp add: kept_def preserves_def h_keepsD)

lemma task_Register_kept: "preserves (kept d \<circ> snd) (task_Register C E c)"
  by (cases c; simp; intro preserves_behind preserves_writing preserves_reading preserves_list_options
      preserves_apperror keptI keeps_task_handlers task_handlers_queues admin_handlers_queues)

lemma shared_Register_kept: "preserves (kept d \<circ> snd) (shared_Register C E c)"
  by (cases c; simp; intro preserves_behind keptI keeps_shared_handlers shared_handlers_queues)

lemma tag_Register_kept:
  assumes "kept d S"
  shows "kept d (fst (snd (tag_Register C E c w (S, jobs))))"
proof -
  have "R (app_db S) (app_db (fst (snd (tag_Register C E c w (S, jobs)))))"
    by (cases c) (simp_all add: apperror_state keeps_tag_handlers [unfolded tag_keeps_def, rule_format])
  moreover have "queues_ok (fst (snd (tag_Register C E c w (S, jobs))))"
    using assms by (cases c) (simp_all add: kept_def apperror_state tag_handlers_queues)
  ultimately show ?thesis using assms by (auto simp: kept_def intro: R_trans)
qed

lemma batch_event_kept:
  assumes "batch_event C E ev Y = Some Z" and "kept d (sy_app Y)"
  shows "kept d (sy_app Z)"
proof -
  obtain p where p: "processor_step (cf_redis C) E ev (ap_proc (sy_app Y)) = Some p"
    and Z: "Z = Y\<lparr>sy_app := (sy_app Y)\<lparr>ap_proc := p\<rparr>\<rparr>"
    using assms(1) by (auto simp: batch_event_def)
  show ?thesis
    using processor_step_keeps [OF p] processor_step_queues [OF p, of "sy_app Y"] assms(2)
    by (auto simp: kept_def Z intro: R_trans)
qed

lemma run_call_kept: "kept d S \<Longrightarrow> kept d (run_call ex op S)"
  by (auto simp: run_call_def kept_def on_redis_def queues_ok_def split: option.split prod.split)

lemma stored_kept:
  "kept d S \<Longrightarrow> R (app_db S) (store s) \<Longrightarrow> kept d (snd (on_pg (\<lambda>_. ((), s)) S))"
  by (auto simp: on_pg_def kept_def queues_ok_def intro: R_trans)

lemma other_step_kept:
  assumes "activity_step C N U E a Y = Some Z" and ok: "kept d (sy_app Y)" and "a \<noteq> OutboxTick"
  shows "kept d (sy_app Z)"
proof (cases a)
  case (TaskRequest c)
  with assms show ?thesis
    using preservesD [OF task_Register_kept, of d "(sy_guard Y, sy_app Y)" C E c new_conn]
    by (auto split: prod.splits)
next
  case (SharedRequest c)
  with assms show ?thesis
    using preservesD [OF shared_Register_kept, of d "(sy_guard Y, sy_app Y)" C E c new_conn]
    by (auto split: prod.splits)
next
  case (TagRequest c)
  with assms show ?thesis
    using tag_Register_kept [OF ok, of C E c new_conn "sy_tag_jobs Y"] by (auto split: prod.splits)
next
  case (SemaJob k)
  then obtain op jobs where j: "take_call k (ap_sema (sy_app Y)) = Some (op, jobs)"
    and Z: "Z = Y\<lparr>sy_app := run_call (cache_exec (cf_redis C) (now E)) op ((sy_app Y)\<lparr>ap_sema := jobs\<rparr>)\<rparr>"
    using assms(1) by auto
  have "kept d ((sy_app Y)\<lparr>ap_sema := jobs\<rparr>)"
    using ok take_call_length [OF j] by (simp add: kept_def queues_ok_def)
  then show ?thesis by (simp add: Z run_call_kept)
next
  case (FreeJob k)
  then obtain op jobs where Z: "Z = Y\<lparr>sy_app := run_call (cache_exec (cf_redis C) (now E)) op ((sy_app Y)\<lparr>ap_free := jobs\<rparr>)\<rparr>"
    using assms(1) by auto
  have "kept d ((sy_app Y)\<lparr>ap_free := jobs\<rparr>)" using ok by (simp add: kept_def queues_ok_def)
  then show ?thesis by (simp add: Z run_call_kept)
next
  case (TagJob k)
  with assms show ?thesis by (auto simp: run_call_kept)
next
  case (SendMessage k)
  with assms show ?thesis by (auto simp: kept_def queues_ok_def Let_def split: if_splits)
next
  case (ReminderPoll ts)
  obtain s g where t: "reminder_poll E N ts (pr_pg (ap_proc (sy_app Y)), sy_gateway Y) = (s, g)" by force
  with ReminderPoll assms(1) show ?thesis
    using stored_kept [OF ok reminder_poll_keeps [OF t]] by auto
qed (use assms batch_event_kept in auto)

end

locale service = requests R + outbox_repository R
  for R :: "db \<Rightarrow> db \<Rightarrow> bool"
begin

lemma activity_step_kept:
  assumes "activity_step C N U E a Y = Some Z" and ok: "kept d (sy_app Y)"
  shows "kept d (sy_app Z)"
proof (cases "a = OutboxTick")
  case True
  obtain s k where t: "processor_tick E (pr_pg (ap_proc (sy_app Y)), sy_kafka Y) = (s, k)" by force
  with True assms(1) show ?thesis
    using stored_kept [OF ok processor_tick_keeps [OF t]] by auto
qed (use assms other_step_kept in blast)

lemma service_run_kept:
  "service_run C N U acts Y Z \<Longrightarrow> kept d (sy_app Y) \<Longrightarrow> kept d (sy_app Z)"
  by (induction rule: service_run.induct) (auto dest: activity_step_kept)

lemma service_run_keeps:
  "service_run C N U acts Y Z \<Longrightarrow> queues_ok (sy_app Y) \<Longrightarrow>
     R (app_db (sy_app Y)) (app_db (sy_app Z)) \<and> queues_ok (sy_app Z)"
  using service_run_kept [of C N U acts Y Z "app_db (sy_app Y)"] by (simp add: kept_def R_refl)

end

section \<open>The invariant of the service\<close>

interpretation db_inv: service "\<lambda>d d'. db_ok d \<longrightarrow> db_ok d'"
  by unfold_locales

text \<open>C7: the service keeps its state well-formed. Along any run, that is under any requests,
  signed or not, any interleaving with the steps of the batch workers, the cache goroutines,
  the outbox processor and the reminder worker, any clock and any failures of database, cache,
  broker and gateway, the tables keep every constraint of the schema, acknowledgements only
  of deleted tasks, the three states of shared tasks and gap-free versions of the events of a
  task; both channels stay within 10000 items, the collected batches below 500, and at most
  500 goroutines run under each semaphore.\<close>

theorem service_keeps_well_formed:
  assumes "service_run C N U acts Y Z"
    and "db_ok (app_db (sy_app Y))" and "queues_ok (sy_app Y)"
  shows "schema_ok (app_db (sy_app Z)) \<and> acks_ok (app_db (sy_app Z))
    \<and> shared_status_ok (app_db (sy_app Z)) \<and> versions_ok (app_db (sy_app Z))
    \<and> length (w_ch (pr_create (ap_proc (sy_app Z)))) \<le> 10000
    \<and> length (w_ch (pr_delete (ap_proc (sy_app Z)))) \<le> 10000
    \<and> length (w_batch (pr_create (ap_proc (sy_app Z)))) < 500
    \<and> length (w_batch (pr_delete (ap_proc (sy_app Z)))) < 500
    \<and> length (pr_jobs (ap_proc (sy_app Z))) \<le> 500 \<and> length (ap_sema (sy_app Z)) \<le> 500"
  using db_inv.service_run_keeps [OF assms(1,3)] assms(2)
  by (auto simp: db_ok_def queues_ok_def in_bounds_def)

definition sample_system :: "(unit, server) system" where
  "sample_system = \<lparr>sy_guard = (), sy_app = sample_app, sy_tag_jobs = [], sy_kafka = sample_kafka,
     sy_gateway = sample_gateway, sy_users = \<lparr>pe_replies = [], pe_received = []\<rparr>\<rparr>"

definition sample_users :: users_cfg where
  "sample_users = \<lparr>us_host = ''users'', us_port = ''8001'', us_url_ok = (\<lambda>u. True)\<rparr>"

text \<open>A task is posted, and the worker takes it off the channel.\<close>

theorem service_keeps_well_formed_witness:
  "\<exists>Z. service_run sample_config sample_notify sample_users
         [(sample_env, TaskRequest (PostTasks sample_create_request)), (sample_env, CreateLoop Receive)]
         sample_system Z
     \<and> length (w_batch (pr_create (ap_proc (sy_app Z)))) = 1 \<and> schema_ok (app_db (sy_app Z))"
proof -
  let ?c = "PostTasks sample_create_request"
  obtain w S1 where post: "task_Register sample_config sample_env ?c new_conn ((), sample_app) = (Ret w, (), S1)"
    and st: "status_of w = 202"
    using sample_posted by blast
  have new: "pr_create (ap_proc sample_app) = new_worker" by (simp add: sample_app_def new_processor_def)
  have "writing sample_config sample_env (task_route ?c) sample_create_request
      (h_Create (cf_redis sample_config) sample_env sample_create_request) new_conn ((), sample_app) = (Ret w, (), S1)"
    using post by simp
  from create_route_end [OF this] st obtain t where t: "pr_create (ap_proc S1) = new_worker\<lparr>w_ch := [t]\<rparr>"
    by (auto simp: create_end_def new new_worker_def)
  let ?p = "(ap_proc S1)\<lparr>pr_create := new_worker\<lparr>w_batch := [t]\<rparr>\<rparr>"
  let ?Y = "sample_system\<lparr>sy_app := S1\<rparr>" and ?Z = "sample_system\<lparr>sy_app := S1\<lparr>ap_proc := ?p\<rparr>\<rparr>"
  have 1: "activity_step sample_config sample_notify sample_users sample_env (TaskRequest ?c) sample_system = Some ?Y"
    using post by (simp add: sample_system_def)
  have "worker_step taskMaxBatch (pr_cancelled (ap_proc S1)) Receive (pr_create (ap_proc S1))
      = Some (new_worker\<lparr>w_batch := [t]\<rparr>, [])"
    by (simp add: worker_step_def receive_def t new_worker_def)
  then have 2: "activity_step sample_config sample_notify sample_users sample_env (CreateLoop Receive) ?Y = Some ?Z"
    by (simp add: batch_event_def runCreateWorker_def)
  have run: "service_run sample_config sample_notify sample_users
      ([] @ [(sample_env, TaskRequest ?c)] @ [(sample_env, CreateLoop Receive)]) sample_system ?Z"
    unfolding append_assoc [symmetric]
    by (rule service_run.act [OF service_run.act [OF service_run.idle 1] 2])
  have ok: "db_ok (app_db (sy_app sample_system))" "queues_ok (sy_app sample_system)"
    by (simp_all add: sample_system_def sample_app_def new_processor_def queues_ok_def in_bounds_def new_worker_def)
  show ?thesis
    using service_keeps_well_formed [OF run ok] run
    by (intro exI [of _ ?Z]) (simp add: new_worker_def)
qed

section \<open>The outbox tells the tasks\<close>

interpretation journal: service journal_le
  by unfold_locales

text \<open>C3: the outbox is a faithful journal of the tasks. Along any run of the service, whatever
  fails, the events already there stay, unaltered but for the marks of the processor and in the
  same order; the last event of a task with a row is a \<open>created\<close> or \<open>update\<close> event that carries the
  title, the description, the priority, the deadline and the status the row now has; and the last
  event of a task without a row, if it has any, is a \<open>deleted\<close> event.\<close>

theorem outbox_tells_the_tasks:
  assumes "service_run C N U acts Y Z"
    and "db_ok (app_db (sy_app Y))" and "queues_ok (sy_app Y)" and "journal_ok (app_db (sy_app Y))"
  shows "prefix (map core (outbox_events (app_db (sy_app Y)))) (map core (outbox_events (app_db (sy_app Z))))
    \<and> (\<forall>r \<in> set (tasks (app_db (sy_app Z))).
         \<exists>e. last_event (outbox_events (app_db (sy_app Z))) (tr_task_id r) = Some e \<and> tells e r)
    \<and> (\<forall>e i. last_event (outbox_events (app_db (sy_app Z))) i = Some e
         \<longrightarrow> i \<notin> tr_task_id ` set (tasks (app_db (sy_app Z))) \<longrightarrow> ob_event_type e = ''deleted'')"
proof -
  let ?d = "app_db (sy_app Z)"
  have le: "journal_le (app_db (sy_app Y)) ?d" using journal.service_run_keeps [OF assms(1,3)] by simp
  then have ok: "db_ok ?d" "journal_ok ?d" using assms(2,4) by (simp_all add: journal_le_def)
  have "find_row (\<lambda>q. tr_task_id q = i) (tasks ?d) = None" if "i \<notin> tr_task_id ` set (tasks ?d)" for i
    using that by (auto simp: find_row_None)
  with journalD(1) [OF ok(2)] have gone: "ob_event_type e = ''deleted''"
    if "last_event (outbox_events ?d) i = Some e" "i \<notin> tr_task_id ` set (tasks ?d)" for e i
    using that by blast
  from le have "prefix (map core (outbox_events (app_db (sy_app Y)))) (map core (outbox_events ?d))"
    by (simp add: journal_le_def)
  with journal_row [OF ok] gone show ?thesis by blast
qed

text \<open>A queued task is flushed by the ticker.\<close>

definition sample_queue :: "(unit, server) system" where
  "sample_queue = sample_system\<lparr>sy_app := sample_app\<lparr>ap_proc :=
     (ap_proc sample_app)\<lparr>pr_create := new_worker\<lparr>w_ch := [sample_task]\<rparr>\<rparr>\<rparr>\<rparr>"

lemma sample_flush:
  "\<exists>s jobs. flushCreate sample_env [sample_task] (sample_pg, []) = (s, jobs)
     \<and> tasks (store s) = [new_task_row sample_env sample_task ''t'' ''u'' (Some default_tag_id)]
     \<and> length (outbox_events (store s)) = 1 \<and> (\<forall>e \<in> set (outbox_events (store s)). ob_id e \<noteq> [])
     \<and> faults s = []"
proof -
  have tagged: "create_tagged sample_env [sample_task] sample_pg = ([sample_task], sample_pg)" by simp
  obtain s where s: "repo_CreateBatch sample_env [sample_task] sample_pg = (Inr (), s)"
    and row: "tasks (store s) = [new_task_row sample_env sample_task ''t'' ''u'' (Some default_tag_id)]
      \<and> length (outbox_events (store s)) = 1 \<and> (\<forall>e \<in> set (outbox_events (store s)). ob_id e \<noteq> [])
      \<and> faults s = []"
    by (simp add: repo_CreateBatch_def sample_defs pg_tx_def next_net_def create_batch_body_def
      pg_run_def batch_tasks_sql_def batch_events_sql_def batch_tag_def tag_arg_def
      uuid_arg_def ins_task_def ins_outbox_def new_task_row_def status_check_def priory_check_def
      StorageCode_def outbox_key_def int4_ok_def new_event_def)
  show ?thesis
    using row by (simp add: flushCreate_def tagged svc_CreateTaskBatch_def s del: create_tagged.simps)
qed

abbreviation sample_acts :: "(env \<times> activity) list" where
  "sample_acts \<equiv> [(sample_env, CreateLoop Receive), (sample_env, CreateLoop TickerFires)]"

lemma sample_run:
  "\<exists>Z. service_run sample_config sample_notify sample_users sample_acts sample_queue Z
     \<and> tasks (app_db (sy_app Z)) = [new_task_row sample_env sample_task ''t'' ''u'' (Some default_tag_id)]
     \<and> length (outbox_events (app_db (sy_app Z))) = 1
     \<and> (\<forall>e \<in> set (outbox_events (app_db (sy_app Z))). ob_id e \<noteq> []) \<and> faults (pr_pg (ap_proc (sy_app Z))) = []
     \<and> sy_kafka Z = sample_kafka"
proof -
  obtain s jobs where f: "flushCreate sample_env [sample_task] (sample_pg, []) = (s, jobs)"
    and s: "tasks (store s) = [new_task_row sample_env sample_task ''t'' ''u'' (Some default_tag_id)]"
      "length (outbox_events (store s)) = 1" "\<forall>e \<in> set (outbox_events (store s)). ob_id e \<noteq> []" "faults s = []"
    using sample_flush by blast
  define at where "at q = sample_queue\<lparr>sy_app := (sy_app sample_queue)\<lparr>ap_proc := q\<rparr>\<rparr>" for q
  define p where "p = ap_proc (sy_app sample_queue)"
  have p: "pr_create p = new_worker\<lparr>w_ch := [sample_task]\<rparr>" "pr_pg p = sample_pg" "pr_jobs p = []"
    by (simp_all add: p_def sample_queue_def sample_app_def new_processor_def)
  let ?p1 = "p\<lparr>pr_create := new_worker\<lparr>w_batch := [sample_task]\<rparr>\<rparr>"
  let ?p2 = "p\<lparr>pr_create := new_worker, pr_pg := s, pr_jobs := jobs\<rparr>"
  note defs = at_def batch_event_def runCreateWorker_def worker_step_def flush_rest_def receive_def new_worker_def
  have Y: "sample_queue = at p" by (simp add: at_def p_def)
  have 1: "activity_step sample_config sample_notify sample_users sample_env (CreateLoop Receive) (at p) = Some (at ?p1)"
    by (simp add: defs p)
  have 2: "activity_step sample_config sample_notify sample_users sample_env (CreateLoop TickerFires) (at ?p1) = Some (at ?p2)"
    by (simp add: defs p f)
  have "service_run sample_config sample_notify sample_users sample_acts sample_queue (at ?p2)"
    using service_run.act [OF service_run.act [OF service_run.idle 1] 2] by (simp add: Y)
  moreover have "sy_kafka (at ?p2) = sample_kafka" by (simp add: at_def sample_queue_def sample_system_def)
  ultimately show ?thesis using s by (intro exI [of _ "at ?p2"]) (simp add: at_def)
qed

lemma sample_start:
  "db_ok (app_db (sy_app sample_queue))" "queues_ok (sy_app sample_queue)" "journal_ok (app_db (sy_app sample_queue))"
  "handed_over (outbox_events (app_db (sy_app sample_queue))) (kc_accepted (sy_kafka sample_queue))"
  by (simp_all add: sample_queue_def sample_system_def sample_app_def new_processor_def queues_ok_def
      in_bounds_def new_worker_def journal_def last_event_def handed_over_def)

theorem outbox_tells_the_tasks_witness:
  "\<exists>Z e. service_run sample_config sample_notify sample_users sample_acts sample_queue Z
     \<and> last_event (outbox_events (app_db (sy_app Z))) ''t'' = Some e
     \<and> tells e (new_task_row sample_env sample_task ''t'' ''u'' (Some default_tag_id))"
proof -
  obtain Z where Z: "service_run sample_config sample_notify sample_users sample_acts sample_queue Z"
    "tasks (app_db (sy_app Z)) = [new_task_row sample_env sample_task ''t'' ''u'' (Some default_tag_id)]"
    using sample_run by blast
  from outbox_tells_the_tasks [OF Z(1) sample_start(1-3)] Z show ?thesis by (intro exI [of _ Z]) auto
qed

section \<open>Every task is told to the broker\<close>

interpretation added: requests adds
  by unfold_locales

lemma other_step_kafka:
  "activity_step C N U E a Y = Some Z \<Longrightarrow> a \<noteq> OutboxTick \<Longrightarrow>
     kc_accepted (sy_kafka Z) = kc_accepted (sy_kafka Y)"
  by (cases a) (auto simp: batch_event_def stats_tick_def Let_def split: if_splits prod.splits)

definition told_off :: "('g, 'r) system \<Rightarrow> bool" where
  "told_off Y \<longleftrightarrow> handed_over (outbox_events (app_db (sy_app Y))) (kc_accepted (sy_kafka Y))"

definition uuids_in :: "env \<Rightarrow> outbox_row list \<Rightarrow> bool" where
  "uuids_in E es \<longleftrightarrow> (\<forall>e \<in> set es. pg_uuid E (ob_id e) = Some (ob_id e))"

lemma uuids_in_prefix:
  assumes "uuids_in E es'" and "prefix (map core es) (map core es')"
  shows "uuids_in E es"
  unfolding uuids_in_def
proof
  fix e assume "e \<in> set es"
  then have "core e \<in> set (map core es')" using set_mono_prefix [OF assms(2)] by auto
  then obtain e' where "e' \<in> set es'" "core e' = core e" by auto
  with assms(1) core_id [of e' e] show "pg_uuid E (ob_id e) = Some (ob_id e)" by (auto simp: uuids_in_def)
qed

lemma activity_step_told_off:
  assumes step: "activity_step C N U E a Y = Some Z" and q: "queues_ok (sy_app Y)"
    and ids: "a = OutboxTick \<longrightarrow> uuids_in E (outbox_events (app_db (sy_app Y)))"
    and ok: "db_ok (app_db (sy_app Y))" and told: "told_off Y"
  shows "told_off Z"
proof (cases "a = OutboxTick")
  case True
  obtain s k where t: "processor_tick E (pr_pg (ap_proc (sy_app Y)), sy_kafka Y) = (s, k)" by force
  have "outbox_ids_ok E (pr_pg (ap_proc (sy_app Y)))" "distinct (map ob_id (outbox_events (app_db (sy_app Y))))"
    using ids True ok by (simp_all add: outbox_ids_ok_def uuids_in_def db_ok_def schema_ok_def)
  from tick_handed_over [OF t this] told have "handed_over (outbox_events (store s)) (kc_accepted k)"
    by (simp add: told_off_def)
  with step True t show ?thesis by (auto simp: told_off_def on_pg_def)
next
  case False
  have "adds (app_db (sy_app Y)) (app_db (sy_app Z))"
    using added.other_step_kept [OF step _ False, of "app_db (sy_app Y)"] q
    by (simp add: added.kept_def added.R_refl)
  then show ?thesis
    using told other_step_kafka [OF step False] by (auto simp: told_off_def adds_def handed_over_append)
qed

lemma service_run_told_off:
  assumes "service_run C N U acts Y Z"
    and "db_ok (app_db (sy_app Y))" and "queues_ok (sy_app Y)" and "told_off Y"
    and "\<forall>E \<in> fst ` set acts. uuids_in E (outbox_events (app_db (sy_app Z)))"
  shows "told_off Z \<and> db_ok (app_db (sy_app Z)) \<and> queues_ok (sy_app Z)"
  using assms
proof (induction rule: service_run.induct)
  case (act acts Y Z E a Z')
  have run: "service_run C N U (acts @ [(E, a)]) Y Z'" using act.hyps by (rule service_run.act)
  have ok: "db_ok (app_db (sy_app Z))" "queues_ok (sy_app Z)"
    using db_inv.service_run_keeps [OF act.hyps(1)] act.prems(1,2) by simp_all
  have "prefix (map core (outbox_events (app_db (sy_app Z)))) (map core (outbox_events (app_db (sy_app Z'))))"
    using journal.activity_step_kept [OF act.hyps(2), of "app_db (sy_app Z)"] ok(2)
    by (simp add: journal.kept_def journal.R_refl journal_le_def)
  then have ids: "\<forall>E' \<in> insert E (fst ` set acts). uuids_in E' (outbox_events (app_db (sy_app Z)))"
    using act.prems(4) uuids_in_prefix by simp blast
  then have "told_off Z" using act.IH act.prems(1-3) by simp
  then have "told_off Z'"
    using ids ok by (intro activity_step_told_off [OF act.hyps(2)]) simp_all
  then show ?case using db_inv.service_run_keeps [OF run] act.prems(1,2) by simp
qed simp

text \<open>C4: every task's last change reaches the Kafka writer. After any run of the service, under any
  requests and any failures, let the outbox processor make one round in which the database and the
  writer answer. Then every task has a last event in the outbox, and unless that event still waits
  outside the round's window of the thousand oldest unprocessed events (which needs more than a thousand
  of them, and can last for ever, see C37), the writer has accepted a message of type \<open>created\<close> or
  \<open>update\<close> with the title, the description, the priority and the deadline the task has now. The
  writer is asynchronous: an accepted message may still be lost before it reaches the broker.\<close>

theorem every_task_published:
  assumes "service_run C N U acts Y Z" and "activity_step C N U E OutboxTick Z = Some Z'"
    and "db_ok (app_db (sy_app Y))" and "queues_ok (sy_app Y)" and "journal_ok (app_db (sy_app Y))"
    and "handed_over (outbox_events (app_db (sy_app Y))) (kc_accepted (sy_kafka Y))"
    and ids: "\<forall>E' \<in> insert E (fst ` set acts). uuids_in E' (outbox_events (app_db (sy_app Z)))"
    and "faults (pr_pg (ap_proc (sy_app Z))) = []" and "kc_refusals (sy_kafka Z) = []"
    and es: "es = outbox_events (app_db (sy_app Z))"
  shows "\<forall>r \<in> set (tasks (app_db (sy_app Z'))).
    \<exists>e. last_event es (tr_task_id r) = Some e
      \<and> (ob_processed_at e \<noteq> None \<or> e \<in> set (pending_rows E 1000 es)
           \<or> length (filter (\<lambda>e. ob_processed_at e = None) es) \<le> 1000
         \<longrightarrow> (\<exists>m \<in> set (kc_accepted (sy_kafka Z')). conveys m e
           \<and> kp_Type (snd m) \<in> {''created'', ''update''}
           \<and> pl_Title (kp_Task (snd m)) = tr_title r \<and> pl_Description (kp_Task (snd m)) = tr_description r
           \<and> pl_Priority (kp_Task (snd m)) = tr_priory r \<and> pl_DueDate (kp_Task (snd m)) = tr_due_date r))"
    (is "\<forall>r \<in> _. \<exists>e. _ \<and> (?due e \<longrightarrow> ?told r e)")
proof
  fix r assume r: "r \<in> set (tasks (app_db (sy_app Z')))"
  obtain s k where t: "processor_tick E (pr_pg (ap_proc (sy_app Z)), sy_kafka Z) = (s, k)" by force
  with assms(2) have Z': "app_db (sy_app Z') = store s" "sy_kafka Z' = k" by (auto simp: on_pg_def)
  have Z: "handed_over es (kc_accepted (sy_kafka Z))" "db_ok (app_db (sy_app Z))"
    using service_run_told_off [OF assms(1,3,4)] assms(6) ids by (auto simp: told_off_def es)
  have "journal_ok (app_db (sy_app Z))"
    using journal.service_run_keeps [OF assms(1,4)] assms(3,5) by (simp add: journal_le_def)
  moreover have "r \<in> set (tasks (app_db (sy_app Z)))" using r processor_tick_tasks [OF t] by (simp add: Z')
  ultimately obtain e where e: "last_event es (tr_task_id r) = Some e" "tells e r"
    using journal_row Z(2) by (auto simp: es)
  have uuids: "outbox_ids_ok E (pr_pg (ap_proc (sy_app Z)))" "distinct (map ob_id (outbox_events (app_db (sy_app Z))))"
    using ids Z(2) by (simp_all add: outbox_ids_ok_def uuids_in_def db_ok_def schema_ok_def)
  have "\<exists>m \<in> set (kc_accepted k). conveys m e" if "?due e"
  proof (rule tick_conveys [OF assms(8,9) t uuids])
    show "handed_over (outbox_events (app_db (sy_app Z))) (kc_accepted (sy_kafka Z))" using Z(1) by (simp add: es)
    show "e \<in> set (outbox_events (app_db (sy_app Z)))" using last_event_Some [OF e(1)] by (simp add: es)
    then show "ob_processed_at e \<noteq> None \<or> e \<in> set (pending_rows E batchSize (outbox_events (app_db (sy_app Z))))"
      using that pending_rows_all [of es 1000 E] by (auto simp: es batchSize_def)
    show "decodable (ob_event_data e)" by (rule tells_decodable [OF e(2)])
  qed
  then have "?due e \<longrightarrow> ?told r e"
    using conveys_tells [OF _ e(2)] unfolding Z' by blast
  with e(1) show "\<exists>e. last_event es (tr_task_id r) = Some e \<and> (?due e \<longrightarrow> ?told r e)" by blast
qed

text \<open>The task flushed above is published.\<close>

theorem every_task_published_witness:
  "\<exists>Z Z' m. service_run sample_config sample_notify sample_users sample_acts sample_queue Z
     \<and> activity_step sample_config sample_notify sample_users sample_env OutboxTick Z = Some Z'
     \<and> m \<in> set (kc_accepted (sy_kafka Z')) \<and> pl_Title (kp_Task (snd m)) = t_Title sample_task"
proof -
  obtain Z where Z: "service_run sample_config sample_notify sample_users sample_acts sample_queue Z"
    "tasks (app_db (sy_app Z)) = [new_task_row sample_env sample_task ''t'' ''u'' (Some default_tag_id)]"
    "length (outbox_events (app_db (sy_app Z))) = 1" "faults (pr_pg (ap_proc (sy_app Z))) = []"
    "sy_kafka Z = sample_kafka" "\<forall>e \<in> set (outbox_events (app_db (sy_app Z))). ob_id e \<noteq> []"
    using sample_run by blast
  obtain s k where t: "processor_tick sample_env (pr_pg (ap_proc (sy_app Z)), sy_kafka Z) = (s, k)" by force
  let ?Z' = "Z\<lparr>sy_app := snd (on_pg (\<lambda>_. ((), s)) (sy_app Z)), sy_kafka := k\<rparr>"
  have step: "activity_step sample_config sample_notify sample_users sample_env OutboxTick Z = Some ?Z'"
    using t by simp
  have ids: "\<forall>E' \<in> insert sample_env (fst ` set sample_acts). uuids_in E' (outbox_events (app_db (sy_app Z)))"
    using Z(6) by (simp add: uuids_in_def sample_env_def)
  have "tasks (store s) = tasks (app_db (sy_app Z))" by (rule processor_tick_tasks [OF t])
  then have row: "new_task_row sample_env sample_task ''t'' ''u'' (Some default_tag_id) \<in> set (tasks (app_db (sy_app ?Z')))"
    using Z(2) by (simp add: on_pg_def)
  have few: "length (filter (\<lambda>e. ob_processed_at e = None) (outbox_events (app_db (sy_app Z)))) \<le> 1000"
    using length_filter_le [of "\<lambda>e. ob_processed_at e = None" "outbox_events (app_db (sy_app Z))"] Z(3) by simp
  have "kc_refusals (sy_kafka Z) = []" by (simp add: Z(5) sample_kafka_def)
  from every_task_published [OF Z(1) step sample_start ids Z(4) this refl] row few
  obtain m where "m \<in> set (kc_accepted k)" "pl_Title (kp_Task (snd m)) = t_Title sample_task"
    by (fastforce simp: new_task_row_def)
  with Z(1) step show ?thesis by (intro exI [of _ Z] exI [of _ ?Z'] exI [of _ m]) simp
qed

end
