(* ===== verification/Server.thy ===== *)
theory Server
  imports Http
begin

text \<open>
  What stands before the router: the limit on concurrent requests that \<open>start\<close> of
  \<open>cmd/main.go\<close> sets up, inside the metrics middleware of \<open>pkg/metrics\<close>. Requests overlap
  here, so a request has two steps, its arrival and its end.
\<close>

section \<open>Counters\<close>

text \<open>
  \<open>fr_running\<close> are the requests the router is working on; \<open>fr_slots\<close> is the number of items in
  the channel \<open>limiter\<close>. The three metrics are the counter by method, path and status, the
  histogram (the number of its observations) by method and path, and the gauge.
\<close>

record visit =
  vi_method :: string
  vi_path :: string

record front =
  fr_slots :: nat
  fr_running :: "visit list"
  fr_requests :: "string \<times> string \<times> nat \<Rightarrow> nat"
  fr_duration :: "string \<times> string \<Rightarrow> nat"
  fr_inFlight :: int

definition new_front :: front where
  "new_front = \<lparr>fr_slots = 0, fr_running = [], fr_requests = (\<lambda>_. 0), fr_duration = (\<lambda>_. 0), fr_inFlight = 0\<rparr>"

definition limiterSize :: nat where [simp]: "limiterSize = 2500"

definition measured :: "visit \<Rightarrow> bool" where
  "measured v \<longleftrightarrow> vi_path v \<noteq> ''/metrics''"

text \<open>The parts of the middleware before and after \<open>next.ServeHTTP\<close>.\<close>

definition mw_begin :: "visit \<Rightarrow> front \<Rightarrow> front" where
  "mw_begin v F = (if measured v then F\<lparr>fr_inFlight := fr_inFlight F + 1\<rparr> else F)"

text \<open>
  \<open>utf8.ValidString\<close> of the standard library: no overlong forms, no surrogates, nothing above
  U+10FFFF. A path is percent-decoded, so it may be any bytes.
\<close>

definition between_bytes :: "nat \<Rightarrow> nat \<Rightarrow> nat \<Rightarrow> bool" where
  "between_bytes lo hi b \<longleftrightarrow> lo \<le> b \<and> b \<le> hi"

fun utf8_bytes :: "nat list \<Rightarrow> bool" where
  "utf8_bytes [] = True"
| "utf8_bytes (b # bs) =
     (if b < 128 then utf8_bytes bs
      else case bs of
        [] \<Rightarrow> False
      | c # cs \<Rightarrow>
          if between_bytes 194 223 b then between_bytes 128 191 c \<and> utf8_bytes cs
          else case cs of
            [] \<Rightarrow> False
          | d # ds \<Rightarrow>
              let second = between_bytes (if b = 224 then 160 else if b = 240 then 144 else 128)
                             (if b = 237 then 159 else if b = 244 then 143 else 191) c
              in if between_bytes 224 239 b then second \<and> between_bytes 128 191 d \<and> utf8_bytes ds
                 else case ds of
                   [] \<Rightarrow> False
                 | e # es \<Rightarrow>
                     between_bytes 240 244 b \<and> second \<and> between_bytes 128 191 d \<and> between_bytes 128 191 e
                     \<and> utf8_bytes es)"

definition utf8_ValidString :: "string \<Rightarrow> bool" where
  "utf8_ValidString t = utf8_bytes (map of_char t)"

definition labels_ok :: "string \<times> string \<Rightarrow> bool" where
  "labels_ok mp \<longleftrightarrow> utf8_ValidString (fst mp) \<and> utf8_ValidString (snd mp)"

text \<open>
  \<open>WithLabelValues\<close> panics for a label that is not valid UTF-8. By then the gauge is down again.
\<close>

definition mw_end :: "visit \<Rightarrow> nat \<Rightarrow> front \<Rightarrow> nat outcome \<times> front" where
  "mw_end v status F =
     (if measured v
      then (let F = F\<lparr>fr_inFlight := fr_inFlight F - 1\<rparr>;
                req = (vi_method v, vi_path v, status); dur = (vi_method v, vi_path v)
            in if labels_ok dur
               then (Ret status,
                     F\<lparr>fr_requests := (fr_requests F)(req := fr_requests F req + 1),
                       fr_duration := (fr_duration F)(dur := fr_duration F dur + 1)\<rparr>)
               else (Panic, F))
      else (Ret status, F))"

text \<open>
  A request arrives: the router gets it if the channel has room, otherwise it is answered 429
  at once, or panics in the middleware.
\<close>

definition arrive :: "visit \<Rightarrow> front \<Rightarrow> nat outcome option \<times> front" where
  "arrive v F =
     (let F = mw_begin v F
      in if fr_slots F < limiterSize
         then (None, F\<lparr>fr_slots := fr_slots F + 1, fr_running := fr_running F @ [v]\<rparr>)
         else (case mw_end v 429 F of (r, F) \<Rightarrow> (Some r, F)))"

text \<open>
  The \<open>k\<close>-th running request ends with the last status its handler set, or panics; the deferred
  receive gives the slot back either way, and nothing else of the middleware runs after a panic.
\<close>

definition leave :: "nat \<Rightarrow> nat outcome \<Rightarrow> front \<Rightarrow> front option" where
  "leave k result F =
     (if k < length (fr_running F)
      then (let v = fr_running F ! k;
                F = F\<lparr>fr_slots := fr_slots F - 1, fr_running := take k (fr_running F) @ drop (Suc k) (fr_running F)\<rparr>
            in Some (case result of Panic \<Rightarrow> F | Ret status \<Rightarrow> snd (mw_end v status F)))
      else None)"

datatype traffic = Arrive visit | Leave nat "nat outcome"

definition front_step :: "traffic \<Rightarrow> front \<Rightarrow> front option" where
  "front_step ev F = (case ev of Arrive v \<Rightarrow> Some (snd (arrive v F)) | Leave k r \<Rightarrow> leave k r F)"

inductive front_run :: "traffic list \<Rightarrow> front \<Rightarrow> front \<Rightarrow> bool" where
  quiet: "front_run [] F F"
| step: "front_step ev F = Some G \<Longrightarrow> front_run evs G H \<Longrightarrow> front_run (ev # evs) F H"

section \<open>What the counters mean\<close>

text \<open>What a run did, read off its events: the requests that arrived and those whose handler panicked.\<close>

fun arrivals :: "traffic list \<Rightarrow> visit list" where
  "arrivals [] = []"
| "arrivals (Arrive v # evs) = v # arrivals evs"
| "arrivals (Leave k r # evs) = arrivals evs"

definition ended :: "nat \<Rightarrow> front \<Rightarrow> visit" where
  "ended k F = fr_running F ! k"

fun panicked :: "traffic list \<Rightarrow> front \<Rightarrow> visit list" where
  "panicked [] F = []"
| "panicked (ev # evs) F =
     (case front_step ev F of
        None \<Rightarrow> []
      | Some G \<Rightarrow> (case ev of Leave k Panic \<Rightarrow> [ended k F] | _ \<Rightarrow> []) @ panicked evs G)"

text \<open>How many measured requests of a list have a method and path.\<close>

definition count_of :: "(string \<times> string \<Rightarrow> bool) \<Rightarrow> visit list \<Rightarrow> nat" where
  "count_of K vs = length (filter (\<lambda>v. measured v \<and> K (vi_method v, vi_path v)) vs)"

lemma count_of_simps [simp]:
  "count_of K [] = 0" "count_of K (vs @ ws) = count_of K vs + count_of K ws"
  "count_of K (v # vs) = (if measured v \<and> K (vi_method v, vi_path v) then 1 else 0) + count_of K vs"
  by (simp_all add: count_of_def)

lemma count_of_remove:
  "k < length vs \<Longrightarrow> count_of K vs = count_of K (take k vs) + count_of K [vs ! k] + count_of K (drop (Suc k) vs)"
  by (subst (1) id_take_nth_drop [of k vs]) simp_all

lemma leaveE:
  assumes "leave k r F = Some G"
  obtains v F1 where "k < length (fr_running F)" "v = ended k F"
    "F1 = F\<lparr>fr_slots := fr_slots F - 1, fr_running := take k (fr_running F) @ drop (Suc k) (fr_running F)\<rparr>"
    "G = (case r of Panic \<Rightarrow> F1 | Ret status \<Rightarrow> snd (mw_end v status F1))"
    "\<And>K. count_of K (fr_running F) = count_of K (fr_running F1) + count_of K [v]"
proof -
  have k: "k < length (fr_running F)" using assms by (simp add: leave_def split: if_splits)
  show thesis
    using assms k count_of_remove [OF k]
    by (intro that [OF k refl refl]) (auto simp: leave_def Let_def ended_def split: outcome.split)
qed

lemma mw_end_frame [simp]:
  "fr_slots (snd (mw_end v c F)) = fr_slots F" "fr_running (snd (mw_end v c F)) = fr_running F"
  by (simp_all add: mw_end_def Let_def)

lemma mw_begin_frame [simp]: "fr_slots (mw_begin v F) = fr_slots F" "fr_running (mw_begin v F) = fr_running F"
  "fr_duration (mw_begin v F) = fr_duration F" "fr_requests (mw_begin v F) = fr_requests F"
  by (simp_all add: mw_begin_def)

lemma mw_end_counts:
  "fr_duration (snd (mw_end v c F)) mp = fr_duration F mp + (if labels_ok mp then count_of ((=) mp) [v] else 0)"
  "fr_inFlight (snd (mw_end v c F)) = fr_inFlight F - int (count_of (\<lambda>_. True) [v])"
  by (auto simp: mw_end_def Let_def)

lemma mw_begin_gauge: "fr_inFlight (mw_begin v F) = fr_inFlight F + int (count_of (\<lambda>_. True) [v])"
  by (simp add: mw_begin_def)

lemma front_step_counts:
  assumes "front_step ev F = Some G"
  shows "fr_slots F = length (fr_running F) \<and> fr_slots F \<le> 2500
      \<Longrightarrow> fr_slots G = length (fr_running G) \<and> fr_slots G \<le> 2500"
    and "fr_inFlight G + int (count_of (\<lambda>_. True) (fr_running F))
      = fr_inFlight F + int (count_of (\<lambda>_. True) (fr_running G)) + int (count_of (\<lambda>_. True) (panicked [ev] F))"
    and "if labels_ok mp
        then fr_duration F mp + count_of ((=) mp) (fr_running F) + count_of ((=) mp) (arrivals [ev])
          = fr_duration G mp + count_of ((=) mp) (fr_running G) + count_of ((=) mp) (panicked [ev] F)
        else fr_duration G mp = fr_duration F mp"
proof -
  consider (arr) v where "ev = Arrive v" "G = snd (arrive v F)" | (lv) k r where "ev = Leave k r" "leave k r F = Some G"
    using assms by (auto simp: front_step_def split: traffic.splits)
  then have "(fr_slots F = length (fr_running F) \<and> fr_slots F \<le> 2500
      \<longrightarrow> fr_slots G = length (fr_running G) \<and> fr_slots G \<le> 2500)
    \<and> fr_inFlight G + int (count_of (\<lambda>_. True) (fr_running F))
      = fr_inFlight F + int (count_of (\<lambda>_. True) (fr_running G)) + int (count_of (\<lambda>_. True) (panicked [ev] F))
    \<and> (if labels_ok mp
        then fr_duration F mp + count_of ((=) mp) (fr_running F) + count_of ((=) mp) (arrivals [ev])
          = fr_duration G mp + count_of ((=) mp) (fr_running G) + count_of ((=) mp) (panicked [ev] F)
        else fr_duration G mp = fr_duration F mp)"
  proof cases
    case arr
    then show ?thesis
      using assms
      by (cases "mw_end v 429 (mw_begin v F)")
        (use mw_end_counts [of v 429 "mw_begin v F"] mw_end_frame [of v 429 "mw_begin v F"] in
          \<open>auto simp: arrive_def Let_def mw_begin_gauge\<close>)
  next
    case lv
    obtain v F1 where "k < length (fr_running F)" and v: "v = ended k F"
      and F1: "F1 = F\<lparr>fr_slots := fr_slots F - 1, fr_running := take k (fr_running F) @ drop (Suc k) (fr_running F)\<rparr>"
      and G: "G = (case r of Panic \<Rightarrow> F1 | Ret status \<Rightarrow> snd (mw_end v status F1))"
      and c: "\<And>K. count_of K (fr_running F) = count_of K (fr_running F1) + count_of K [v]"
      using leaveE [OF lv(2)] by blast
    have [simp]: "fr_duration F1 = fr_duration F" "fr_inFlight F1 = fr_inFlight F"
      and slots: "fr_slots F1 = fr_slots F - 1" "length (fr_running F1) = length (fr_running F) - 1"
      using \<open>k < _\<close> by (simp_all add: F1)
    show ?thesis
      using assms lv(1) slots by (cases r) (auto simp: G c v mw_end_counts simp del: count_of_simps(3))
  qed
  then show "fr_slots F = length (fr_running F) \<and> fr_slots F \<le> 2500
      \<Longrightarrow> fr_slots G = length (fr_running G) \<and> fr_slots G \<le> 2500"
    and "fr_inFlight G + int (count_of (\<lambda>_. True) (fr_running F))
      = fr_inFlight F + int (count_of (\<lambda>_. True) (fr_running G)) + int (count_of (\<lambda>_. True) (panicked [ev] F))"
    and "if labels_ok mp
        then fr_duration F mp + count_of ((=) mp) (fr_running F) + count_of ((=) mp) (arrivals [ev])
          = fr_duration G mp + count_of ((=) mp) (fr_running G) + count_of ((=) mp) (panicked [ev] F)
        else fr_duration G mp = fr_duration F mp"
    by blast+
qed

lemma front_run_counts:
  assumes "front_run evs F G"
  shows "(fr_slots F = length (fr_running F) \<and> fr_slots F \<le> 2500
      \<longrightarrow> fr_slots G = length (fr_running G) \<and> fr_slots G \<le> 2500)
    \<and> fr_inFlight G + int (count_of (\<lambda>_. True) (fr_running F))
      = fr_inFlight F + int (count_of (\<lambda>_. True) (fr_running G)) + int (count_of (\<lambda>_. True) (panicked evs F))
    \<and> (if labels_ok mp
        then fr_duration F mp + count_of ((=) mp) (fr_running F) + count_of ((=) mp) (arrivals evs)
          = fr_duration G mp + count_of ((=) mp) (fr_running G) + count_of ((=) mp) (panicked evs F)
        else fr_duration G mp = fr_duration F mp)"
  using assms
proof (induction rule: front_run.induct)
  case (step ev F G evs H)
  have parts: "panicked (ev # evs) F = panicked [ev] F @ panicked evs G" "arrivals (ev # evs) = arrivals [ev] @ arrivals evs"
    using step.hyps(1) by (simp, cases ev) simp_all
  show ?case
    using front_step_counts(1) [OF step.hyps(1)] front_step_counts(2) [OF step.hyps(1)]
      front_step_counts(3) [OF step.hyps(1), of mp] step.IH
    unfolding parts count_of_simps(2) by auto
qed simp

text \<open>C33: Along any run of overlapping requests at most 2500 are handed to the router at a time, and the
  channel holds exactly one item for each of them, panics included. Every measured request of a
  method and path in valid UTF-8 is observed once, unless it is still running or its handler has
  panicked; one whose path is not valid UTF-8 is never observed, because the middleware itself
  panics after the handler. The gauge counts the running requests and, for ever, those whose handler
  panicked.\<close>

theorem traffic_is_counted:
  assumes "front_run evs new_front G"
  shows "fr_slots G = length (fr_running G) \<and> length (fr_running G) \<le> 2500
    \<and> (\<forall>m p. if utf8_ValidString m \<and> utf8_ValidString p
         then count_of ((=) (m, p)) (arrivals evs) = fr_duration G (m, p)
           + count_of ((=) (m, p)) (fr_running G) + count_of ((=) (m, p)) (panicked evs new_front)
         else fr_duration G (m, p) = 0)
    \<and> fr_inFlight G = int (count_of (\<lambda>_. True) (fr_running G)) + int (count_of (\<lambda>_. True) (panicked evs new_front))"
proof -
  have "if utf8_ValidString m \<and> utf8_ValidString p
         then count_of ((=) (m, p)) (arrivals evs) = fr_duration G (m, p)
           + count_of ((=) (m, p)) (fr_running G) + count_of ((=) (m, p)) (panicked evs new_front)
         else fr_duration G (m, p) = 0" for m p
    using front_run_counts [OF assms, of "(m, p)"] by (auto simp: new_front_def labels_ok_def)
  moreover have "fr_slots G = length (fr_running G) \<and> length (fr_running G) \<le> 2500
    \<and> fr_inFlight G = int (count_of (\<lambda>_. True) (fr_running G)) + int (count_of (\<lambda>_. True) (panicked evs new_front))"
    using front_run_counts [OF assms, of undefined] by (auto simp: new_front_def)
  ultimately show ?thesis by simp
qed

text \<open>One request is answered, another one panics, a third has the path \<open>/%ff\<close>.\<close>

definition bad_path :: string where
  "bad_path = CHR ''/'' # [char_of (255::nat)]"

definition sample_traffic :: "traffic list" where
  "sample_traffic = [Arrive \<lparr>vi_method = ''GET'', vi_path = ''/tasks''\<rparr>,
     Arrive \<lparr>vi_method = ''POST'', vi_path = ''/tasks''\<rparr>, Arrive \<lparr>vi_method = ''GET'', vi_path = bad_path\<rparr>,
     Leave 1 Panic, Leave 0 (Ret 200), Leave 0 (Ret 404)]"

lemma bad_path_labels: "\<not> utf8_ValidString bad_path"
  by (simp add: bad_path_def utf8_ValidString_def)

lemma plain_labels: "utf8_ValidString ''POST''" "utf8_ValidString ''GET''" "utf8_ValidString ''/tasks''"
  by (simp_all add: utf8_ValidString_def of_char_def)

theorem traffic_is_counted_witness:
  "\<exists>G. front_run sample_traffic new_front G \<and> fr_slots G = 0 \<and> fr_inFlight G = 1
     \<and> fr_duration G (''GET'', ''/tasks'') = 1 \<and> fr_duration G (''POST'', ''/tasks'') = 0
     \<and> fr_duration G (''GET'', bad_path) = 0"
proof -
  have m: "bad_path \<noteq> ''/metrics''" by (simp add: bad_path_def)
  have "\<exists>G. front_run sample_traffic new_front G \<and> fr_running G = []"
    unfolding sample_traffic_def
    by (intro exI conjI)
      (rule front_run.intros, simp add: front_step_def arrive_def leave_def new_front_def Let_def mw_begin_def measured_def m)+
  moreover have "panicked sample_traffic new_front = [\<lparr>vi_method = ''POST'', vi_path = ''/tasks''\<rparr>]"
    by (simp add: sample_traffic_def front_step_def arrive_def leave_def new_front_def Let_def ended_def mw_begin_def
        measured_def m)
  ultimately obtain G where run: "front_run sample_traffic new_front G" and G: "fr_running G = []"
    and p: "panicked sample_traffic new_front = [\<lparr>vi_method = ''POST'', vi_path = ''/tasks''\<rparr>]" by blast
  note counted = traffic_is_counted [OF run, unfolded p]
  have d: "fr_duration G (''POST'', ''/tasks'') = 0" "fr_duration G (''GET'', ''/tasks'') = 1"
    "fr_duration G (''GET'', bad_path) = 0"
    using counted [THEN conjunct2, THEN conjunct2, THEN conjunct1, rule_format, of "''POST''" "''/tasks''"]
      counted [THEN conjunct2, THEN conjunct2, THEN conjunct1, rule_format, of "''GET''" "''/tasks''"]
      counted [THEN conjunct2, THEN conjunct2, THEN conjunct1, rule_format, of "''GET''" bad_path]
    by (simp_all add: plain_labels bad_path_labels G sample_traffic_def measured_def) (simp add: bad_path_def)
  with run counted show ?thesis
    by (intro exI [of _ G]) (simp add: G measured_def del: panicked.simps)
qed

end
