(* ===== verification/Startup.thy ===== *)
theory Startup
  imports Http
begin

text \<open>
  From the start of the process to the first request: \<open>internal/config\<close>, the two clients that
  connect with retries (\<open>pkg/client/postgres\<close>, \<open>pkg/client/redis\<close>), the check of
  the broker in \<open>pkg/client/kafka\<close>, and the first part of \<open>main\<close>. \<open>logger.Fatal\<close> and
  \<open>log.Fatalf\<close> end the process without running deferred calls.
\<close>

section \<open>Configuration\<close>

record service_cfg =
  sc_ListenPort :: string
  sc_BindIP :: string
  sc_PgHost :: string
  sc_PgPort :: string
  sc_PgDatabase :: string
  sc_PgUsername :: string
  sc_PgPassword :: string
  sc_RedisHost :: string
  sc_RedisPort :: string
  sc_RedisPassword :: string
  sc_Brokers :: "string list"
  sc_GroupID :: string
  sc_GatewayHost :: string
  sc_GatewayPort :: string
  sc_UsersHost :: string
  sc_UsersPort :: string
  sc_JWTSecret :: string
  sc_GatewaySign :: string

text \<open>\<open>os.Getenv\<close> gives the empty text for a variable that is not set.\<close>

definition getEnv :: "(string \<Rightarrow> string) \<Rightarrow> string \<Rightarrow> string \<Rightarrow> string" where
  "getEnv os key defaultValue = (if os key \<noteq> [] then os key else defaultValue)"

text \<open>\<open>None\<close>: the process has ended.\<close>

definition requireEnv :: "(string \<Rightarrow> string) \<Rightarrow> string \<Rightarrow> string option" where
  "requireEnv os key = (if os key = [] then None else Some (os key))"

definition GetConfig :: "(string \<Rightarrow> string) \<Rightarrow> service_cfg option" where
  "GetConfig os =
     (case requireEnv os ''JWT_SECRET'' of
        None \<Rightarrow> None
      | Some jwt \<Rightarrow>
          (case requireEnv os ''GATEWAY_SIGN'' of
             None \<Rightarrow> None
           | Some sign \<Rightarrow> Some
               \<lparr>sc_ListenPort = getEnv os ''TASKS_PORT'' ''8000'',
                sc_BindIP = getEnv os ''LISTEN_BIND_IP'' ''0.0.0.0'',
                sc_PgHost = getEnv os ''DB_TASKS_HOST'' ''postgres-tasks'',
                sc_PgPort = getEnv os ''DB_TASKS_PORT'' ''5433'',
                sc_PgDatabase = getEnv os ''DB_TASKS_DATABASE'' ''mydatabase1'',
                sc_PgUsername = getEnv os ''DB_TASKS_USERNAME'' ''user1'',
                sc_PgPassword = getEnv os ''DB_TASKS_PASSWORD'' ''password1'',
                sc_RedisHost = getEnv os ''REDIS_TASKS_HOST'' ''redis-tasks'',
                sc_RedisPort = getEnv os ''REDIS_TASKS_PORT'' ''6379'',
                sc_RedisPassword = getEnv os ''REDIS_TASKS_PASSWORD'' [],
                sc_Brokers = strings_Split CHR '','' (getEnv os ''KAFKA_BROKER'' ''kafka:9092''),
                sc_GroupID = getEnv os ''KAFKA_GROUP_TASKS'' ''tasks-service-group'',
                sc_GatewayHost = getEnv os ''GATEWAY_HOST'' ''gateway'',
                sc_GatewayPort = getEnv os ''GATEWAY_PORT'' ''8080'',
                sc_UsersHost = getEnv os ''USERS_SERVICE_HOST'' ''users-service'',
                sc_UsersPort = getEnv os ''USERS_SERVICE_PORT'' ''8001'',
                sc_JWTSecret = jwt, sc_GatewaySign = sign\<rparr>))"

section \<open>The network at the start\<close>

text \<open>
  What the coming connection attempts meet (\<open>Up\<close> once a list is used up), and the pools and
  clients that were opened and not closed, with what they were opened for. \<open>nw_parses\<close> stands for
  \<open>pgxpool.ParseConfig\<close> accepting a text.
\<close>

datatype dial = NoDial | NoPing | Up

record pool_config =
  pc_dsn :: string
  pc_MaxConns :: nat
  pc_MinConns :: nat
  pc_MaxConnLifetime :: nat
  pc_MaxConnLifetimeJitter :: nat
  pc_MaxConnIdleTime :: nat
  pc_HealthCheckPeriod :: nat
  pc_ConnectTimeout :: nat
  pc_RuntimeParams :: "(string \<times> string) list"
  pc_PreferSimpleProtocol :: bool

record network =
  nw_parses :: "string \<Rightarrow> bool"
  nw_pg :: "dial list"
  nw_redis :: "dial list"
  nw_kafka :: dial
  nw_listens :: bool
  nw_pools :: "pool_config list"
  nw_clients :: "string list"

definition next_dial :: "dial list \<Rightarrow> dial" where
  "next_dial ds = (case ds of [] \<Rightarrow> Up | d # _ \<Rightarrow> d)"

section \<open>PostgreSQL\<close>

definition usePgBouncer :: "service_cfg \<Rightarrow> bool" where
  "usePgBouncer sc \<longleftrightarrow> sc_PgPort sc = ''6432'' \<or> sc_PgHost sc = ''pgbouncer''"

definition pg_dsn :: "service_cfg \<Rightarrow> string" where
  "pg_dsn sc = ''postgresql://'' @ sc_PgUsername sc @ '':'' @ sc_PgPassword sc @ ''@'' @ sc_PgHost sc @ '':'' @
     sc_PgPort sc @ ''/'' @ sc_PgDatabase sc @ ''?sslmode=disable''"

text \<open>
  What is set on top of the parsed text, which has no runtime parameters of its own; durations
  are in seconds.
\<close>

definition pg_pool_config :: "service_cfg \<Rightarrow> pool_config" where
  "pg_pool_config sc =
     \<lparr>pc_dsn = pg_dsn sc, pc_MaxConns = 200, pc_MinConns = 20, pc_MaxConnLifetime = 30 * 60,
      pc_MaxConnLifetimeJitter = 5 * 60, pc_MaxConnIdleTime = 5 * 60, pc_HealthCheckPeriod = 15,
      pc_ConnectTimeout = 2,
      pc_RuntimeParams =
        (if \<not> usePgBouncer sc
         then [(''jit'', ''off''), (''work_mem'', ''16MB''), (''effective_cache_size'', ''4GB''),
           (''statement_timeout'', ''5000''), (''lock_timeout'', ''2000''),
           (''idle_in_transaction_session_timeout'', ''10000''), (''synchronous_commit'', ''off'')]
         else [(''application_name'', ''tasks-service'')]),
      pc_PreferSimpleProtocol = usePgBouncer sc\<rparr>"

text \<open>
  One attempt of the closure, which also sets the variable \<open>pool\<close> outside of it. A pool whose
  ping fails stays open.
\<close>

definition pg_attempt :: "pool_config \<Rightarrow> pool_config option \<times> network \<Rightarrow> go_err option \<times> pool_config option \<times> network" where
  "pg_attempt pc pw =
     (case pw of (pool, nw) \<Rightarrow>
       (let met = next_dial (nw_pg nw);
            nw = nw\<lparr>nw_pg := tl (nw_pg nw)\<rparr>;
            opened = nw\<lparr>nw_pools := nw_pools nw @ [pc]\<rparr>
        in case met of
             NoDial \<Rightarrow> (Some (Wrap ''connect to pg'' (Msg ''dial'')), None, nw)
           | NoPing \<Rightarrow> (Some (Msg ''ping''), Some pc, opened)
           | Up \<Rightarrow> (None, Some pc, opened)))"

definition pg_NewClient :: "int \<Rightarrow> service_cfg \<Rightarrow> network \<Rightarrow> (go_err + pool_config option) \<times> network" where
  "pg_NewClient maxAttempts sc nw =
     (if \<not> nw_parses nw (pg_dsn sc) then (Inl (Wrap ''failed to parse pg config'' (Msg ''dsn'')), nw)
      else case DoWithTries (pg_attempt (pg_pool_config sc)) maxAttempts None (None, nw) of
             (Some e, _, nw) \<Rightarrow> (Inl (Wrap ''failed to connect to postgres'' e), nw)
           | (None, pool, nw) \<Rightarrow> (Inr pool, nw))"

section \<open>Redis\<close>

text \<open>\<open>redis.NewClient\<close> does not connect; every attempt makes a client of its own.\<close>

definition redis_attempt :: "string \<Rightarrow> string option \<times> network \<Rightarrow> go_err option \<times> string option \<times> network" where
  "redis_attempt addr cw =
     (case cw of (client, nw) \<Rightarrow>
       (let met = next_dial (nw_redis nw);
            nw = nw\<lparr>nw_redis := tl (nw_redis nw), nw_clients := nw_clients nw @ [addr]\<rparr>
        in (if met = Up then None else Some (Msg ''ping''), Some addr, nw)))"

definition redis_NewClient :: "int \<Rightarrow> service_cfg \<Rightarrow> network \<Rightarrow> (go_err + string option) \<times> network" where
  "redis_NewClient maxAttempts sc nw =
     (case DoWithTries (redis_attempt (sc_RedisHost sc @ '':'' @ sc_RedisPort sc)) maxAttempts None (None, nw) of
        (Some e, _, nw) \<Rightarrow> (Inl (Wrap ''failed to connect to Redis'' e), nw)
      | (None, client, nw) \<Rightarrow> (Inr client, nw))"

section \<open>The broker and the listener\<close>

text \<open>\<open>ping\<close> asks the first broker only; indexing an empty list would panic.\<close>

definition kafka_ping :: "service_cfg \<Rightarrow> network \<Rightarrow> go_err option outcome" where
  "kafka_ping sc nw =
     (case sc_Brokers sc of
        [] \<Rightarrow> Panic
      | b # _ \<Rightarrow> Ret (case nw_kafka nw of
            NoDial \<Rightarrow> Some (Wrap (''cannot connect to broker '' @ b) (Msg ''dial''))
          | NoPing \<Rightarrow> Some (Msg ''partitions'')
          | Up \<Rightarrow> None))"

definition kafka_NewClient :: "service_cfg \<Rightarrow> network \<Rightarrow> (go_err + unit) outcome" where
  "kafka_NewClient sc nw =
     (case kafka_ping sc nw of
        Panic \<Rightarrow> Panic
      | Ret (Some e) \<Rightarrow> Ret (Inl (Wrap ''kafka not available'' e))
      | Ret None \<Rightarrow> Ret (Inr ()))"

text \<open>How the start ends: the process exits in one of its stages, or it serves.\<close>

datatype stage = AtConfig | AtPostgres | AtRedis | AtKafka | AtListen
datatype start = Exited stage | Crashed | Serving

definition main_start :: "(string \<Rightarrow> string) \<Rightarrow> network \<Rightarrow> start \<times> network" where
  "main_start os nw =
     (case GetConfig os of
        None \<Rightarrow> (Exited AtConfig, nw)
      | Some cfg \<Rightarrow>
          (case pg_NewClient 10 cfg nw of
             (Inl e, nw) \<Rightarrow> (Exited AtPostgres, nw)
           | (Inr pool, nw) \<Rightarrow>
               (case redis_NewClient 10 cfg nw of
                  (Inl e, nw) \<Rightarrow> (Exited AtRedis, nw)
                | (Inr client, nw) \<Rightarrow>
                    (case kafka_NewClient cfg nw of
                       Panic \<Rightarrow> (Crashed, nw)
                     | Ret (Inl e) \<Rightarrow> (Exited AtKafka, nw)
                     | Ret (Inr _) \<Rightarrow>
                         if nw_listens nw then (Serving, nw) else (Exited AtListen, nw)))))"

section \<open>When the service starts\<close>

text \<open>
  One of the first \<open>n\<close> attempts meets a server that answers; how many attempts are made, and how
  many of the failed ones got a connection.
\<close>

fun up_within :: "nat \<Rightarrow> dial list \<Rightarrow> bool" where
  "up_within 0 ds = False"
| "up_within (Suc n) ds = (next_dial ds = Up \<or> up_within n (tl ds))"

fun tries :: "nat \<Rightarrow> dial list \<Rightarrow> nat" where
  "tries 0 ds = 0"
| "tries (Suc n) ds = (if next_dial ds = Up then 1 else Suc (tries n (tl ds)))"

fun unanswered :: "nat \<Rightarrow> dial list \<Rightarrow> nat" where
  "unanswered 0 ds = 0"
| "unanswered (Suc n) ds =
     (case next_dial ds of Up \<Rightarrow> 0 | NoDial \<Rightarrow> unanswered n (tl ds) | NoPing \<Rightarrow> Suc (unanswered n (tl ds)))"

lemma DoWithTries_Suc:
  "DoWithTries fn (int (Suc n)) err s =
     (case fn s of (Some e, s) \<Rightarrow> DoWithTries fn (int n) (Some e) s | (None, s) \<Rightarrow> (None, s))"
  by (subst DoWithTries.simps) (auto split: prod.split option.split)

lemma DoWithTries_0: "DoWithTries fn (int 0) err s = (err, s)"
  by (subst DoWithTries.simps) simp

lemma replicate_snoc: "xs @ [x] @ replicate n x = xs @ replicate (Suc n) x"
  by simp

lemma pg_attempt_simps:
  "next_dial (nw_pg nw) = NoDial \<Longrightarrow> pg_attempt pc (pool, nw)
     = (Some (Wrap ''connect to pg'' (Msg ''dial'')), None, nw\<lparr>nw_pg := tl (nw_pg nw)\<rparr>)"
  "next_dial (nw_pg nw) = NoPing \<Longrightarrow> pg_attempt pc (pool, nw)
     = (Some (Msg ''ping''), Some pc, nw\<lparr>nw_pg := tl (nw_pg nw), nw_pools := nw_pools nw @ [pc]\<rparr>)"
  "next_dial (nw_pg nw) = Up \<Longrightarrow> pg_attempt pc (pool, nw)
     = (None, Some pc, nw\<lparr>nw_pg := tl (nw_pg nw), nw_pools := nw_pools nw @ [pc]\<rparr>)"
  by (simp_all add: pg_attempt_def)

lemma pg_tries:
  "n > 0 \<or> err \<noteq> None \<Longrightarrow> DoWithTries (pg_attempt pc) (int n) err (pool, nw) = (r, pool', nw') \<Longrightarrow>
     (r = None \<longleftrightarrow> up_within n (nw_pg nw)) \<and> (r = None \<longrightarrow> pool' = Some pc)
     \<and> nw_redis nw' = nw_redis nw \<and> nw_kafka nw' = nw_kafka nw \<and> nw_listens nw' = nw_listens nw
     \<and> nw_clients nw' = nw_clients nw
     \<and> nw_pools nw' = nw_pools nw @ replicate (unanswered n (nw_pg nw) + (if r = None then 1 else 0)) pc"
proof (induction n arbitrary: err pool nw)
  case 0
  then show ?case unfolding DoWithTries_0 by auto
next
  case (Suc n)
  have run: "(case pg_attempt pc (pool, nw) of (Some e, s) \<Rightarrow> DoWithTries (pg_attempt pc) (int n) (Some e) s
      | (None, s) \<Rightarrow> (None, s)) = (r, pool', nw')"
    using Suc.prems(2) unfolding DoWithTries_Suc .
  show ?case
  proof (cases "next_dial (nw_pg nw)")
    case NoDial
    with run Suc.IH [of "Some (Wrap ''connect to pg'' (Msg ''dial''))" None "nw\<lparr>nw_pg := tl (nw_pg nw)\<rparr>"]
    show ?thesis by (simp add: pg_attempt_simps split: if_splits)
  next
    case NoPing
    with run Suc.IH [of "Some (Msg ''ping'')" "Some pc"
        "nw\<lparr>nw_pg := tl (nw_pg nw), nw_pools := nw_pools nw @ [pc]\<rparr>"]
    show ?thesis by (simp add: pg_attempt_simps split: if_splits)
  next
    case Up
    with run show ?thesis by (auto simp: pg_attempt_simps)
  qed
qed

lemma redis_tries:
  "n > 0 \<or> err \<noteq> None \<Longrightarrow> DoWithTries (redis_attempt addr) (int n) err (client, nw) = (r, client', nw') \<Longrightarrow>
     (r = None \<longleftrightarrow> up_within n (nw_redis nw)) \<and> (r = None \<longrightarrow> client' = Some addr)
     \<and> nw_kafka nw' = nw_kafka nw \<and> nw_listens nw' = nw_listens nw \<and> nw_pools nw' = nw_pools nw
     \<and> nw_clients nw' = nw_clients nw @ replicate (tries n (nw_redis nw)) addr"
proof (induction n arbitrary: err client nw)
  case 0
  then show ?case unfolding DoWithTries_0 by auto
next
  case (Suc n)
  let ?nw = "nw\<lparr>nw_redis := tl (nw_redis nw), nw_clients := nw_clients nw @ [addr]\<rparr>"
  have run: "(case redis_attempt addr (client, nw) of (Some e, s) \<Rightarrow> DoWithTries (redis_attempt addr) (int n) (Some e) s
      | (None, s) \<Rightarrow> (None, s)) = (r, client', nw')"
    using Suc.prems(2) unfolding DoWithTries_Suc .
  show ?case
  proof (cases "next_dial (nw_redis nw) = Up")
    case True
    with run show ?thesis by (simp add: redis_attempt_def) auto
  next
    case False
    then have "redis_attempt addr (client, nw) = (Some (Msg ''ping''), Some addr, ?nw)"
      by (simp add: redis_attempt_def)
    with run Suc.IH [of "Some (Msg ''ping'')" "Some addr" ?nw] False show ?thesis by simp
  qed
qed

lemma pg_NewClient_spec:
  assumes "pg_NewClient 10 sc nw = (r, nw')"
  shows "(\<exists>p. r = Inr p) \<longleftrightarrow> nw_parses nw (pg_dsn sc) \<and> up_within 10 (nw_pg nw)"
    and "r = Inr p \<Longrightarrow> p = Some (pg_pool_config sc)
      \<and> nw_pools nw' = nw_pools nw @ replicate (unanswered 10 (nw_pg nw) + 1) (pg_pool_config sc)"
    and "nw_redis nw' = nw_redis nw \<and> nw_kafka nw' = nw_kafka nw \<and> nw_listens nw' = nw_listens nw
      \<and> nw_clients nw' = nw_clients nw"
proof -
  obtain e po nw1 where t: "DoWithTries (pg_attempt (pg_pool_config sc)) (int 10) None (None, nw) = (e, po, nw1)"
    by (metis prod_cases3)
  note facts = pg_tries [OF _ t, simplified]
  show "(\<exists>p. r = Inr p) \<longleftrightarrow> nw_parses nw (pg_dsn sc) \<and> up_within 10 (nw_pg nw)"
    using assms t facts by (auto simp: pg_NewClient_def split: if_splits option.splits)
  show "r = Inr p \<Longrightarrow> p = Some (pg_pool_config sc)
      \<and> nw_pools nw' = nw_pools nw @ replicate (unanswered 10 (nw_pg nw) + 1) (pg_pool_config sc)"
    using assms t facts by (auto simp: pg_NewClient_def split: if_splits option.splits)
  show "nw_redis nw' = nw_redis nw \<and> nw_kafka nw' = nw_kafka nw \<and> nw_listens nw' = nw_listens nw
      \<and> nw_clients nw' = nw_clients nw"
    using assms t facts by (auto simp: pg_NewClient_def split: if_splits option.splits)
qed

lemma redis_NewClient_spec:
  assumes "redis_NewClient 10 sc nw = (r, nw')"
  shows "(\<exists>c. r = Inr c) \<longleftrightarrow> up_within 10 (nw_redis nw)"
    and "r = Inr c \<Longrightarrow> c = Some (sc_RedisHost sc @ '':'' @ sc_RedisPort sc)"
    and "nw_kafka nw' = nw_kafka nw \<and> nw_listens nw' = nw_listens nw \<and> nw_pools nw' = nw_pools nw
      \<and> nw_clients nw' = nw_clients nw @ replicate (tries 10 (nw_redis nw)) (sc_RedisHost sc @ '':'' @ sc_RedisPort sc)"
proof -
  obtain e cl nw1 where t: "DoWithTries (redis_attempt (sc_RedisHost sc @ '':'' @ sc_RedisPort sc)) (int 10) None (None, nw)
      = (e, cl, nw1)"
    by (metis prod_cases3)
  note facts = redis_tries [OF _ t, simplified]
  show "(\<exists>c. r = Inr c) \<longleftrightarrow> up_within 10 (nw_redis nw)"
    using assms t facts by (auto simp: redis_NewClient_def split: option.splits)
  show "r = Inr c \<Longrightarrow> c = Some (sc_RedisHost sc @ '':'' @ sc_RedisPort sc)"
    using assms t facts by (auto simp: redis_NewClient_def split: option.splits)
  show "nw_kafka nw' = nw_kafka nw \<and> nw_listens nw' = nw_listens nw \<and> nw_pools nw' = nw_pools nw
      \<and> nw_clients nw' = nw_clients nw @ replicate (tries 10 (nw_redis nw)) (sc_RedisHost sc @ '':'' @ sc_RedisPort sc)"
    using assms t facts by (auto simp: redis_NewClient_def split: option.splits)
qed

lemma tries_bound: "tries n ds \<le> n"
  by (induction n arbitrary: ds) auto

lemma unanswered_bound: "up_within n ds \<Longrightarrow> unanswered n ds < n"
  by (induction n arbitrary: ds) (fastforce split: dial.splits)+

text \<open>C35: The start never panics. The service serves exactly when both secrets are set, the
  configuration of the database can be parsed, database and Redis each answer one of ten
  attempts, the first broker answers and the address is free. By then every attempt whose ping
  failed has left a pool open, up to nine, and every attempt a Redis client.
\<close>

theorem start_serves_iff:
  shows "\<exists>r nw'. main_start os nw = (r, nw') \<and> r \<noteq> Crashed
    \<and> (r = Serving \<longleftrightarrow> os ''JWT_SECRET'' \<noteq> [] \<and> os ''GATEWAY_SIGN'' \<noteq> []
        \<and> nw_parses nw (pg_dsn (the (GetConfig os))) \<and> up_within 10 (nw_pg nw) \<and> up_within 10 (nw_redis nw)
        \<and> nw_kafka nw = Up \<and> nw_listens nw)
    \<and> (if r = Serving
       then length (nw_pools nw') = length (nw_pools nw) + unanswered 10 (nw_pg nw) + 1
         \<and> unanswered 10 (nw_pg nw) \<le> 9
         \<and> length (nw_clients nw') = length (nw_clients nw) + tries 10 (nw_redis nw)
       else True)"
proof -
  show ?thesis
  proof (cases "GetConfig os")
    case None
    then show ?thesis by (auto simp: main_start_def GetConfig_def requireEnv_def split: if_splits option.splits)
  next
    case (Some cfg)
    then have env: "os ''JWT_SECRET'' \<noteq> []" "os ''GATEWAY_SIGN'' \<noteq> []" and brokers: "sc_Brokers cfg \<noteq> []"
      by (auto simp: GetConfig_def requireEnv_def split: if_splits option.splits)
    obtain p nw1 where p: "pg_NewClient 10 cfg nw = (p, nw1)" by force
    obtain c nw2 where c: "redis_NewClient 10 cfg nw1 = (c, nw2)" by force
    show ?thesis
      using Some env brokers pg_NewClient_spec [OF p] redis_NewClient_spec [OF c] unanswered_bound [of 10 "nw_pg nw"]
      by (cases p; cases c; cases "sc_Brokers cfg"; cases "nw_kafka nw")
        (auto simp: main_start_def p c kafka_NewClient_def kafka_ping_def)
  qed
qed

end
