(* ===== verification/Shutdown.thy ===== *)
theory Shutdown
  imports System
begin

text \<open>
  The end of the process: a signal, \<open>waitForShutdown\<close> of \<open>cmd/main.go\<close>, and then the deferred
  calls of \<open>main\<close> in reverse order. The workers are not waited for, so their steps interleave
  with the deferred calls until the process is gone: the exit is a transition system whose events are
  the next deferred call and the activities of the goroutines that are left.
\<close>

section \<open>The deferred calls\<close>

datatype cleanup = CancelContexts | ClosePostgres | CloseRedis | CloseKafka

text \<open>In the order of the \<open>defer\<close> statements.\<close>

definition main_defers :: "cleanup list" where
  "main_defers = [CancelContexts, ClosePostgres, CloseRedis, CloseKafka]"

text \<open>Every method of a closed Redis client fails.\<close>

definition closed_redis :: "'r redis" where
  "closed_redis = \<lparr>rd_Get = (\<lambda>tm k c. (Inl (Msg ''redis: client is closed''), c)),
     rd_Set = (\<lambda>tm k d ttl c. (Inl (Msg ''redis: client is closed''), c)),
     rd_Del = (\<lambda>tm ks c. (Inl (Msg ''redis: client is closed''), c)),
     rd_SMembers = (\<lambda>tm k c. (Inl (Msg ''redis: client is closed''), c)),
     rd_Exec = (\<lambda>tm cs c. (Inl (Msg ''redis: client is closed''), c))\<rparr>"

text \<open>
  A closed pool and a closed writer refuse every call; \<open>n\<close> is how many calls the model lets them
  refuse, to be chosen larger than the number of calls that still come. What closing the writer
  returned is only logged and does not show in the client (\<open>client_Close_state\<close>).
\<close>

definition close_pg :: "nat \<Rightarrow> 'r app \<Rightarrow> 'r app" where
  "close_pg n S = snd (on_pg (\<lambda>s. ((), s\<lparr>faults := replicate n Refused\<rparr>)) S)"

fun cleanup_step ::
    "nat \<Rightarrow> cleanup \<Rightarrow> ('g, 'r) config \<times> ('g, 'r) system \<Rightarrow> ('g, 'r) config \<times> ('g, 'r) system" where
  "cleanup_step n CloseKafka (C, Y) =
     (C, Y\<lparr>sy_kafka := snd (client_Close n Hangs (sy_kafka Y))\<rparr>)"
| "cleanup_step n CloseRedis (C, Y) = (C\<lparr>cf_redis := closed_redis\<rparr>, Y)"
| "cleanup_step n ClosePostgres (C, Y) = (C, Y\<lparr>sy_app := close_pg n (sy_app Y)\<rparr>)"
| "cleanup_step n CancelContexts (C, Y) =
     (C, Y\<lparr>sy_app := (sy_app Y)\<lparr>ap_proc := (ap_proc (sy_app Y))\<lparr>pr_cancelled := True\<rparr>\<rparr>\<rparr>)"

text \<open>
  The activities of the goroutines that are left once \<open>server.Shutdown\<close> has drained the requests: the
  two batch workers, the outbox processor, the reminder worker and the calls in flight. The context
  is cancelled by the deferred call alone. (A request that outlives the ten seconds of
  \<open>waitForShutdown\<close> is outside this model.)
\<close>

fun left_over :: "activity \<Rightarrow> bool" where
  "left_over (TaskRequest c) = False"
| "left_over (SharedRequest c) = False"
| "left_over (TagRequest c) = False"
| "left_over CancelContext = False"
| "left_over _ = True"

text \<open>
  The exit: \<open>Unwind\<close> runs the next deferred call, \<open>Goes\<close> is a step of another goroutine. A call that
  is in flight when a client is closed belongs before the close, with its remaining round trips
  refused (\<open>faults\<close> may hold such answers at any point); the pool's \<open>Close\<close> waits for it.
\<close>

datatype exit_event = Unwind | Goes env activity

fun exit_step ::
    "nat \<Rightarrow> notify_cfg \<Rightarrow> users_cfg \<Rightarrow> exit_event \<Rightarrow> cleanup list \<times> ('g, 'r) config \<times> ('g, 'r) system
      \<Rightarrow> (cleanup list \<times> ('g, 'r) config \<times> ('g, 'r) system) option" where
  "exit_step n N U Unwind ([], CY) = None"
| "exit_step n N U Unwind (d # ds, CY) = Some (ds, cleanup_step n d CY)"
| "exit_step n N U (Goes E a) (ds, C, Y) =
     (if left_over a then map_option (\<lambda>Z. (ds, C, Z)) (activity_step C N U E a Y) else None)"

inductive main_exit ::
    "nat \<Rightarrow> notify_cfg \<Rightarrow> users_cfg \<Rightarrow> ('g, 'r) config \<times> ('g, 'r) system \<Rightarrow> exit_event list
      \<Rightarrow> cleanup list \<times> ('g, 'r) config \<times> ('g, 'r) system \<Rightarrow> bool"
  for n N U CY where
  signalled: "main_exit n N U CY [] (rev main_defers, CY)"
| goes_on: "main_exit n N U CY es S \<Longrightarrow> exit_step n N U e S = Some S' \<Longrightarrow> main_exit n N U CY (es @ [e]) S'"

inductive_cases main_exit_snoc: "main_exit n N U CY (es @ [e]) S"

section \<open>What becomes of the queues\<close>

text \<open>
  A call that makes at most \<open>k\<close> round trips: on a pool that refuses the next \<open>k\<close> it changes
  nothing.
\<close>

definition down :: "pg \<Rightarrow> bool" where
  "down s \<longleftrightarrow> set (faults s) \<subseteq> {Refused}"

definition costs :: "nat \<Rightarrow> pg \<Rightarrow> pg \<Rightarrow> bool" where
  "costs k s s' \<longleftrightarrow> (down s \<and> k \<le> length (faults s) \<longrightarrow>
     store s' = store s \<and> down s' \<and> length (faults s) \<le> length (faults s') + k)"

lemma costs_refl [simp]: "costs k s s"
  by (simp add: costs_def)

lemma costs_trans: "costs k s s1 \<Longrightarrow> costs l s1 s2 \<Longrightarrow> costs (k + l) s s2"
  by (auto simp: costs_def)

lemma costs_mono: "costs k s s' \<Longrightarrow> k \<le> l \<Longrightarrow> costs l s s'"
  by (auto simp: costs_def)

lemma costs_ctr: "costs k (s\<lparr>ctr := n\<rparr>) s' \<Longrightarrow> costs k s s'"
  by (simp add: costs_def down_def)

lemma next_net_down:
  "down s \<Longrightarrow> 1 \<le> length (faults s) \<Longrightarrow> next_net s = (Refused, s\<lparr>faults := tl (faults s)\<rparr>)"
  by (cases "faults s") (auto simp: next_net_def down_def)

lemma down_tl: "down s \<Longrightarrow> down (s\<lparr>faults := tl (faults s)\<rparr>)"
  by (cases "faults s") (auto simp: down_def)

lemma pg_run_down:
  "down s \<Longrightarrow> 1 \<le> length (faults s)
     \<Longrightarrow> pg_run q s = (Inl (DbError ''connection''), s\<lparr>faults := tl (faults s)\<rparr>)"
  by (simp add: pg_run_def next_net_down)

lemma pg_run_costs: "costs 1 s (snd (pg_run q s))"
  by (auto simp: costs_def pg_run_def next_net_down down_tl)

lemma pg_tx_costs: "costs 1 s (snd (pg_tx b c body s))"
  by (auto simp: costs_def pg_tx_def next_net_down down_tl)

lemmas run_costs = costs_ctr [OF pg_run_costs, unfolded One_nat_def]

lemma pg_tx_ctr_costs: "pg_tx b c body (s\<lparr>ctr := n\<rparr>) = (r, s') \<Longrightarrow> costs (Suc 0) s s'"
  using costs_ctr [OF pg_tx_costs [of "s\<lparr>ctr := n\<rparr>" b c body]] by simp

lemma pg_run_refused: "down s \<Longrightarrow> 1 \<le> length (faults s) \<Longrightarrow> fst (pg_run q s) = Inl (DbError ''connection'')"
  by (simp add: pg_run_def next_net_down)

lemma snd_wrap_err: "snd (wrap_err m rs) = snd rs"
  by (simp add: wrap_err_def split: prod.split sum.split)

lemma repo_Create_costs: "costs 1 s (snd (repo_Create E t s))"
  by (auto simp: repo_Create_def Let_def take_id_def snd_wrap_err
      intro: run_costs)

lemma repo_Create_fails: "down s \<Longrightarrow> 1 \<le> length (faults s) \<Longrightarrow> \<exists>e. fst (repo_Create E t s) = Inl e"
  by (auto simp: repo_Create_def Let_def take_id_def wrap_err_def pg_run_refused down_def
      split: prod.split sum.split dest!: arg_cong [of _ _ fst])

lemma svc_CreateTask_costs: "costs 1 s (snd (svc_CreateTask E t s))"
  using repo_Create_costs [of s E t] repo_Create_fails [of s E t]
  by (auto simp: svc_CreateTask_def costs_def split: prod.split sum.split)

lemma create_tagged_costs:
  "create_tagged E ts s = (simple, s') \<Longrightarrow> costs (length ts) s s' \<and> length simple \<le> length ts"
proof (induction E ts s arbitrary: simple s' rule: create_tagged.induct)
  case (2 E t ts s)
  obtain r s1 where c: "svc_CreateTask E t s = (r, s1)" by force
  have "costs 1 s s1" using svc_CreateTask_costs [of s E t] c by simp
  with 2 c show ?case
    using costs_trans [of 1 s s1 "length ts" s'] costs_mono
    by (cases "nonblank (t_TagName t)") (fastforce split: prod.splits)+
qed simp

lemma flushCreate_costs:
  assumes "flushCreate E ts (s, jobs) = (s', jobs')"
  shows "costs (length ts + 1) s s'"
proof -
  obtain simple s1 where c: "create_tagged E ts s = (simple, s1)" by force
  have "costs 1 s1 (snd (svc_CreateTaskBatch E simple s1))"
    by (auto simp: svc_CreateTaskBatch_def repo_CreateBatch_def Let_def split: prod.split sum.split
        dest: pg_tx_ctr_costs)
  then show ?thesis
    using assms c create_tagged_costs [OF c] costs_trans [of "length ts" s s1 1]
    by (auto simp: flushCreate_def Let_def split: if_splits intro: costs_mono)
qed

lemma flushDelete_costs:
  assumes "flushDelete E items (s, jobs) = (s', jobs')"
  shows "costs 1 s s'"
proof -
  have h: "costs 1 s (snd (repo_DeleteBatch E ids s))" for ids
    by (auto simp: repo_DeleteBatch_def Let_def snd_wrap_err intro: run_costs)
  have "costs 1 s (snd (svc_DeleteTaskBatch E ids s))" for ids
    using h [of ids] by (cases "repo_DeleteBatch E ids s") (simp add: svc_DeleteTaskBatch_def split: sum.split)
  then show ?thesis using assms by (auto simp: flushDelete_def)
qed

lemma creates_cost:
  "fold (flushCreate E) bs (s, jobs) = (s', jobs') \<Longrightarrow> \<forall>b \<in> set bs. b \<noteq> [] \<Longrightarrow>
     costs (2 * length (concat bs)) s s'"
proof (induction bs arbitrary: s jobs)
  case (Cons b bs)
  obtain s1 jobs1 where f: "flushCreate E b (s, jobs) = (s1, jobs1)" by force
  have "costs (2 * length b) s s1"
    using Cons.prems(2) flushCreate_costs [OF f] by (cases b) (auto intro: costs_mono)
  from costs_trans [OF this Cons.IH] Cons.prems f show ?case by (simp add: algebra_simps)
qed simp

lemma deletes_cost:
  "fold (flushDelete E) bs (s, jobs) = (s', jobs') \<Longrightarrow> \<forall>b \<in> set bs. b \<noteq> [] \<Longrightarrow>
     costs (length (concat bs)) s s'"
proof (induction bs arbitrary: s jobs)
  case (Cons b bs)
  obtain s1 jobs1 where f: "flushDelete E b (s, jobs) = (s1, jobs1)" by force
  have "costs (length b) s s1"
    using Cons.prems(2) flushDelete_costs [OF f] by (cases b) (auto intro: costs_mono)
  from costs_trans [OF this Cons.IH] Cons.prems f show ?case by simp
qed simp

lemma processor_tick_costs: "processor_tick E (s, k) = (s', k') \<Longrightarrow> costs 1 s s'"
  unfolding costs_def
  by (auto simp: processor_tick_def processBatch_def repo_GetUnprocessedEvents_def wrap_err_def
      pg_query_def pg_run_down down_tl)

lemma window_costs: "window_at E cfg win t (s, g) = (s', g') \<Longrightarrow> costs 1 s s'"
  unfolding costs_def
  by (auto simp: window_at_def processWindow_def repo_FindTasksDueForReminder_def wrap_err_def Let_def
      pg_query_def pg_run_down down_tl)

lemma reminder_poll_costs:
  assumes "reminder_poll E cfg ts (s, g) = (s', g')"
  shows "costs 3 s s'"
proof -
  obtain t60 t15 t5 where ts: "ts = (t60, t15, t5)" by (metis prod_cases3)
  let ?w = "\<lambda>win t sg. window_at E cfg win t sg"
  obtain s1 g1 where 1: "?w (window_around Window60m (minutes 60) ''60m'') t60 (s, g) = (s1, g1)" by force
  obtain s2 g2 where 2: "?w (window_around Window15m (minutes 15) ''15m'') t15 (s1, g1) = (s2, g2)" by force
  have 3: "?w (window_around Window5m (minutes 5) ''5m'') t5 (s2, g2) = (s', g')"
    using assms 1 2 by (simp add: reminder_poll_def ts)
  from costs_trans [OF costs_trans [OF window_costs [OF 1] window_costs [OF 2]] window_costs [OF 3]]
  show ?thesis by (simp add: numeral_3_eq_3)
qed

text \<open>The round trips the queued items can still cause.\<close>

definition queued :: "'r processor \<Rightarrow> nat" where
  "queued p = 2 * (length (w_batch (pr_create p)) + length (w_ch (pr_create p)))
     + length (w_batch (pr_delete p)) + length (w_ch (pr_delete p))"

abbreviation sys_pg :: "('g, 'r) system \<Rightarrow> pg" where
  "sys_pg Y \<equiv> pr_pg (ap_proc (sy_app Y))"

abbreviation sys_queued :: "('g, 'r) system \<Rightarrow> nat" where
  "sys_queued Y \<equiv> queued (ap_proc (sy_app Y))"

definition within :: "nat \<Rightarrow> ('g, 'r) system \<Rightarrow> ('g, 'r) system \<Rightarrow> bool" where
  "within k Y Z \<longleftrightarrow> (\<exists>c. c + sys_queued Z \<le> sys_queued Y + k \<and> costs c (sys_pg Y) (sys_pg Z))"

lemma withinI: "costs c (sys_pg Y) (sys_pg Z) \<Longrightarrow> c + sys_queued Z \<le> sys_queued Y + k \<Longrightarrow> within k Y Z"
  by (auto simp: within_def)

lemma within_same: "sys_pg Z = sys_pg Y \<Longrightarrow> sys_queued Z = sys_queued Y \<Longrightarrow> within k Y Z"
  by (rule withinI [of 0]) simp_all

lemma within_mono: "within k Y Z \<Longrightarrow> k \<le> l \<Longrightarrow> within l Y Z"
  unfolding within_def by (meson add_le_mono le_trans order_refl)

lemma worker_step_queued:
  assumes "worker_step n c ch w = Some (w', bs)" and "in_bounds cap n w"
  shows "length (concat bs) + (length (w_batch w') + length (w_ch w')) = length (w_batch w) + length (w_ch w)"
    and "\<forall>b \<in> set bs. b \<noteq> []"
proof -
  have "length (concat bs @ w_batch w' @ w_ch w') = length (w_batch w @ w_ch w)"
    by (simp only: worker_step_items(1) [OF assms])
  then show "length (concat bs) + (length (w_batch w') + length (w_ch w')) = length (w_batch w) + length (w_ch w)"
    by simp
  show "\<forall>b \<in> set bs. b \<noteq> []" using worker_step_items(2) [OF assms] by blast
qed

lemma loop_within:
  assumes "batch_event C E ev Y = Some Z" and "queues_ok (sy_app Y)"
    and "ev \<in> {Cancel} \<union> range CreateWorker \<union> range DeleteWorker \<union> range CacheJob"
  shows "within 0 Y Z"
proof -
  let ?p = "ap_proc (sy_app Y)"
  obtain p where p: "processor_step (cf_redis C) E ev ?p = Some p"
    and Z: "Z = Y\<lparr>sy_app := (sy_app Y)\<lparr>ap_proc := p\<rparr>\<rparr>"
    using assms(1) by (auto simp: batch_event_def)
  have b: "in_bounds 10000 500 (pr_create ?p)" "in_bounds 10000 500 (pr_delete ?p)"
    using assms(2) by (simp_all add: queues_ok_def)
  consider "ev = Cancel" | (create) c where "ev = CreateWorker c" | (delete) c where "ev = DeleteWorker c"
    | (job) k where "ev = CacheJob k"
    using assms(3) by blast
  then show ?thesis
  proof cases
    case 1
    with p show ?thesis by (intro within_same) (auto simp: Z queued_def)
  next
    case create
    obtain w bs s jobs where w: "worker_step 500 (pr_cancelled ?p) c (pr_create ?p) = Some (w, bs)"
      and f: "fold (flushCreate E) bs (pr_pg ?p, pr_jobs ?p) = (s, jobs)"
      and p': "p = ?p\<lparr>pr_create := w, pr_pg := s, pr_jobs := jobs\<rparr>"
      using p by (auto simp: create runCreateWorker_def split: option.splits prod.splits)
    note q = worker_step_queued [OF w b(1)]
    show ?thesis
      by (rule withinI [of "2 * length (concat bs)"])
        (use creates_cost [OF f q(2)] q(1) in \<open>simp_all add: Z p' queued_def del: length_concat\<close>)
  next
    case delete
    obtain w bs s jobs where w: "worker_step 500 (pr_cancelled ?p) c (pr_delete ?p) = Some (w, bs)"
      and f: "fold (flushDelete E) bs (pr_pg ?p, pr_jobs ?p) = (s, jobs)"
      and p': "p = ?p\<lparr>pr_delete := w, pr_pg := s, pr_jobs := jobs\<rparr>"
      using p by (auto simp: delete runDeleteWorker_def split: option.splits prod.splits)
    note q = worker_step_queued [OF w b(2)]
    show ?thesis
      by (rule withinI [of "length (concat bs)"])
        (use deletes_cost [OF f q(2)] q(1) in \<open>simp_all add: Z p' queued_def del: length_concat\<close>)
  next
    case job
    with p show ?thesis
      by (intro within_same) (auto simp: Z queued_def job_step_def split: if_splits list.splits)
  qed
qed

lemma run_call_frame [simp]: "pr_pg (ap_proc (run_call ex op S)) = pr_pg (ap_proc S)"
  "queued (ap_proc (run_call ex op S)) = queued (ap_proc S)"
  by (auto simp: run_call_def on_redis_def queued_def split: option.split prod.split)

lemma activity_within:
  assumes "activity_step C N U E a Y = Some Z" and "left_over a" and "queues_ok (sy_app Y)"
  shows "within 3 Y Z"
proof -
  have loop: "batch_event C E ev Y = Some Z \<Longrightarrow>
      ev \<in> {Cancel} \<union> range CreateWorker \<union> range DeleteWorker \<union> range CacheJob \<Longrightarrow> within 3 Y Z" for ev
    using within_mono [OF loop_within [OF _ assms(3)], of C E ev Z 3] by simp
  show ?thesis
  proof (cases a)
    case OutboxTick
    obtain s k where t: "processor_tick E (sys_pg Y, sy_kafka Y) = (s, k)" by force
    show ?thesis
      by (rule withinI [of 1]) (use assms(1) OutboxTick t processor_tick_costs [OF t] in \<open>auto simp: on_pg_def queued_def\<close>)
  next
    case (ReminderPoll ts)
    obtain s g where t: "reminder_poll E N ts (sys_pg Y, sy_gateway Y) = (s, g)" by force
    show ?thesis
      by (rule withinI [of 3]) (use assms(1) ReminderPoll t reminder_poll_costs [OF t] in \<open>auto simp: on_pg_def queued_def\<close>)
  next
    case (SemaJob k)
    with assms(1) show ?thesis by (auto intro!: within_same)
  next
    case (FreeJob k)
    with assms(1) show ?thesis by (auto intro!: within_same)
  next
    case (TagJob k)
    with assms(1) show ?thesis by (auto intro!: within_same)
  next
    case (SendMessage k)
    with assms(1) show ?thesis by (auto intro!: within_same simp: Let_def split: if_splits)
  next
    case StatsTick
    with assms(1) show ?thesis by (auto intro!: within_same)
  next
    case (CreateLoop c)
    with assms(1) show ?thesis by (intro loop [of "CreateWorker c"]) simp_all
  next
    case (DeleteLoop c)
    with assms(1) show ?thesis by (intro loop [of "DeleteWorker c"]) simp_all
  next
    case (BatchJob k)
    with assms(1) show ?thesis by (intro loop [of "CacheJob k"]) simp_all
  qed (use assms(2) in simp_all)
qed

lemma queues_bounded: "queues_ok S \<Longrightarrow> queued (ap_proc S) \<le> 31500"
  by (simp add: queues_ok_def in_bounds_def queued_def)

lemma left_over_keeps:
  assumes "activity_step C N U E a Y = Some Z" and "left_over a"
  shows "pr_cancelled (ap_proc (sy_app Z)) = pr_cancelled (ap_proc (sy_app Y))"
    and "queues_ok (sy_app Y) \<Longrightarrow> queues_ok (sy_app Z)"
proof -
  have call: "pr_cancelled (ap_proc (run_call ex op S)) = pr_cancelled (ap_proc S)" for ex op S
    by (auto simp: run_call_def on_redis_def split: option.split prod.split)
  show "pr_cancelled (ap_proc (sy_app Z)) = pr_cancelled (ap_proc (sy_app Y))"
    using assms
    by (cases a) (auto simp: on_pg_def batch_event_def job_step_def runCreateWorker_def runDeleteWorker_def Let_def call
        split: prod.splits option.splits if_splits list.splits)
  show "queues_ok (sy_app Z)" if "queues_ok (sy_app Y)"
    using db_inv.service_run_keeps [OF service_run.act [OF service_run.idle assms(1)] that] by simp
qed

text \<open>
  How far the exit is: before the pool is closed the context is not cancelled; afterwards the
  tables are those of the moment the pool was closed, when the context was not cancelled yet.
\<close>

definition pool_closed_at ::
    "nat \<Rightarrow> notify_cfg \<Rightarrow> users_cfg \<Rightarrow> ('g, 'r) config \<times> ('g, 'r) system \<Rightarrow> exit_event list \<Rightarrow> db \<Rightarrow> bool" where
  "pool_closed_at n N U CY es d \<longleftrightarrow> (\<exists>es1 es2 ds C W. es = es1 @ Unwind # es2
     \<and> main_exit n N U CY es1 (ClosePostgres # ds, C, W)
     \<and> \<not> pr_cancelled (ap_proc (sy_app W)) \<and> app_db (sy_app W) = d)"

lemma pool_closed_at_snoc: "pool_closed_at n N U CY es d \<Longrightarrow> pool_closed_at n N U CY (es @ [e]) d"
  by (fastforce simp: pool_closed_at_def)

definition unwound ::
    "nat \<Rightarrow> notify_cfg \<Rightarrow> users_cfg \<Rightarrow> ('g, 'r) config \<times> ('g, 'r) system \<Rightarrow> exit_event list
      \<Rightarrow> cleanup list \<times> ('g, 'r) config \<times> ('g, 'r) system \<Rightarrow> bool" where
  "unwound n N U CY es S \<longleftrightarrow> (case S of (ds, C, Z) \<Rightarrow>
     queues_ok (sy_app Z) \<and>
     (if ClosePostgres \<in> set ds
      then suffix ds (rev main_defers) \<and> \<not> pr_cancelled (ap_proc (sy_app Z))
      else suffix ds [CancelContexts] \<and> pool_closed_at n N U CY es (app_db (sy_app Z))
        \<and> down (sys_pg Z) \<and> n + sys_queued Z \<le> length (faults (sys_pg Z)) + 31500 + 1000 * length es))"

lemma unwound_unwind:
  assumes "unwound n N U CY es (d # ds, C, Z)" and "main_exit n N U CY es (d # ds, C, Z)"
  shows "unwound n N U CY (es @ [Unwind]) (ds, cleanup_step n d (C, Z))"
proof (cases "ClosePostgres \<in> set (d # ds)")
  case True
  with assms(1) consider "d = CloseKafka" "ds = [CloseRedis, ClosePostgres, CancelContexts]"
    | "d = CloseRedis" "ds = [ClosePostgres, CancelContexts]" | "d = ClosePostgres" "ds = [CancelContexts]"
    by (auto simp: unwound_def main_defers_def suffix_Cons)
  then show ?thesis
  proof cases
    case 3
    have "\<not> pr_cancelled (ap_proc (sy_app Z))" using assms(1) by (simp add: unwound_def 3)
    then have "pool_closed_at n N U CY (es @ [Unwind]) (app_db (sy_app Z))"
      unfolding pool_closed_at_def using assms(2) [unfolded 3]
      by blast
    then show ?thesis
      using assms(1) queues_bounded [of "sy_app Z"]
      by (auto simp: unwound_def 3 close_pg_def on_pg_def down_def queued_def queues_ok_def)
  qed (use assms(1) in \<open>auto simp: unwound_def main_defers_def suffix_Cons\<close>)
next
  case False
  with assms(1) have "d = CancelContexts" "ds = []" by (auto simp: unwound_def suffix_Cons)
  with assms(1) show ?thesis
    by (auto simp: unwound_def queued_def queues_ok_def intro: pool_closed_at_snoc)
qed

lemma unwound_goes:
  assumes "unwound n N U CY es (ds, C, Y)" and "activity_step C N U E a Y = Some Z" and "left_over a"
    and n: "n \<ge> 31500 + 1000 * length (es @ [Goes E a])"
  shows "unwound n N U CY (es @ [Goes E a]) (ds, C, Z)"
proof (cases "ClosePostgres \<in> set ds")
  case True
  with assms(1) left_over_keeps [OF assms(2,3)] show ?thesis by (simp add: unwound_def)
next
  case False
  with assms(1) have Y: "queues_ok (sy_app Y)" "suffix ds [CancelContexts]" "down (sys_pg Y)"
    "pool_closed_at n N U CY es (app_db (sy_app Y))"
    "n + sys_queued Y \<le> length (faults (sys_pg Y)) + 31500 + 1000 * length es" by (simp_all add: unwound_def)
  obtain c where c: "c + sys_queued Z \<le> sys_queued Y + 3" "costs c (sys_pg Y) (sys_pg Z)"
    using activity_within [OF assms(2,3) Y(1)] by (auto simp: within_def)
  have "c \<le> length (faults (sys_pg Y))" using c(1) Y(5) n by simp
  with c(2) Y(3) have "store (sys_pg Z) = store (sys_pg Y)" "down (sys_pg Z)"
    "length (faults (sys_pg Y)) \<le> length (faults (sys_pg Z)) + c" by (simp_all add: costs_def)
  with False Y c(1) left_over_keeps(2) [OF assms(2,3)] show ?thesis
    by (auto simp: unwound_def intro: pool_closed_at_snoc)
qed

lemma exit_unwound:
  assumes "main_exit n N U (C, Y) es S" and "queues_ok (sy_app Y)" and "\<not> pr_cancelled (ap_proc (sy_app Y))"
    and "n \<ge> 31500 + 1000 * length es"
  shows "unwound n N U (C, Y) es S"
  using assms
proof (induction rule: main_exit.induct)
  case signalled
  then show ?case by (auto simp: unwound_def main_defers_def)
next
  case (goes_on es S e S')
  obtain ds C1 Z where S: "S = (ds, C1, Z)" by (metis prod_cases3)
  have IH: "unwound n N U (C, Y) es (ds, C1, Z)" using goes_on S by simp
  show ?case
  proof (cases e)
    case Unwind
    then obtain d ds' where "ds = d # ds'" using goes_on.hyps(2) S by (cases ds) auto
    with Unwind goes_on.hyps unwound_unwind [of n N U "(C, Y)" es d ds' C1 Z] IH S show ?thesis by simp
  next
    case (Goes E a)
    with goes_on.hyps(2) S unwound_goes [OF IH] goes_on.prems(3) show ?thesis by (auto split: if_splits)
  qed
qed

text \<open>C19: What was accepted and is still queued when the process ends is lost. However the steps of the
  goroutines that are left interleave with the deferred calls of \<open>main\<close>: as soon as the context
  is cancelled, which is what tells the workers to drain their queues, the pool has been closed, by a
  deferred call that ran while the context was not cancelled yet; and the tables are for ever as they were when
  the pool was closed. The batch loops write on their timer until then, but nothing a worker drains is
  written, although it was answered 202. (\<open>n\<close> is how many calls the closed pool refuses: more than
  the queues and the activities of the run can make.)
\<close>

theorem exit_loses_the_queues:
  assumes "main_exit n N U (C, Y) es (ds, C', Z)" and "queues_ok (sy_app Y)"
    and "\<not> pr_cancelled (ap_proc (sy_app Y))" and "n \<ge> 31500 + 1000 * length es"
    and "pr_cancelled (ap_proc (sy_app Z))"
  shows "\<exists>es1 es2 ds1 C1 W. es = es1 @ Unwind # es2
     \<and> main_exit n N U (C, Y) es1 (ClosePostgres # ds1, C1, W)
     \<and> \<not> pr_cancelled (ap_proc (sy_app W)) \<and> app_db (sy_app Z) = app_db (sy_app W)"
  using exit_unwound [OF assms(1-4)] assms(5)
  by (auto simp: unwound_def pool_closed_at_def split: if_splits) metis

text \<open>
  One task is queued. The worker's timer fires between the deferred calls, with nothing in its batch; after the
  last one it is told to drain, takes the task and stops with nothing left and nothing written.
\<close>

theorem exit_loses_the_queues_witness:
  "\<exists>es C' Z. main_exit 50000 sample_notify sample_users (sample_config, sample_queue) es ([], C', Z)
     \<and> w_phase (pr_create (ap_proc (sy_app Z))) = Stopped \<and> w_ch (pr_create (ap_proc (sy_app Z))) = []
     \<and> w_batch (pr_create (ap_proc (sy_app Z))) = []
     \<and> (\<exists>es1 ds1 C1 W. main_exit 50000 sample_notify sample_users (sample_config, sample_queue) es1 (ClosePostgres # ds1, C1, W)
         \<and> app_db (sy_app Z) = app_db (sy_app W))"
proof -
  let ?C = "sample_config\<lparr>cf_redis := closed_redis\<rparr>"
  let ?k = "snd (client_Close 50000 Hangs (sy_kafka sample_queue))"
  let ?goes = "\<lambda>ch. Goes sample_env (CreateLoop ch)"
  define at where "at q = sample_queue\<lparr>sy_kafka := ?k, sy_app := (sy_app sample_queue)\<lparr>ap_proc := q\<rparr>\<rparr>" for q
  define p where "p = ap_proc (sy_app sample_queue)"
  have p: "pr_create p = \<lparr>w_ch = [sample_task], w_batch = [], w_phase = Running\<rparr>" "\<not> pr_cancelled p"
    by (simp_all add: p_def sample_queue_def sample_app_def new_processor_def new_worker_def)
  have same: "p\<lparr>pr_create := \<lparr>w_ch = [sample_task], w_batch = [], w_phase = Running\<rparr>\<rparr> = p"
    by (rule processor.equality) (simp_all add: p)
  define q where "q = p\<lparr>pr_pg := (pr_pg p)\<lparr>faults := replicate 50000 Refused\<rparr>, pr_cancelled := True\<rparr>"
  have q: "pr_create q = \<lparr>w_ch = [sample_task], w_batch = [], w_phase = Running\<rparr>" "pr_cancelled q"
    by (simp_all add: q_def p)
  obtain s jobs where f: "flushCreate sample_env [sample_task] (pr_pg q, pr_jobs q) = (s, jobs)" by force
  let ?w = "\<lambda>ch b ph. \<lparr>w_ch = ch, w_batch = b, w_phase = ph\<rparr>"
  let ?q1 = "q\<lparr>pr_create := ?w [sample_task] [] Draining\<rparr>"
  let ?q2 = "q\<lparr>pr_create := ?w [] [sample_task] Draining\<rparr>"
  let ?q3 = "q\<lparr>pr_create := ?w [] [] Stopped, pr_pg := s, pr_jobs := jobs\<rparr>"
  let ?x = "main_exit 50000 sample_notify sample_users (sample_config, sample_queue)"
  note defs = at_def batch_event_def runCreateWorker_def worker_step_def flush_rest_def receive_def
  have "?x [] ([CloseKafka, CloseRedis, ClosePostgres, CancelContexts], sample_config, sample_queue)"
    using main_exit.signalled [of 50000 sample_notify sample_users "(sample_config, sample_queue)"]
    by (simp add: main_defers_def)
  from goes_on [OF this, of Unwind] have "?x [Unwind] ([CloseRedis, ClosePostgres, CancelContexts], sample_config, at p)"
    by (simp add: at_def p_def)
  from goes_on [OF this, of "?goes TickerFires"]
  have "?x [Unwind, ?goes TickerFires] ([CloseRedis, ClosePostgres, CancelContexts], sample_config, at p)"
    by (simp add: defs p same)
  from goes_on [OF goes_on [OF goes_on [OF this]], of Unwind _ Unwind _ Unwind]
  have "?x [Unwind, ?goes TickerFires, Unwind, Unwind, Unwind] ([], ?C, at q)"
    by (simp add: at_def q_def close_pg_def on_pg_def)
  from goes_on [OF this, of "?goes CtxDone"]
  have "?x [Unwind, ?goes TickerFires, Unwind, Unwind, Unwind, ?goes CtxDone] ([], ?C, at ?q1)" by (simp add: defs q)
  from goes_on [OF this, of "?goes Receive"]
  have "?x [Unwind, ?goes TickerFires, Unwind, Unwind, Unwind, ?goes CtxDone, ?goes Receive] ([], ?C, at ?q2)"
    by (simp add: defs q)
  from goes_on [OF this, of "?goes Default"]
  have run: "?x [Unwind, ?goes TickerFires, Unwind, Unwind, Unwind, ?goes CtxDone, ?goes Receive, ?goes Default] ([], ?C, at ?q3)"
    by (simp add: defs q f)
  have "queues_ok (sy_app sample_queue)" "\<not> pr_cancelled (ap_proc (sy_app sample_queue))"
    using sample_start p(2) by (simp_all add: p_def)
  from exit_loses_the_queues [OF run this] obtain es1 ds1 C1 W where
    "?x es1 (ClosePostgres # ds1, C1, W)" "app_db (sy_app (at ?q3)) = app_db (sy_app W)"
    by (auto simp: at_def q)
  with run show ?thesis by (fastforce simp: at_def)
qed

end
