(* ===== verification/Dates.thy ===== *)
theory Dates
  imports GoTime
begin

text \<open>
  The dates of requests and responses: the calendar behind \<open>time.Parse\<close> and \<open>Format\<close>
  (\<open>days_from_civil\<close>, \<open>civil_from_days\<close>, \<open>parse_chunks\<close>, \<open>pad_digits\<close> of GoTime) is consistent, so a
  due date is shown as it was given.
\<close>

section \<open>The calendar\<close>

text \<open>The year of an era is found again from the day of the era.\<close>

lemma year_of_era:
  fixes c k a doy :: int
  assumes c: "0 \<le> c" "c \<le> 3" and k: "0 \<le> k" "k \<le> 24" and a: "0 \<le> a" "a \<le> 3"
    and doy: "0 \<le> doy" "doy \<le> 364 \<or> (doy = 365 \<and> a = 3 \<and> (k < 24 \<or> c = 3))"
    and doe: "doe = 36524 * c + 1461 * k + 365 * a + doy"
  shows "(doe - doe div 1460 + doe div 36524 - doe div 146096) div 365 = 100 * c + 4 * k + a"
proof (cases "doe = 146096")
  case True
  then have sum: "36524 * c + 1461 * k + 365 * a + doy = 146096" and "doy \<le> 365" using doe doy by auto
  then have "c = 3" using c k a by linarith
  moreover have "k = 24" using sum \<open>c = 3\<close> \<open>doy \<le> 365\<close> k a by linarith
  moreover have "a = 3" using sum \<open>c = 3\<close> \<open>k = 24\<close> \<open>doy \<le> 365\<close> a by linarith
  ultimately show ?thesis using True by simp
next
  case False
  define r where "r = 1461 * k + 365 * a + doy"
  have r: "0 \<le> r" "r < 36524" using False k a doy c doe unfolding r_def by auto
  define m where "m = 24 * c + k + 365 * a + doy"
  have "doe = 36524 * c + r" using doe by (simp add: r_def)
  then have 1: "doe div 36524 = c" "doe div 146096 = 0" using r c by simp_all
  have m: "0 \<le> m" "m \<le> 1556" using c k a doy unfolding m_def by auto
  have "doe = 1460 * (25 * c + k) + m" using doe by (simp add: m_def)
  then have 2: "doe div 1460 = 25 * c + k + m div 1460" by simp
  define e where "e = m div 1460"
  have e: "e = 0 \<and> m < 1460 \<or> e = 1 \<and> 1460 \<le> m" 
  proof (cases "m < 1460")
    case True
    then show ?thesis using m(1) by (simp add: e_def)
  next
    case False
    then have "m div 1460 = (m - 1460) div 1460 + 1" by (simp add: div_pos_geq)
    moreover have "(m - 1460) div 1460 = 0" using False m(2) by simp
    ultimately show ?thesis using False by (simp add: e_def)
  qed
  have "doe - doe div 1460 + doe div 36524 - doe div 146096 = 365 * (100 * c + 4 * k + a) + (doy - e)"
    unfolding 1 2 e_def [symmetric] using doe by simp
  moreover have "0 \<le> doy - e" "doy - e < 365"
    using e doy c k a unfolding m_def by auto
  ultimately show ?thesis by simp
qed

text \<open>The month and the day of the month are found again from the day of the year.\<close>

lemma month_of_year:
  fixes mp d :: int
  assumes "0 \<le> mp" "mp \<le> 11" "1 \<le> d"
    and "d \<le> (if mp = 11 then 29 else if mp \<in> {1, 3, 6, 8} then 30 else 31)"
  shows "(5 * ((153 * mp + 2) div 5 + d - 1) + 2) div 153 = mp"
    and "0 \<le> (153 * mp + 2) div 5 + d - 1" "(153 * mp + 2) div 5 + d - 1 \<le> 365"
    and "(153 * mp + 2) div 5 + d - 1 = 365 \<Longrightarrow> mp = 11 \<and> d = 29"
proof -
  have "mp \<in> {0, 1, 2, 3, 4, 5, 6, 7, 8, 9, 10, 11}" using assms(1,2) by (simp; presburger)
  then have "(5 * ((153 * mp + 2) div 5 + d - 1) + 2) div 153 = mp \<and> 0 \<le> (153 * mp + 2) div 5 + d - 1
    \<and> (153 * mp + 2) div 5 + d - 1 \<le> 365 \<and> ((153 * mp + 2) div 5 + d - 1 = 365 \<longrightarrow> mp = 11 \<and> d = 29)"
    using assms(3,4) by auto
  then show "(5 * ((153 * mp + 2) div 5 + d - 1) + 2) div 153 = mp"
    and "0 \<le> (153 * mp + 2) div 5 + d - 1" "(153 * mp + 2) div 5 + d - 1 \<le> 365"
    and "(153 * mp + 2) div 5 + d - 1 = 365 \<Longrightarrow> mp = 11 \<and> d = 29"
    by blast+
qed

lemma civil_from_days_inverse:
  assumes m: "1 \<le> m" "m \<le> 12" and d: "1 \<le> d" "d \<le> days_in m y"
  shows "civil_from_days (days_from_civil y m d) = (y, m, d)"
proof -
  define Y where "Y = (if m \<le> 2 then y - 1 else y)"
  define era where "era = Y div 400"
  define yoe where "yoe = Y mod 400"
  define mp where "mp = (if m > 2 then m - 3 else m + 9)"
  define doy where "doy = (153 * mp + 2) div 5 + d - 1"
  define doe where "doe = yoe * 365 + yoe div 4 - yoe div 100 + doy"
  have yoe_sub: "Y - era * 400 = yoe" unfolding era_def yoe_def by (simp add: minus_div_mult_eq_mod)
  have day: "days_from_civil y m d = era * 146097 + doe - 719468"
    unfolding days_from_civil_def Let_def
    by (simp only: Y_def [symmetric] era_def [symmetric] yoe_sub mp_def [symmetric] doy_def [symmetric] doe_def)
  have mp: "0 \<le> mp" "mp \<le> 11" using m by (auto simp: mp_def)
  have len: "d \<le> (if mp = 11 then 29 else if mp \<in> {1, 3, 6, 8} then 30 else 31)"
    using d(2) m by (auto simp: mp_def days_in_def split: if_splits)
  note month = month_of_year [OF mp d(1) len, folded doy_def]
  define c where "c = yoe div 100"
  define k where "k = yoe mod 100 div 4"
  define a where "a = yoe mod 4"
  have y: "0 \<le> yoe" "yoe < 400" by (simp_all add: yoe_def)
  have a4: "yoe mod 100 mod 4 = a" unfolding a_def by (simp add: mod_mod_cancel)
  have split: "yoe = 100 * c + 4 * k + a"
  proof -
    have "yoe = 100 * c + yoe mod 100" unfolding c_def by simp
    moreover have "yoe mod 100 = 4 * k + a" unfolding k_def using a4 by (metis mult_div_mod_eq)
    ultimately show ?thesis by simp
  qed
  have cka: "0 \<le> c" "c \<le> 3" "0 \<le> k" "k \<le> 24" "0 \<le> a" "a \<le> 3"
    using y by (auto simp: c_def k_def a_def)
  have k4: "yoe div 4 = 25 * c + k" using cka by (simp add: split)
  have last: "doy \<le> 364 \<or> (doy = 365 \<and> a = 3 \<and> (k < 24 \<or> c = 3))"
  proof (cases "doy = 365")
    case True
    then have "mp = 11" "d = 29" using month(4) by auto
    then have "m = 2" using m by (auto simp: mp_def split: if_splits)
    with d(2) \<open>d = 29\<close> have leap: "leap y" by (auto simp: days_in_def split: if_splits)
    have yY: "y = era * 400 + (100 * c + 4 * k + a) + 1"
      using \<open>m = 2\<close> yoe_sub split by (simp add: Y_def)
    have "y = (a + 1) + 4 * (era * 100 + 25 * c + k)" using yY by simp
    then have "y mod 4 = (a + 1) mod 4" by (metis mod_mult_self2)
    moreover have "y mod 4 = 0" using leap by (simp add: leap_def)
    ultimately have a3: "a = 3" using cka(5,6) by presburger
    have "k < 24 \<or> c = 3"
    proof (rule ccontr)
      assume "\<not> (k < 24 \<or> c = 3)"
      then have "k = 24" "c \<le> 2" using cka by auto
      then have y1: "y = era * 400 + 100 * (c + 1)" using yY a3 by simp
      have "y = 100 * (era * 4 + c + 1)" using y1 by simp
      then have "y mod 100 = 0" by simp
      moreover have "y mod 400 = 100 * (c + 1)" unfolding y1 using cka(1) \<open>c \<le> 2\<close> by simp
      ultimately show False using leap cka(1) by (simp add: leap_def)
    qed
    with a3 True show ?thesis by simp
  qed (use month(3) in auto)
  have doe_sum: "doe = 36524 * c + 1461 * k + 365 * a + doy"
    unfolding doe_def k4 c_def [symmetric] by (simp add: split)
  have yoe': "(doe - doe div 1460 + doe div 36524 - doe div 146096) div 365 = yoe"
    using year_of_era [OF cka month(2) last doe_sum] split by simp
  have bound: "0 \<le> doe" "doe < 146097"
  proof -
    show "0 \<le> doe" using doe_sum cka month(2) by simp
    show "doe < 146097" using doe_sum cka last by auto
  qed
  then have era': "(era * 146097 + doe) div 146097 = era" by simp
  have doy': "doe - (365 * yoe + yoe div 4 - yoe div 100) = doy" by (simp add: doe_def)
  have month': "(if mp < 10 then mp + 3 else mp - 9) = m" using m by (auto simp: mp_def)
  have year': "yoe + era * 400 + (if m \<le> 2 then 1 else 0) = y" using yoe_sub by (auto simp: Y_def)
  have z: "days_from_civil y m d + 719468 = era * 146097 + doe" by (simp add: day)
  have rest: "era * 146097 + doe - era * 146097 = doe" by simp
  have "doy - (153 * mp + 2) div 5 + 1 = d" by (simp add: doy_def)
  then show ?thesis
    unfolding civil_from_days_def Let_def z era' rest yoe' doy' month(1) month' year' by simp
qed

section \<open>Numbers in texts\<close>

lemma digit_val_char: "0 \<le> v \<Longrightarrow> v < 10 \<Longrightarrow> digit_val (digit_char v) = Some v"
proof -
  assume "0 \<le> v" "v < 10"
  then have "v \<in> {0, 1, 2, 3, 4, 5, 6, 7, 8, 9}" by (simp; presburger)
  then show ?thesis by (auto simp: digit_val_def digit_char_def less_eq_char_def)
qed

lemma digits_n_append: "digits_n (n + k) s acc = (case digits_n n s acc of None \<Rightarrow> None | Some (v, r) \<Rightarrow> digits_n k r v)"
  by (induction n s acc rule: digits_n.induct) (auto split: option.split)

lemma digits_n_pad:
  "0 \<le> v \<Longrightarrow> v < 10 ^ n \<Longrightarrow> digits_n n (pad_digits n v @ r) acc = Some (acc * 10 ^ n + v, r)"
proof (induction n arbitrary: v r)
  case (Suc n)
  have "v div 10 < 10 ^ n" using Suc.prems by (simp add: div_less_iff_less_mult ac_simps)
  then have "digits_n n (pad_digits n (v div 10) @ digit_char v # r) acc
      = Some (acc * 10 ^ n + v div 10, digit_char v # r)"
    using Suc.prems by (intro Suc.IH) auto
  moreover have "digit_char v = digit_char (v mod 10)" by (simp add: digit_char_def)
  then have "digit_val (digit_char v) = Some (v mod 10)" using digit_val_char [of "v mod 10"] by simp
  ultimately show ?case
    using digits_n_append [of n 1 "pad_digits n (v div 10) @ digit_char v # r" acc]
    by (simp add: algebra_simps)
qed simp

lemma getnum_pad: "0 \<le> v \<Longrightarrow> v < 100 \<Longrightarrow> getnum fixed (pad_digits 2 v @ r) = Some (v, r)"
  using digits_n_pad [of v 2 r 0] by (simp add: getnum_def)

section \<open>Due dates\<close>

text \<open>The two texts of a minute: as requests give it and as responses show it.\<close>

definition given_minute :: "int \<Rightarrow> int \<Rightarrow> int \<Rightarrow> int \<Rightarrow> int \<Rightarrow> string" where
  "given_minute y m d h mi =
     pad_digits 4 y @ ''-'' @ pad_digits 2 m @ ''-'' @ pad_digits 2 d @ '' '' @ pad_digits 2 h @ '':'' @
     pad_digits 2 mi"

definition shown_minute :: "int \<Rightarrow> int \<Rightarrow> int \<Rightarrow> int \<Rightarrow> int \<Rightarrow> string" where
  "shown_minute y m d h mi =
     pad_digits 2 d @ ''-'' @ pad_digits 2 m @ ''-'' @ pad_digits 4 y @ '' '' @ pad_digits 2 h @ '':'' @
     pad_digits 2 mi"

lemma parse_given_minute:
  assumes "0 \<le> y" "y \<le> 9999" "1 \<le> m" "m \<le> 12" "1 \<le> d" "d \<le> days_in m y"
    "0 \<le> h" "h < 24" "0 \<le> mi" "mi < 60"
  shows "time_Parse layout_minute (given_minute y m d h mi)
    = Some (((days_from_civil y m d * 24 + h) * 60 + mi) * 60 * 1000000)"
proof -
  have d31: "d < 100" using assms(6) by (auto simp: days_in_def split: if_splits)
  have "digit_val (digit_char v) \<noteq> None" for v
    using digit_val_char [of "v mod 10"] by (simp add: digit_char_def)
  moreover have "digit_val CHR '' '' = None" by (simp add: digit_val_def less_eq_char_def)
  ultimately have sep: "digit_char v \<noteq> CHR '' ''" for v by metis
  have "parse_chunk (Lit CHR '' '') (CHR '' '' # pad_digits 2 h @ r) f = Some (f, pad_digits 2 h @ r)" for r f
    using sep sep [symmetric] by (auto simp: numeral_2_eq_2)
  moreover have "c \<noteq> CHR '' '' \<Longrightarrow> parse_chunk (Lit c) (c # r) f = Some (f, r)" for c r f by simp
  ultimately have "parse_chunks layout_minute (given_minute y m d h mi) no_fields
      = Some (no_fields\<lparr>f_year := y, f_month := m, f_day := d, f_hour := h, f_min := mi\<rparr>)"
    using assms d31 digits_n_pad [of y 4 _ 0] getnum_pad [of mi fixed "[]" for fixed]
    by (simp add: layout_defs given_minute_def getnum_pad del: parse_chunk.simps(8))
  then show ?thesis using assms by (simp add: time_Parse_def fields_time_def no_fields_def)
qed

lemma format_shown_minute:
  assumes "1 \<le> m" "m \<le> 12" "1 \<le> d" "d \<le> days_in m y" "0 \<le> h" "h < 24" "0 \<le> mi" "mi < 60"
  shows "format_response (((days_from_civil y m d * 24 + h) * 60 + mi) * 60 * 1000000) = shown_minute y m d h mi"
proof -
  let ?n = "days_from_civil y m d"
  have secs: "((?n * 24 + h) * 60 + mi) * 60 * 1000000 div 1000000 = ?n * 86400 + (h * 3600 + mi * 60)" by simp
  have sod: "0 \<le> h * 3600 + mi * 60" "h * 3600 + mi * 60 < 86400" using assms by linarith+
  then have day: "(?n * 86400 + (h * 3600 + mi * 60)) div 86400 = ?n"
    "(?n * 86400 + (h * 3600 + mi * 60)) mod 86400 = h * 3600 + mi * 60"
    by simp_all
  have "(h * 3600 + mi * 60) div 3600 = h" using assms by simp
  moreover have "(h * 3600 + mi * 60) div 60 mod 60 = mi" using assms by simp
  ultimately show ?thesis
    unfolding format_response_def Let_def secs day civil_from_days_inverse [OF assms(1-4)] prod.case
    by (simp add: shown_minute_def)
qed

text \<open>C39: A request gives a due date to the minute (\<open>YYYY-MM-DD hh:mm\<close>). The decoder of requests
  accepts every valid date of the years 0 to 9999 in that form, and the response writes the
  instant it read as the same minute, day first.
\<close>

theorem due_date_shown_as_given:
  assumes "0 \<le> y" "y \<le> 9999" "1 \<le> m" "m \<le> 12" "1 \<le> d" "d \<le> days_in m y"
    "0 \<le> h" "h < 24" "0 \<le> mi" "mi < 60"
  shows "\<exists>t. CustomTime_UnmarshalJSON (CHR 0x22 # given_minute y m d h mi @ [CHR 0x22]) = Ret (Inr t) \<and>
    format_response t = shown_minute y m d h mi"
  using parse_given_minute [OF assms] format_shown_minute [OF assms(3-10)]
  by (simp add: CustomTime_UnmarshalJSON_def Let_def del: distrib_left_numeral distrib_right_numeral)

theorem due_date_shown_as_given_witness:
  "CustomTime_UnmarshalJSON ([CHR 0x22] @ ''2024-02-29 10:05'' @ [CHR 0x22]) = Ret (Inr 1709201100000000) \<and>
   format_response 1709201100000000 = ''29-02-2024 10:05''"
proof -
  obtain t where t: "CustomTime_UnmarshalJSON (CHR 0x22 # given_minute 2024 2 29 10 5 @ [CHR 0x22]) = Ret (Inr t)"
    "format_response t = shown_minute 2024 2 29 10 5"
    using due_date_shown_as_given [of 2024 2 29 10 5] by (auto simp: days_in_def leap_def)
  have texts: "CHR 0x22 # given_minute 2024 2 29 10 5 @ [CHR 0x22] = [CHR 0x22] @ ''2024-02-29 10:05'' @ [CHR 0x22]"
    "shown_minute 2024 2 29 10 5 = ''29-02-2024 10:05''" by code_simp+
  have "CustomTime_UnmarshalJSON ([CHR 0x22] @ ''2024-02-29 10:05'' @ [CHR 0x22]) = Ret (Inr 1709201100000000)"
    by code_simp
  with t texts show ?thesis by simp
qed

end
