(* ===== verification/Spec2Isabelle.thy ===== *)
theory Spec2Isabelle
  imports Filters TaskRepo SubtaskRepo Subscriptions SharedTasks Outbox Reminders Cache TaskService Batch
    Http TaskHandlers SharedHandlers Tags Routes Clients Journal System Server Startup Shutdown Dates
begin

text \<open>
  A verification library for the tasks service, a Go program that keeps the tasks, subtasks, tags
  and shared tasks of users in PostgreSQL, caches them in Redis, publishes what happens to tasks
  through an outbox table to Kafka, and reminds users of deadlines.

  The program and the theories. File names are relative to \<open>src/app\<close>.

  \<^item> Prelude, GoTime, Dates: what the Go code takes from its standard library (\<open>strings\<close>,
    \<open>time.Parse\<close>, \<open>Format\<close>), errors as a datatype (\<open>go_err\<close>), panics as \<open>outcome\<close>, the environment
    \<open>env\<close> (clock, fresh identifiers, UUID and timestamp parsing), list lemmas.
  \<^item> Domain, Filters: \<open>internal/tasks/domain\<close>, \<open>dto\<close>, \<open>pkg/utils/validate\<close>; list filters, sorting, cache
    keys (\<open>pkg/api/filter\<close>, \<open>pkg/api/sort\<close>, \<open>pkg/utils/operator\<close>, \<open>pkg/utils/CacheKey\<close>).
  \<^item> Store: the tables of \<open>migrations\<close> as lists of rows (\<open>db\<close>) with their constraints, and a session with
    the server (\<open>pg\<close>: tables, the fate of the coming round trips, a counter of fresh identifiers).
    \<open>pg_run\<close>, \<open>pg_query\<close> and \<open>pg_tx\<close> are one statement, one query, one transaction; each may be refused
    or lose its answer. The locale \<open>store_rel\<close> lifts a relation between tables from statements to
    whole operations. The ports of the Go code are locales over it (\<open>task_repository\<close>,
    \<open>subscription_repository\<close>, \<open>shared_task_repository\<close>, \<open>tag_repository\<close>, \<open>outbox_repository\<close>):
    services, handlers and workers are lifted once, inside them, \<open>requests\<close> joins them for
    every step but those of the outbox processor and \<open>service\<close> for a run of the whole program. They
    are interpreted for the invariant of the tables (\<open>db_inv\<close>), for the journal (\<open>journal\<close>), for adding
    unmarked events (\<open>added\<close>) and, on the side of the processor, for leaving all other tables alone
    (\<open>outbox_only\<close>).
  \<^item> Mapper, TaskRepo, SubtaskRepo, Subscriptions: the repositories of
    \<open>internal/tasks/repository/postgres\<close>, one definition per SQL statement (\<open>..._sql\<close>) and one per
    method (\<open>repo_...\<close>).
  \<^item> Cache: \<open>internal/tasks/repository/redis\<close> over the locale \<open>redis_store\<close> of what a Redis server
    promises. TaskService: \<open>internal/tasks/service\<close>. Batch: \<open>internal/tasks/batch\<close>, the two bounded
    queues, their workers and the cache goroutines as a transition system.
  \<^item> SharedTasks: domain, repository and service of \<open>internal/shared_tasks\<close>. Tags: everything of
    \<open>internal/tags\<close>.
  \<^item> Outbox: the outbox repository, \<open>internal/worker/worker.go\<close> and the Kafka producer and client, over
    the locales \<open>event_store\<close> and \<open>event_sink\<close>. Reminders: both reminder workers and the notification
    client, over the locales \<open>reminder_store\<close> and \<open>notifier\<close>. Clients: the clients of the users'
    service.
  \<^item> Journal: the outbox as a journal of the tasks, an invariant across the repositories.
  \<^item> Http: response writer, error middleware, signature check, retries and circuit breaker
    (\<open>internal/apperror\<close>, \<open>pkg/api/signature\<close>, \<open>pkg/api/resilience\<close>, \<open>pkg/utils/repeatable\<close>).
    TaskHandlers, SharedHandlers: the handlers. Routes: \<open>Register\<close> of the three handler packages.
  \<^item> Startup, Server, System, Shutdown: \<open>cmd/main.go\<close>, \<open>internal/config\<close>, \<open>pkg/client\<close>, \<open>pkg/metrics\<close>; from the
    start of the process over the running service, one transition system over all parts
    (\<open>service_run\<close>), to its end, where the deferred calls of \<open>main\<close> interleave with the goroutines
    nobody waits for (\<open>main_exit\<close>).

  How the code is rendered. A Go struct is a record, its methods are functions on explicit state; an
  error return is the left side of a sum; a map in its iteration order is a list, and theorems
  quantify over the order; a goroutine is a list of calls left in the state, run by later steps in
  any order. Strings are byte strings. SQL is translated statement by statement into a function on
  tables that gives the new tables or the error the server reports. \<open>int\<close> columns keep
  their 32-bit range (\<open>int4_ok\<close>), the counters of the Kafka client wrap at 2 to the 64.

  What the lemmas show. Per repository: every operation keeps the constraints of the schema and the
  invariants of Store (\<open>db_ok\<close>), and what each operation does on each branch, all or nothing where it
  is a transaction. Shared tasks: the life cycle of a proposal along any sequence of operations.
  Outbox and reminders: nothing is lost by the processor, order, at most once per kind, and
  progress when everything answers. Cache: after any failures an invalidation reaches every list but those
  whose own storing call failed. Batch: accounting of
  every accepted item, bounds, termination of the drain loop, and what a flush writes. Http and
  Routes: who may change what, what an answer means. System: the invariant of the composed service,
  that its outbox tells the tasks it has, and that the Kafka writer accepts the last event of every
  task unless it waits behind a thousand older ones; Shutdown: what is lost at its end, under every interleaving.

  Bounds and fuel. No definition needs fuel: loops are structural recursions or have a termination
  proof (\<open>DoWithTries\<close>, \<open>show_nat\<close>). The lists of coming faults are finite and everything
  answers once they are used up; theorems quantify over them. \<open>close_pg n\<close> makes a closed pool
  refuse \<open>n\<close> calls, and the theorem about it asks for more than full queues and the run can make.

  Parameters. The PostgreSQL evaluation of client-chosen conditions and order (\<open>engine\<close>), the Redis
  server (\<open>redis\<close>), the HMAC, the circuit breaker and limiter (\<open>guard\<close>), the JSON decoder (the
  field \<open>rq_json\<close> of a request) and UUID parsing are arguments, and so are the order Postgres gives rows that a sort key does not tell
  apart (\<open>row_order\<close>) and the local clock of the process, which a TIMESTAMP parameter is read by
  (\<open>wall_clock\<close>); what the code relies on stands as
  named hypotheses (\<open>uuid_laws\<close>, \<open>engine_restricts\<close>, \<open>redis_store\<close>), each with a concrete instance.

  Not modelled. Log lines, response headers, the wording of JSON, the lifetimes of contexts other
  than as failing calls, connection pooling, the timeouts of the HTTP server, a request that outlives the shutdown, the
  delivery of a message after the asynchronous Kafka writer has accepted it, a session time zone of
  the database other than UTC, the Go memory
  model (a step is atomic: a handler, a flush, one call of a goroutine or of the cache), messages to users in their
  original language (they are given in English). \<open>WriteSync\<close> of the Kafka client and the client of
  \<open>pkg/client/users\<close> are modelled although no code calls them.
\<close>

end
